(* ===== verification/Rust_Prelude.thy ===== *)
theory Rust_Prelude
  imports Main "HOL-Library.Word"
begin

text \<open>
  The part of Rust and of its standard library that the modelled sources use: machine integers,
  the outcome of code that may panic, byte strings with the operations of \<^verbatim>\<open>str\<close>, number
  parsing and printing, and the generic list lemmas the components share.

  A Rust \<^verbatim>\<open>str\<close> is modelled by its UTF-8 bytes: an element of the HOL type \<open>string\<close> is one byte
  (\<open>char\<close> has exactly 256 values), so \<open>length\<close> is \<^verbatim>\<open>str::len\<close> and indices are byte indices.
  The operations below that look at whole characters (trimming white space, splitting at white
  space, replacing the empty pattern, checking a slice boundary) decode the bytes they need.
\<close>

unbundle bit_operations_syntax

named_theorems str_defs
named_theorems outcome_simps

type_synonym u8 = "8 word"
type_synonym u16 = "16 word"
type_synonym u32 = "32 word"
type_synonym u64 = "64 word"
type_synonym u128 = "128 word"

abbreviation CR :: char where "CR \<equiv> CHR 0x0D"
abbreviation LF :: char where "LF \<equiv> CHR 0x0A"
abbreviation CRLF :: string where "CRLF \<equiv> [CHR 0x0D, CHR 0x0A]"

section \<open>Outcomes\<close>

text \<open>
  The release profile of the crate sets \<^verbatim>\<open>overflow-checks = true\<close> and \<^verbatim>\<open>panic = "abort"\<close>: an
  arithmetic overflow or a slice out of range ends the process. Code that can do so returns an
  \<open>outcome\<close>.
\<close>

datatype 'a outcome = Val 'a | Panic

fun bind_outcome :: "'a outcome \<Rightarrow> ('a \<Rightarrow> 'b outcome) \<Rightarrow> 'b outcome" where
  "bind_outcome (Val x) f = f x"
| "bind_outcome Panic f = Panic"

fun panics :: "'a outcome \<Rightarrow> bool" where
  "panics (Val _) = False"
| "panics Panic = True"

lemma bind_outcome_eq_Val [outcome_simps]:
  "(bind_outcome m f = Val y) = (\<exists>x. m = Val x \<and> f x = Val y)"
  by (cases m) auto

lemma not_panics_iff: "(\<not> panics m) = (\<exists>x. m = Val x)"
  by (cases m) auto

text \<open>Checked subtraction and addition of the widths the sources use.\<close>

definition sub_u32 :: "u32 \<Rightarrow> u32 \<Rightarrow> u32 outcome" where
  "sub_u32 a b = (if b \<le> a then Val (a - b) else Panic)"

definition add_u32 :: "u32 \<Rightarrow> u32 \<Rightarrow> u32 outcome" where
  "add_u32 a b = (if unat a + unat b < 2 ^ 32 then Val (a + b) else Panic)"

definition saturating_sub :: "'a::len word \<Rightarrow> 'a word \<Rightarrow> 'a word" where
  "saturating_sub a b = (if b \<le> a then a - b else 0)"

definition checked_shl :: "'a::len word \<Rightarrow> u32 \<Rightarrow> 'a word option" where
  "checked_shl x k = (if unat k < LENGTH('a) then Some (push_bit (unat k) x) else None)"

lemma unat_saturating_sub: "unat (saturating_sub a b) = unat a - unat b"
  by (auto simp: saturating_sub_def unat_sub word_le_nat_alt)

lemma add_u32_Val: "add_u32 a b = Val c \<Longrightarrow> unat c = unat a + unat b"
  by (auto simp: add_u32_def unat_word_ariths split: if_splits)

section \<open>Bytes and characters\<close>

definition byte_of_char :: "char \<Rightarrow> u8" where
  "byte_of_char c = word_of_nat (of_char c)"

definition char_of_byte :: "u8 \<Rightarrow> char" where
  "char_of_byte b = char_of (unat b)"

lemma char_of_byte_of_char [simp]: "char_of_byte (byte_of_char c) = c"
proof -
  have "(of_char c :: nat) < 256"
    using of_char_of [of "of_char c :: nat"] by simp
  then have "unat (byte_of_char c) = of_char c"
    by (simp add: byte_of_char_def unat_of_nat)
  then show ?thesis by (simp add: char_of_byte_def)
qed

lemma byte_of_char_of_byte [simp]: "byte_of_char (char_of_byte b) = b"
proof -
  have "unat b < 2 ^ LENGTH(8)" by (rule unsigned_less)
  then have "unat b < 256" by simp
  then show ?thesis by (simp add: byte_of_char_def char_of_byte_def)
qed

definition str_bytes :: "string \<Rightarrow> u8 list" where
  "str_bytes s = map byte_of_char s"

definition bytes_str :: "u8 list \<Rightarrow> string" where
  "bytes_str bs = map char_of_byte bs"

lemma bytes_str_str_bytes [simp]: "bytes_str (str_bytes s) = s"
  by (simp add: bytes_str_def str_bytes_def comp_def)

lemma str_bytes_bytes_str [simp]: "str_bytes (bytes_str bs) = bs"
  by (simp add: bytes_str_def str_bytes_def comp_def)

lemma length_str_bytes [simp]: "length (str_bytes s) = length s"
  by (simp add: str_bytes_def)

lemma length_bytes_str [simp]: "length (bytes_str bs) = length bs"
  by (simp add: bytes_str_def)

lemma str_bytes_append [simp]: "str_bytes (s @ t) = str_bytes s @ str_bytes t"
  by (simp add: str_bytes_def)

lemma bytes_str_append [simp]: "bytes_str (s @ t) = bytes_str s @ bytes_str t"
  by (simp add: bytes_str_def)

definition is_ascii_upper :: "char \<Rightarrow> bool" where
  "is_ascii_upper c = (65 \<le> (of_char c :: nat) \<and> (of_char c :: nat) \<le> 90)"

definition is_ascii_lower :: "char \<Rightarrow> bool" where
  "is_ascii_lower c = (97 \<le> (of_char c :: nat) \<and> (of_char c :: nat) \<le> 122)"

definition lower_char :: "char \<Rightarrow> char" where
  "lower_char c = (if is_ascii_upper c then char_of ((of_char c :: nat) + 32) else c)"

definition upper_char :: "char \<Rightarrow> char" where
  "upper_char c = (if is_ascii_lower c then char_of ((of_char c :: nat) - 32) else c)"

text \<open>\<^verbatim>\<open>to_ascii_lowercase\<close>, \<^verbatim>\<open>to_ascii_uppercase\<close> and \<^verbatim>\<open>eq_ignore_ascii_case\<close>.\<close>

definition ascii_lower :: "string \<Rightarrow> string" where
  "ascii_lower s = map lower_char s"

definition ascii_upper :: "string \<Rightarrow> string" where
  "ascii_upper s = map upper_char s"

definition eq_ignore_case :: "string \<Rightarrow> string \<Rightarrow> bool" where
  "eq_ignore_case a b = (ascii_lower a = ascii_lower b)"

lemma of_char_char_of_nat: "n < 256 \<Longrightarrow> of_char (char_of n) = (n :: nat)"
  by simp

lemma lower_char_not_upper: "\<not> is_ascii_upper (lower_char c)"
proof (cases "is_ascii_upper c")
  case True
  then have "(of_char c :: nat) + 32 < 256" by (simp add: is_ascii_upper_def)
  then have "(of_char (char_of ((of_char c :: nat) + 32)) :: nat) = of_char c + 32"
    by (rule of_char_char_of_nat)
  with True show ?thesis by (simp add: lower_char_def is_ascii_upper_def)
next
  case False
  then show ?thesis by (simp add: lower_char_def)
qed

lemma lower_char_idem [simp]: "lower_char (lower_char c) = lower_char c"
  using lower_char_not_upper [of c] by (simp add: lower_char_def)

lemma ascii_lower_idem [simp]: "ascii_lower (ascii_lower s) = ascii_lower s"
  by (simp add: ascii_lower_def)

lemma length_ascii_lower [simp]: "length (ascii_lower s) = length s"
  by (simp add: ascii_lower_def)

lemma ascii_lower_fixed: "list_all (\<lambda>c. \<not> is_ascii_upper c) s \<Longrightarrow> ascii_lower s = s"
  by (induction s) (auto simp: ascii_lower_def lower_char_def)

lemma eq_ignore_case_refl [simp]: "eq_ignore_case s s"
  by (simp add: eq_ignore_case_def)

text \<open>Evaluation of case conversion on closed strings.\<close>

lemmas case_eval = eq_ignore_case_def ascii_lower_def ascii_upper_def lower_char_def upper_char_def
  is_ascii_upper_def is_ascii_lower_def char_of_def bit_0

section \<open>Searching and splitting\<close>

fun starts_with :: "'a list \<Rightarrow> 'a list \<Rightarrow> bool" where
  "starts_with s [] = True"
| "starts_with [] (p # ps) = False"
| "starts_with (c # s) (p # ps) = (c = p \<and> starts_with s ps)"

definition ends_with :: "'a list \<Rightarrow> 'a list \<Rightarrow> bool" where
  "ends_with s p = starts_with (rev s) (rev p)"

fun strip_prefix :: "'a list \<Rightarrow> 'a list \<Rightarrow> 'a list option" where
  "strip_prefix s [] = Some s"
| "strip_prefix [] (p # ps) = None"
| "strip_prefix (c # s) (p # ps) = (if c = p then strip_prefix s ps else None)"

text \<open>\<^verbatim>\<open>str::find(char)\<close> and \<^verbatim>\<open>str::rfind(char)\<close>: the first and the last index.\<close>

fun find_idx :: "'a \<Rightarrow> 'a list \<Rightarrow> nat option" where
  "find_idx c [] = None"
| "find_idx c (x # xs) = (if x = c then Some 0 else map_option Suc (find_idx c xs))"

fun rfind_idx :: "'a \<Rightarrow> 'a list \<Rightarrow> nat option" where
  "rfind_idx c [] = None"
| "rfind_idx c (x # xs) =
     (case rfind_idx c xs of Some i \<Rightarrow> Some (Suc i) | None \<Rightarrow> if x = c then Some 0 else None)"

text \<open>\<^verbatim>\<open>split\<close> at every character that satisfies a predicate; the result is never empty.\<close>

fun split_by :: "('a \<Rightarrow> bool) \<Rightarrow> 'a list \<Rightarrow> 'a list list" where
  "split_by p [] = [[]]"
| "split_by p (x # xs) =
     (if p x then [] # split_by p xs
      else (case split_by p xs of [] \<Rightarrow> [[x]] | w # ws \<Rightarrow> (x # w) # ws))"

definition split_on :: "'a \<Rightarrow> 'a list \<Rightarrow> 'a list list" where
  "split_on c = split_by (\<lambda>x. x = c)"

text \<open>\<^verbatim>\<open>splitn(n, c)\<close>: at most \<open>n\<close> pieces, the last one unsplit.\<close>

fun splitn :: "nat \<Rightarrow> 'a \<Rightarrow> 'a list \<Rightarrow> 'a list list" where
  "splitn 0 c s = []"
| "splitn (Suc 0) c s = [s]"
| "splitn (Suc (Suc n)) c s =
     (case find_idx c s of
        None \<Rightarrow> [s]
      | Some i \<Rightarrow> take i s # splitn (Suc n) c (drop (Suc i) s))"

fun contains_sub :: "'a list \<Rightarrow> 'a list \<Rightarrow> bool" where
  "contains_sub [] p = (p = [])"
| "contains_sub (x # xs) p = (starts_with (x # xs) p \<or> contains_sub xs p)"

lemma starts_with_iff: "starts_with s p = (\<exists>t. s = p @ t)"
  by (induction s p rule: starts_with.induct) auto

lemma starts_with_append [simp]: "starts_with (p @ t) p"
  by (simp add: starts_with_iff)

lemma starts_with_refl [simp]: "starts_with s s"
  using starts_with_append [of s "[]"] by simp

lemma strip_prefix_eq_Some: "(strip_prefix s p = Some t) = (s = p @ t)"
  by (induction s p rule: strip_prefix.induct) auto

lemma strip_prefix_append [simp]: "strip_prefix (p @ t) p = Some t"
  by (simp add: strip_prefix_eq_Some)

lemma strip_prefix_eq_None: "(strip_prefix s p = None) = (\<not> starts_with s p)"
  by (induction s p rule: strip_prefix.induct) auto

lemma find_idx_Some:
  "find_idx c s = Some i \<Longrightarrow> i < length s \<and> s ! i = c \<and> c \<notin> set (take i s)"
proof (induction s arbitrary: i)
  case Nil
  then show ?case by simp
next
  case (Cons x xs)
  then show ?case by (cases i) (auto split: if_splits)
qed

lemma find_idx_None: "(find_idx c s = None) = (c \<notin> set s)"
  by (induction s) auto

lemma find_idx_append [simp]: "c \<notin> set a \<Longrightarrow> find_idx c (a @ c # b) = Some (length a)"
  by (induction a) auto

lemma rfind_idx_None: "(rfind_idx c s = None) = (c \<notin> set s)"
  by (induction s) (auto split: option.splits)

lemma rfind_idx_append [simp]: "c \<notin> set b \<Longrightarrow> rfind_idx c (a @ c # b) = Some (length a)"
  by (induction a) (auto simp: rfind_idx_None split: option.splits)

lemma split_by_nonempty [simp]: "split_by p s \<noteq> []"
  by (induction s) (auto split: list.splits)

lemma split_on_nonempty [simp]: "split_on c s \<noteq> []"
  by (simp add: split_on_def)

lemma split_by_append:
  "list_all (\<lambda>x. \<not> p x) a \<Longrightarrow> p c \<Longrightarrow> split_by p (a @ c # b) = a # split_by p b"
  by (induction a) auto

lemma split_on_append [simp]: "c \<notin> set a \<Longrightarrow> split_on c (a @ c # b) = a # split_on c b"
  unfolding split_on_def by (rule split_by_append) (auto simp: list_all_iff)

lemma split_by_none: "list_all (\<lambda>x. \<not> p x) a \<Longrightarrow> split_by p a = [a]"
  by (induction a) auto

lemma split_on_none [simp]: "c \<notin> set a \<Longrightarrow> split_on c a = [a]"
  unfolding split_on_def by (rule split_by_none) (auto simp: list_all_iff)

lemma splitn_append [simp]:
  "c \<notin> set a \<Longrightarrow> splitn (Suc (Suc n)) c (a @ c # b) = a # splitn (Suc n) c b"
  by simp

lemma contains_sub_iff: "contains_sub s p = (\<exists>a b. s = a @ p @ b)"
proof (induction s)
  case Nil
  then show ?case by simp
next
  case (Cons x xs)
  show ?case
  proof
    assume "contains_sub (x # xs) p"
    then consider "starts_with (x # xs) p" | "contains_sub xs p" by auto
    then show "\<exists>a b. x # xs = a @ p @ b"
    proof cases
      case 1
      then obtain t where "x # xs = [] @ p @ t" by (auto simp: starts_with_iff)
      then show ?thesis by blast
    next
      case 2
      then obtain a b where "xs = a @ p @ b" using Cons.IH by blast
      then have "x # xs = (x # a) @ p @ b" by simp
      then show ?thesis by blast
    qed
  next
    assume "\<exists>a b. x # xs = a @ p @ b"
    then obtain a b where ab: "x # xs = a @ p @ b" by blast
    show "contains_sub (x # xs) p"
    proof (cases a)
      case Nil
      with ab have "starts_with (x # xs) p" by simp
      then show ?thesis by simp
    next
      case (Cons y ys)
      with ab have "xs = ys @ p @ b" by simp
      then show ?thesis using Cons.IH by auto
    qed
  qed
qed

section \<open>White space, trimming and words\<close>

abbreviation cv :: "char \<Rightarrow> nat" where
  "cv c \<equiv> of_char c"

text \<open>
  The length in bytes of the white space character a string begins with, 0 if it does not begin
  with one: the characters with the Unicode property \<^verbatim>\<open>White_Space\<close>, in UTF-8.
\<close>

definition ascii_ws :: "char \<Rightarrow> bool" where
  "ascii_ws c = (9 \<le> cv c \<and> cv c \<le> 13 \<or> cv c = 32)"

definition ws2 :: "char \<Rightarrow> char \<Rightarrow> bool" where
  "ws2 a b = (cv a = 0xC2 \<and> (cv b = 0x85 \<or> cv b = 0xA0))"

definition ws3 :: "char \<Rightarrow> char \<Rightarrow> char \<Rightarrow> bool" where
  "ws3 a b c =
     (cv a = 0xE1 \<and> cv b = 0x9A \<and> cv c = 0x80 \<or>
      cv a = 0xE2 \<and> cv b = 0x80 \<and>
        (0x80 \<le> cv c \<and> cv c \<le> 0x8A \<or> cv c = 0xA8 \<or> cv c = 0xA9 \<or> cv c = 0xAF) \<or>
      cv a = 0xE2 \<and> cv b = 0x81 \<and> cv c = 0x9F \<or>
      cv a = 0xE3 \<and> cv b = 0x80 \<and> cv c = 0x80)"

definition ws_len :: "string \<Rightarrow> nat" where
  "ws_len s = (case s of [] \<Rightarrow> 0 | a # s1 \<Rightarrow>
     if ascii_ws a then 1
     else (case s1 of [] \<Rightarrow> 0 | b # s2 \<Rightarrow>
       if ws2 a b then 2
       else (case s2 of [] \<Rightarrow> 0 | c # _ \<Rightarrow> if ws3 a b c then 3 else 0)))"

definition ws_len_rev :: "string \<Rightarrow> nat" where
  "ws_len_rev s = (case s of [] \<Rightarrow> 0 | a # s1 \<Rightarrow>
     if ascii_ws a then 1
     else (case s1 of [] \<Rightarrow> 0 | b # s2 \<Rightarrow>
       if ws2 b a then 2
       else (case s2 of [] \<Rightarrow> 0 | c # _ \<Rightarrow> if ws3 c b a then 3 else 0)))"

lemma ws_len_pos_nonempty: "0 < ws_len s \<Longrightarrow> s \<noteq> []"
  by (auto simp: ws_len_def)

lemma ws_len_rev_pos_nonempty: "0 < ws_len_rev s \<Longrightarrow> s \<noteq> []"
  by (auto simp: ws_len_rev_def)

function trim_start :: "string \<Rightarrow> string" where
  "trim_start s = (if ws_len s = 0 then s else trim_start (drop (ws_len s) s))"
  by pat_completeness auto
termination
  by (relation "measure length") (auto intro!: diff_less dest: ws_len_pos_nonempty)

function trim_rev :: "string \<Rightarrow> string" where
  "trim_rev s = (if ws_len_rev s = 0 then s else trim_rev (drop (ws_len_rev s) s))"
  by pat_completeness auto
termination
  by (relation "measure length") (auto intro!: diff_less dest: ws_len_rev_pos_nonempty)

declare trim_start.simps [simp del] trim_rev.simps [simp del]

definition trim :: "string \<Rightarrow> string" where
  "trim s = rev (trim_rev (rev (trim_start s)))"

text \<open>\<^verbatim>\<open>trim_start_matches\<close> and \<^verbatim>\<open>trim_end_matches\<close> for a set of one-byte characters.\<close>

definition trim_start_matches :: "('a \<Rightarrow> bool) \<Rightarrow> 'a list \<Rightarrow> 'a list" where
  "trim_start_matches p s = dropWhile p s"

definition trim_end_matches :: "('a \<Rightarrow> bool) \<Rightarrow> 'a list \<Rightarrow> 'a list" where
  "trim_end_matches p s = rev (dropWhile p (rev s))"

text \<open>\<^verbatim>\<open>split_whitespace\<close>: the maximal runs of characters that are not white space.\<close>

function ws_words :: "string \<Rightarrow> string \<Rightarrow> string list" where
  "ws_words cur [] = (if cur = [] then [] else [rev cur])"
| "ws_words cur (c # s) =
     (if ws_len (c # s) = 0 then ws_words (c # cur) s
      else (if cur = [] then [] else [rev cur]) @ ws_words [] (drop (ws_len (c # s)) (c # s)))"
  by pat_completeness auto
termination
  by (relation "measure (\<lambda>(cur, s). length s)") auto

definition split_whitespace :: "string \<Rightarrow> string list" where
  "split_whitespace s = ws_words [] s"

text \<open>\<^verbatim>\<open>lines\<close>: pieces between line feeds without a final carriage return; a last empty piece
  is not a line.\<close>

definition strip_cr :: "string \<Rightarrow> string" where
  "strip_cr l = (if l \<noteq> [] \<and> last l = char_of (13::nat) then butlast l else l)"

definition str_lines :: "string \<Rightarrow> string list" where
  "str_lines s =
     (let ps = split_on (char_of (10::nat)) s
      in map strip_cr (if last ps = [] then butlast ps else ps))"

text \<open>Printable ASCII other than the space: what numbers and addresses are printed with.\<close>

definition graphic :: "char \<Rightarrow> bool" where
  "graphic c = (33 \<le> cv c \<and> cv c \<le> 126)"

lemma graphic_not_ws: "graphic c \<Longrightarrow> ws_len (c # s) = 0" "graphic c \<Longrightarrow> ws_len_rev (c # s) = 0"
proof -
  assume "graphic c"
  then have "33 \<le> cv c" "cv c \<le> 126" by (auto simp: graphic_def)
  then show "ws_len (c # s) = 0" "ws_len_rev (c # s) = 0"
    by (auto simp: ws_len_def ws_len_rev_def ascii_ws_def ws2_def ws3_def split: list.splits)
qed

lemma trim_start_graphic [simp]: "graphic c \<Longrightarrow> trim_start (c # s) = c # s"
  by (subst trim_start.simps) (simp add: graphic_not_ws)

lemma trim_rev_graphic: "graphic c \<Longrightarrow> trim_rev (c # s) = c # s"
  by (subst trim_rev.simps) (simp add: graphic_not_ws)

lemma trim_Nil [simp]: "trim [] = []"
  by (simp add: trim_def trim_start.simps trim_rev.simps ws_len_def ws_len_rev_def)

lemma trim_graphic: "list_all graphic s \<Longrightarrow> trim s = s"
proof (cases s)
  case Nil
  then show ?thesis by simp
next
  case (Cons c t)
  assume g: "list_all graphic s"
  from Cons g have st: "trim_start s = s" by simp
  from Cons have "rev s = last s # rev (butlast s)"
    by (metis append_butlast_last_id list.distinct(1) rev.simps(2) rev_rev_ident rev_swap)
  moreover have "graphic (last s)" using g Cons by (metis last_in_set list.distinct(1) list_all_iff)
  ultimately have "trim_rev (rev s) = rev s" by (metis trim_rev_graphic)
  with st show ?thesis by (simp add: trim_def)
qed

lemma ws_len_rev_append: "list_all graphic p \<Longrightarrow> ws_len_rev (xs @ p) \<le> length xs"
  by (cases xs; cases "tl xs"; cases "tl (tl xs)"; cases p; cases "tl p")
    (auto simp: ws_len_rev_def graphic_def ascii_ws_def ws2_def ws3_def split: list.splits)

lemma trim_rev_append: "list_all graphic p \<Longrightarrow> \<exists>ys. trim_rev (xs @ p) = ys @ p"
proof (induction xs rule: length_induct)
  case (1 xs)
  have le: "ws_len_rev (xs @ p) \<le> length xs" using 1(2) by (rule ws_len_rev_append)
  show ?case
  proof (cases "ws_len_rev (xs @ p) = 0")
    case True
    then show ?thesis by (subst trim_rev.simps) auto
  next
    case False
    with le 1 have "\<exists>ys. trim_rev (drop (ws_len_rev (xs @ p)) xs @ p) = ys @ p" by auto
    with False le show ?thesis by (subst trim_rev.simps) simp
  qed
qed

lemma trim_prefix:
  assumes "list_all graphic (c # p)"
  shows "starts_with (trim (c # p @ s)) (c # p)"
proof -
  obtain ys where "trim_rev (rev s @ rev (c # p)) = ys @ rev (c # p)"
    using trim_rev_append [of "rev (c # p)" "rev s"] assms by (auto simp: list_all_iff)
  then have "trim (c # p @ s) = (c # p) @ rev ys"
    using assms by (simp add: trim_def)
  then show ?thesis by simp
qed

text \<open>Evaluation of trimming on closed strings.\<close>

lemmas trim_eval = trim_def trim_start.simps trim_rev.simps ws_len_def ws_len_rev_def
  ascii_ws_def ws2_def ws3_def

section \<open>Replacing\<close>

function replace_ne :: "'a list \<Rightarrow> 'a list \<Rightarrow> 'a list \<Rightarrow> 'a list" where
  "replace_ne p r [] = []"
| "replace_ne p r (c # s) =
     (case strip_prefix (c # s) p of
        Some t \<Rightarrow> if p = [] then c # replace_ne p r s else r @ replace_ne p r t
      | None \<Rightarrow> c # replace_ne p r s)"
  by pat_completeness auto
termination
proof (relation "measure (\<lambda>(p, r, s). length s)"; simp)
  fix c :: 'a and p s t
  assume "strip_prefix (c # s) p = Some t" and "p \<noteq> []"
  then have "c # s = p @ t" "p \<noteq> []" by (auto simp: strip_prefix_eq_Some)
  then show "length t < Suc (length s)"
    by (metis length_append length_Cons length_greater_0_conv less_add_same_cancel2)
qed

definition is_cont_byte :: "char \<Rightarrow> bool" where
  "is_cont_byte c = (128 \<le> cv c \<and> cv c < 192)"

fun replace_empty :: "string \<Rightarrow> string \<Rightarrow> string" where
  "replace_empty r [] = r"
| "replace_empty r (c # s) =
     (if is_cont_byte c then c # replace_empty r s else r @ c # replace_empty r s)"

text \<open>\<^verbatim>\<open>String::push(b as char)\<close>: a byte from 128 on becomes a two-byte character.\<close>

definition push_byte_char :: "char \<Rightarrow> string" where
  "push_byte_char c =
     (if cv c < 128 then [c] else [char_of (192 + cv c div 64), char_of (128 + cv c mod 64)])"

text \<open>\<^verbatim>\<open>s.replace(p, r)\<close> and \<^verbatim>\<open>s.replacen(p, r, 1)\<close>.\<close>

definition str_replace :: "string \<Rightarrow> string \<Rightarrow> string \<Rightarrow> string" where
  "str_replace p r s = (if p = [] then replace_empty r s else replace_ne p r s)"

fun replace_first :: "string \<Rightarrow> string \<Rightarrow> string \<Rightarrow> string" where
  "replace_first p r [] = (if p = [] then r else [])"
| "replace_first p r (c # s) =
     (case strip_prefix (c # s) p of Some t \<Rightarrow> r @ t | None \<Rightarrow> c # replace_first p r s)"

text \<open>The first index of a two-byte slice, \<^verbatim>\<open>windows(2).position\<close>.\<close>

fun find_pair :: "'a \<Rightarrow> 'a \<Rightarrow> 'a list \<Rightarrow> nat option" where
  "find_pair a b (x # y # s) =
     (if x = a \<and> y = b then Some 0 else map_option Suc (find_pair a b (y # s)))"
| "find_pair a b s = None"

lemma find_pair_append [simp]:
  "a \<notin> set s \<Longrightarrow> find_pair a b (s @ a # b # t) = Some (length s)"
proof (induction s)
  case Nil
  then show ?case by simp
next
  case (Cons x xs)
  then show ?case by (cases xs) auto
qed

lemma find_pair_Some: "find_pair a b s = Some i \<Longrightarrow> Suc i < length s \<and> s ! i = a \<and> s ! Suc i = b"
proof (induction a b s arbitrary: i rule: find_pair.induct)
  case (1 a b x y s)
  then show ?case by (cases i) (auto split: if_splits)
qed auto

text \<open>\<^verbatim>\<open>is_char_boundary\<close>, and slicing off the first \<open>n\<close> bytes, which panics off a boundary.\<close>

definition is_char_boundary :: "string \<Rightarrow> nat \<Rightarrow> bool" where
  "is_char_boundary s n =
     (n = 0 \<or> n = length s \<or> (n < length s \<and> \<not> is_cont_byte (s ! n)))"

definition slice_to :: "string \<Rightarrow> nat \<Rightarrow> string outcome" where
  "slice_to s n = (if is_char_boundary s n then Val (take n s) else Panic)"

text \<open>\<^verbatim>\<open>str::from_utf8\<close>: whether bytes are well-formed UTF-8.\<close>

definition in_range :: "nat \<Rightarrow> nat \<Rightarrow> char \<Rightarrow> bool" where
  "in_range a b c = (a \<le> cv c \<and> cv c \<le> b)"

definition utf8_3 :: "char \<Rightarrow> char \<Rightarrow> char \<Rightarrow> bool" where
  "utf8_3 a b c =
     (in_range 0x80 0xBF c \<and>
      (cv a = 0xE0 \<and> in_range 0xA0 0xBF b \<or>
       (in_range 0xE1 0xEC a \<or> in_range 0xEE 0xEF a) \<and> in_range 0x80 0xBF b \<or>
       cv a = 0xED \<and> in_range 0x80 0x9F b))"

definition utf8_4 :: "char \<Rightarrow> char \<Rightarrow> char \<Rightarrow> char \<Rightarrow> bool" where
  "utf8_4 a b c d =
     (in_range 0x80 0xBF c \<and> in_range 0x80 0xBF d \<and>
      (cv a = 0xF0 \<and> in_range 0x90 0xBF b \<or>
       in_range 0xF1 0xF3 a \<and> in_range 0x80 0xBF b \<or>
       cv a = 0xF4 \<and> in_range 0x80 0x8F b))"

function utf8_ok :: "string \<Rightarrow> bool" where
  "utf8_ok s = (case s of [] \<Rightarrow> True | a # s1 \<Rightarrow>
     if cv a < 128 then utf8_ok s1
     else (case s1 of [] \<Rightarrow> False | b # s2 \<Rightarrow>
       if in_range 0xC2 0xDF a \<and> in_range 0x80 0xBF b then utf8_ok s2
       else (case s2 of [] \<Rightarrow> False | c # s3 \<Rightarrow>
         if utf8_3 a b c then utf8_ok s3
         else (case s3 of [] \<Rightarrow> False | d # s4 \<Rightarrow> utf8_4 a b c d \<and> utf8_ok s4))))"
  by pat_completeness auto
termination
  by (relation "measure length") auto

declare utf8_ok.simps [simp del]

lemma utf8_ok_Nil [simp]: "utf8_ok []"
  by (simp add: utf8_ok.simps)

lemma utf8_ok_ascii_Cons [simp]: "cv a < 128 \<Longrightarrow> utf8_ok (a # s) = utf8_ok s"
  by (simp add: utf8_ok.simps [of "a # s"])

lemma utf8_ok_ascii: "list_all (\<lambda>c. cv c < 128) s \<Longrightarrow> utf8_ok s"
  by (induction s) auto

section \<open>Numbers\<close>

definition digit_char :: "nat \<Rightarrow> char" where
  "digit_char d = char_of (48 + d)"

definition digit_val :: "nat \<Rightarrow> char \<Rightarrow> nat option" where
  "digit_val radix c =
     (let v = (if 48 \<le> cv c \<and> cv c \<le> 57 then Some (cv c - 48)
               else if 97 \<le> cv c \<and> cv c \<le> 122 then Some (cv c - 87)
               else if 65 \<le> cv c \<and> cv c \<le> 90 then Some (cv c - 55)
               else None)
      in case v of None \<Rightarrow> None | Some d \<Rightarrow> if d < radix then Some d else None)"

fun digits_val :: "nat \<Rightarrow> nat \<Rightarrow> string \<Rightarrow> nat option" where
  "digits_val radix acc [] = Some acc"
| "digits_val radix acc (c # s) =
     (case digit_val radix c of
        None \<Rightarrow> None
      | Some d \<Rightarrow> digits_val radix (acc * radix + d) s)"

text \<open>
  \<^verbatim>\<open>from_str_radix\<close> of an unsigned type with \<open>bound\<close> values: an optional plus sign, then at least
  one digit, and no overflow.
\<close>

definition parse_uint :: "nat \<Rightarrow> nat \<Rightarrow> string \<Rightarrow> nat option" where
  "parse_uint radix bound s =
     (let t = (case s of c # r \<Rightarrow> if c = CHR ''+'' then r else s | [] \<Rightarrow> [])
      in if t = [] then None
         else (case digits_val radix 0 t of
                 None \<Rightarrow> None
               | Some n \<Rightarrow> if n < bound then Some n else None))"

definition parse_u8 :: "string \<Rightarrow> nat option" where
  "parse_u8 = parse_uint 10 (2 ^ 8)"

definition parse_u16 :: "string \<Rightarrow> nat option" where
  "parse_u16 = parse_uint 10 (2 ^ 16)"

definition parse_u64 :: "string \<Rightarrow> nat option" where
  "parse_u64 = parse_uint 10 (2 ^ 64)"

text \<open>Decimal printing, \<^verbatim>\<open>{}\<close> of an unsigned number.\<close>

fun dec :: "nat \<Rightarrow> string" where
  "dec n = (if n < 10 then [digit_char n] else dec (n div 10) @ [digit_char (n mod 10)])"

declare dec.simps [simp del]

lemma cv_digit_char: "d < 10 \<Longrightarrow> cv (digit_char d) = 48 + d"
  by (simp add: digit_char_def)

lemma digit_val_digit_char: "d < 10 \<Longrightarrow> 10 \<le> radix \<Longrightarrow> digit_val radix (digit_char d) = Some d"
  by (simp add: digit_val_def cv_digit_char Let_def)

lemma digits_val_append:
  "digits_val radix acc (s @ t) =
     (case digits_val radix acc s of None \<Rightarrow> None | Some a \<Rightarrow> digits_val radix a t)"
  by (induction s arbitrary: acc) (auto split: option.splits)

lemma digits_val_dec: "digits_val 10 0 (dec n) = Some n"
proof (induction n rule: dec.induct)
  case (1 n)
  show ?case
  proof (cases "n < 10")
    case True
    then show ?thesis by (simp add: dec.simps [of n] digit_val_digit_char)
  next
    case False
    with "1.IH" show ?thesis
      by (simp add: dec.simps [of n] digits_val_append digit_val_digit_char)
  qed
qed

lemma dec_nonempty [simp]: "dec n \<noteq> []"
  by (subst dec.simps) simp

definition is_digit :: "char \<Rightarrow> bool" where
  "is_digit c = (48 \<le> cv c \<and> cv c \<le> 57)"

lemma dec_digits: "list_all is_digit (dec n)"
proof (induction n rule: dec.induct)
  case (1 n)
  then show ?case
    by (auto simp: dec.simps [of n] is_digit_def cv_digit_char)
qed

lemma is_digit_graphic: "is_digit c \<Longrightarrow> graphic c"
  by (simp add: is_digit_def graphic_def)

lemma dec_graphic: "list_all graphic (dec n)"
  using dec_digits [of n] by (auto simp: list_all_iff is_digit_graphic)

lemma dec_notin: "\<not> is_digit c \<Longrightarrow> c \<notin> set (dec n)"
  using dec_digits [of n] by (auto simp: list_all_iff)

lemma parse_uint_digits:
  assumes "list_all is_digit s" and "s \<noteq> []"
  shows "parse_uint 10 bound s =
    (case digits_val 10 0 s of None \<Rightarrow> None | Some n \<Rightarrow> if n < bound then Some n else None)"
proof -
  from assms obtain c t where s: "s = c # t" and "is_digit c" by (cases s) auto
  then have "c \<noteq> CHR ''+''" by (auto simp: is_digit_def)
  with s show ?thesis by (simp add: parse_uint_def)
qed

lemma parse_uint_dec: "parse_uint 10 bound (dec n) = (if n < bound then Some n else None)"
  by (simp add: parse_uint_digits dec_digits digits_val_dec)

lemma parse_uint_bound: "parse_uint radix bound s = Some n \<Longrightarrow> n < bound"
  by (auto simp: parse_uint_def Let_def split: if_splits option.splits list.splits)

lemma length_dec_le: "n < 10 ^ Suc k \<Longrightarrow> length (dec n) \<le> Suc k"
proof (induction k arbitrary: n)
  case 0
  then show ?case by (simp add: dec.simps)
next
  case (Suc k)
  show ?case
  proof (cases "n < 10")
    case True
    then show ?thesis by (simp add: dec.simps)
  next
    case False
    from Suc.prems have "n div 10 < 10 ^ Suc k" by (simp add: less_mult_imp_div_less)
    then have "length (dec (n div 10)) \<le> Suc k" by (rule Suc.IH)
    with False show ?thesis by (simp add: dec.simps [of n])
  qed
qed

text \<open>Evaluation of number parsing on closed strings.\<close>

lemmas parse_eval = parse_u8_def parse_u16_def parse_u64_def parse_uint_def digit_val_def

section \<open>Lists with a search\<close>

section \<open>Paths\<close>

text \<open>\<^verbatim>\<open>Path::join\<close> on Unix: an absolute argument replaces the path.\<close>

definition path_join :: "string \<Rightarrow> string \<Rightarrow> string" where
  "path_join a b =
     (if starts_with b ''/'' then b
      else if a = [] \<or> last a = CHR ''/'' then a @ b
      else a @ ''/'' @ b)"

text \<open>\<^verbatim>\<open>iter().find\<close> is the library's \<open>find\<close>; its basic facts.\<close>

lemma find_None_all: "(find p xs = None) = (\<forall>x\<in>set xs. \<not> p x)"
  by (auto simp: find_None_iff)

lemma find_SomeD: "find p xs = Some x \<Longrightarrow> x \<in> set xs \<and> p x"
  by (auto simp: find_Some_iff in_set_conv_nth)

lemma find_append:
  "find p (xs @ ys) = (case find p xs of None \<Rightarrow> find p ys | Some x \<Rightarrow> Some x)"
  by (induction xs) auto

text \<open>\<^verbatim>\<open>iter().any\<close> stops at the first element that satisfies the predicate or panics.\<close>

fun any_outcome :: "('a \<Rightarrow> bool outcome) \<Rightarrow> 'a list \<Rightarrow> bool outcome" where
  "any_outcome p [] = Val False"
| "any_outcome p (x # xs) =
     (case p x of Panic \<Rightarrow> Panic | Val True \<Rightarrow> Val True | Val False \<Rightarrow> any_outcome p xs)"

lemma any_outcome_Val:
  "\<forall>x\<in>set xs. p x = Val (q x) \<Longrightarrow> any_outcome p xs = Val (\<exists>x\<in>set xs. q x)"
  by (induction xs) (auto split: bool.splits)

text \<open>\<^verbatim>\<open>filter_map\<close>.\<close>

fun filter_map :: "('a \<Rightarrow> 'b option) \<Rightarrow> 'a list \<Rightarrow> 'b list" where
  "filter_map f [] = []"
| "filter_map f (x # xs) = (case f x of None \<Rightarrow> filter_map f xs | Some y \<Rightarrow> y # filter_map f xs)"

lemma filter_map_map_filter:
  "filter_map f xs = map (\<lambda>x. the (f x)) (filter (\<lambda>x. f x \<noteq> None) xs)"
  by (induction xs) auto

section \<open>Stable sorting\<close>

text \<open>
  \<^verbatim>\<open>sort_by_key\<close> is stable, as the library's \<open>sort_key\<close> is: the first element of the sorted
  list with a property is the earliest of those with the least key.
\<close>

lemma find_conv_filter: "find p xs = (case filter p xs of [] \<Rightarrow> None | x # _ \<Rightarrow> Some x)"
  by (induction xs) auto

lemma hd_sort_key_least:
  assumes "x \<in> set xs"
  shows "k (hd (sort_key k xs)) \<le> k x"
proof -
  from assms have "sort_key k xs \<noteq> []" by (metis empty_iff list.set(1) set_sort)
  then obtain y ys where ys: "sort_key k xs = y # ys" by (cases "sort_key k xs") auto
  have "sorted (map k (y # ys))" using ys sorted_sort_key [of k xs] by simp
  moreover have "x \<in> set (y # ys)" using assms ys by (metis set_sort)
  ultimately show ?thesis by (auto simp: ys)
qed

lemma find_sort_key_min:
  assumes i: "i < length xs" "p (xs ! i)"
    and least: "\<And>j. j < length xs \<Longrightarrow> p (xs ! j) \<Longrightarrow>
      k (xs ! i) < k (xs ! j) \<or> k (xs ! i) = k (xs ! j) \<and> i \<le> j"
  shows "find p (sort_key k xs) = Some (xs ! i)"
proof -
  let ?c = "k (xs ! i)" and ?F = "filter p xs"
  have mem: "xs ! i \<in> set ?F" using i by simp
  then have ne: "sort_key k ?F \<noteq> []" by (metis empty_iff list.set(1) set_sort)
  then obtain z zs where z: "sort_key k ?F = z # zs" by (cases "sort_key k ?F") auto
  have "z \<in> set ?F" using z by (metis list.set_intros(1) set_sort)
  then obtain j where "j < length xs" "xs ! j = z" "p z" by (auto simp: in_set_conv_nth)
  then have "?c \<le> k z" using least [of j] by auto
  moreover have "k z \<le> ?c" using hd_sort_key_least [OF mem, of k] z by simp
  ultimately have kz: "k z = ?c" by simp
  have "filter (\<lambda>y. k y = ?c) ?F = filter (\<lambda>y. k y = ?c) (z # zs)"
    using sort_key_stable [of k ?c ?F] by (simp only: z)
  then obtain ws where ws: "filter (\<lambda>y. k y = ?c) ?F = z # ws" using kz by simp
  have "\<not> (k (xs ! j) = ?c \<and> p (xs ! j))" if "j < i" for j
    using least [of j] that i(1) by auto
  then have "find (\<lambda>y. k y = ?c \<and> p y) xs = Some (xs ! i)"
    using i unfolding find_Some_iff by blast
  moreover have "find (\<lambda>y. k y = ?c \<and> p y) xs = Some z"
    using ws by (simp add: find_conv_filter conj_commute)
  ultimately have "z = xs ! i" by simp
  moreover have "filter p (sort_key k xs) = z # zs" using z by (simp add: filter_sort)
  ultimately show ?thesis by (simp add: find_conv_filter)
qed

lemma find_sort_key_level:
  assumes low: "\<And>x. x \<in> set xs \<Longrightarrow> p x \<Longrightarrow> c \<le> k x" and ex: "\<exists>x\<in>set xs. p x \<and> k x = c"
  shows "find p (sort_key k xs) = find (\<lambda>x. p x \<and> k x = c) xs"
proof -
  from ex obtain y where y: "find (\<lambda>x. p x \<and> k x = c) xs = Some y"
    by (cases "find (\<lambda>x. p x \<and> k x = c) xs") (auto simp: find_None_all)
  then obtain i where i: "i < length xs" "p (xs ! i)" "k (xs ! i) = c" "y = xs ! i"
      "\<And>j. j < i \<Longrightarrow> \<not> (p (xs ! j) \<and> k (xs ! j) = c)"
    unfolding find_Some_iff by blast
  have "find p (sort_key k xs) = Some (xs ! i)"
  proof (rule find_sort_key_min)
    fix j assume j: "j < length xs" "p (xs ! j)"
    then have "c \<le> k (xs ! j)" using low by simp
    then show "k (xs ! i) < k (xs ! j) \<or> k (xs ! i) = k (xs ! j) \<and> i \<le> j"
      using i(3) i(5) [of j] j by (cases "j < i") (auto simp: not_less order_le_less)
  qed (use i in auto)
  then show ?thesis using y i(4) by simp
qed

lemma find_sort_key_same:
  assumes "\<And>x. x \<in> set xs \<Longrightarrow> p x \<Longrightarrow> k x = c"
  shows "find p (sort_key k xs) = find p xs"
proof (cases "\<exists>x\<in>set xs. p x")
  case True
  then have "find p (sort_key k xs) = find (\<lambda>x. p x \<and> k x = c) xs"
    using assms by (intro find_sort_key_level) auto
  also have "\<dots> = find p xs" using assms by (auto intro: find_cong)
  finally show ?thesis .
next
  case False
  then show ?thesis by (metis find_None_all set_sort)
qed

lemma filter_sort_key_same:
  assumes "\<And>x. x \<in> set xs \<Longrightarrow> p x \<Longrightarrow> k x = c"
  shows "filter p (sort_key k xs) = filter p xs"
proof -
  have "filter p (sort_key k xs) = filter p (filter (\<lambda>y. k y = c) (sort_key k xs))"
    using assms by (auto intro!: filter_cong simp: filter_filter)
  also have "\<dots> = filter p (filter (\<lambda>y. k y = c) xs)" by (simp only: sort_key_stable)
  also have "\<dots> = filter p xs" using assms by (auto intro!: filter_cong simp: filter_filter)
  finally show ?thesis .
qed

lemma sort_key_map: "sort_key k (map g xs) = map g (sort_key (\<lambda>x. k (g x)) xs)"
proof -
  have ins: "insort_key k (g x) (map g ys) = map g (insort_key (\<lambda>x. k (g x)) x ys)" for x ys
    by (induction ys) auto
  show ?thesis by (induction xs) (simp_all add: ins)
qed

lemma find_map: "find p (map g xs) = map_option g (find (\<lambda>x. p (g x)) xs)"
  by (induction xs) auto

lemma find_filter: "find p (filter q xs) = find (\<lambda>x. q x \<and> p x) xs"
  by (induction xs) auto

end
