(* ===== verification/Ip_Addr.thy ===== *)
theory Ip_Addr
  imports Rust_Prelude
begin

text \<open>
  \<^verbatim>\<open>std::net::IpAddr\<close> as the sources use it: addresses as 32 and 128 bit words, their big-endian
  octets, the parser of \<^verbatim>\<open>FromStr\<close> and the printer of \<^verbatim>\<open>Display\<close>; the mask arithmetic of CIDR
  blocks that the access control and the real-IP middleware both use, with the interface of a
  CIDR matcher as a locale.
\<close>

section \<open>Big-endian bytes\<close>

definition to_be_bytes :: "nat \<Rightarrow> 'a::len word \<Rightarrow> u8 list" where
  "to_be_bytes n w = map (\<lambda>i. word_of_nat (unat w div 256 ^ i)) (rev [0..<n])"

definition from_be_bytes :: "u8 list \<Rightarrow> 'a::len word" where
  "from_be_bytes bs = word_of_nat (foldl (\<lambda>a b. a * 256 + unat b) 0 bs)"

lemma length_to_be_bytes [simp]: "length (to_be_bytes n w) = n"
  by (simp add: to_be_bytes_def)

lemma unat_byte: "unat (word_of_nat k :: u8) = k mod 256"
  by (simp add: unat_of_nat)

lemma foldl_be_bytes:
  "foldl (\<lambda>a b. a * 256 + unat b) acc (map (\<lambda>i. word_of_nat (x div 256 ^ i) :: u8) (rev [0..<n]))
     = acc * 256 ^ n + x mod 256 ^ n"
proof (induction n arbitrary: acc)
  case 0
  then show ?case by simp
next
  case (Suc n)
  have "x mod 256 ^ Suc n = 256 ^ n * (x div 256 ^ n mod 256) + x mod 256 ^ n"
    using mod_mult2_eq [of x "256 ^ n" 256] by (simp add: mult.commute)
  with Suc show ?case by (simp add: unat_byte algebra_simps)
qed

lemma from_to_be_bytes:
  fixes w :: "'a::len word"
  assumes "LENGTH('a) = 8 * n"
  shows "from_be_bytes (to_be_bytes n w) = w"
proof -
  have "unat w < 2 ^ LENGTH('a)" by (rule unsigned_less)
  then have "unat w < 256 ^ n" by (simp add: assms power_mult)
  then have "foldl (\<lambda>a b. a * 256 + unat b) 0 (to_be_bytes n w) = unat w"
    using foldl_be_bytes [of 0 "unat w" n] by (simp add: to_be_bytes_def)
  then show ?thesis by (simp add: from_be_bytes_def)
qed

lemma from_to_be_bytes_u16 [simp]: "from_be_bytes (to_be_bytes 2 (w :: u16)) = w"
  by (rule from_to_be_bytes) simp

lemma from_to_be_bytes_u32 [simp]: "from_be_bytes (to_be_bytes 4 (w :: u32)) = w"
  by (rule from_to_be_bytes) simp

lemma from_to_be_bytes_u128 [simp]: "from_be_bytes (to_be_bytes 16 (w :: u128)) = w"
  by (rule from_to_be_bytes) simp

section \<open>Addresses\<close>

datatype ip_addr = V4 u32 | V6 u128

fun is_ipv4 :: "ip_addr \<Rightarrow> bool" where
  "is_ipv4 (V4 _) = True"
| "is_ipv4 (V6 _) = False"

record socket_addr =
  sa_ip :: ip_addr
  sa_port :: u16

text \<open>The eight 16-bit segments of an IPv6 address.\<close>

definition segments :: "u128 \<Rightarrow> nat list" where
  "segments a = map (\<lambda>i. unat a div 65536 ^ i mod 65536) (rev [0..<8])"

definition from_segments :: "nat list \<Rightarrow> u128" where
  "from_segments gs = word_of_nat (foldl (\<lambda>a g. a * 65536 + g) 0 gs)"

section \<open>Parsing\<close>

text \<open>
  The parser of \<^verbatim>\<open>core::net::parser\<close>. A reader returns the value read and the remaining
  input, or \<open>None\<close>, in which case the caller's input is unchanged.
\<close>

definition read_number :: "nat \<Rightarrow> nat \<Rightarrow> bool \<Rightarrow> nat \<Rightarrow> string \<Rightarrow> (nat \<times> string) option" where
  "read_number radix max_digits allow_zero_prefix bound s =
     (let ds = takeWhile (\<lambda>c. digit_val radix c \<noteq> None) s
      in if ds = [] \<or> max_digits < length ds then None
         else if \<not> allow_zero_prefix \<and> hd ds = CHR ''0'' \<and> 1 < length ds then None
         else (case digits_val radix 0 ds of
                 None \<Rightarrow> None
               | Some n \<Rightarrow> if n < bound then Some (n, drop (length ds) s) else None))"

definition read_separator ::
  "char \<Rightarrow> nat \<Rightarrow> (string \<Rightarrow> ('a \<times> string) option) \<Rightarrow> string \<Rightarrow> ('a \<times> string) option" where
  "read_separator sep i inner s =
     (if 0 < i then (case s of [] \<Rightarrow> None | c # r \<Rightarrow> if c = sep then inner r else None)
      else inner s)"

definition read_octet :: "string \<Rightarrow> (nat \<times> string) option" where
  "read_octet = read_number 10 3 False 256"

fun read_octets :: "nat \<Rightarrow> nat \<Rightarrow> string \<Rightarrow> (nat list \<times> string) option" where
  "read_octets i 0 s = Some ([], s)"
| "read_octets i (Suc k) s =
     (case read_separator CHR ''.'' i read_octet s of
        None \<Rightarrow> None
      | Some (g, r) \<Rightarrow>
          (case read_octets (Suc i) k r of
             None \<Rightarrow> None
           | Some (gs, r') \<Rightarrow> Some (g # gs, r')))"

definition read_ipv4 :: "string \<Rightarrow> (u32 \<times> string) option" where
  "read_ipv4 s = (case read_octets 0 4 s of
     None \<Rightarrow> None
   | Some (gs, r) \<Rightarrow> Some (from_be_bytes (map word_of_nat gs), r))"

text \<open>Up to \<open>limit\<close> groups; the flag says that an embedded IPv4 address ended them.\<close>

function read_groups :: "nat \<Rightarrow> nat \<Rightarrow> string \<Rightarrow> nat list \<times> bool \<times> string" where
  "read_groups limit i s =
     (if limit \<le> i then ([], False, s)
      else
        (case (if i < limit - 1 then read_separator CHR '':'' i read_ipv4 s else None) of
           Some (v4, r) \<Rightarrow> ([unat v4 div 65536, unat v4 mod 65536], True, r)
         | None \<Rightarrow>
             (case read_separator CHR '':'' i (read_number 16 4 True 65536) s of
                None \<Rightarrow> ([], False, s)
              | Some (g, r) \<Rightarrow>
                  (case read_groups limit (Suc i) r of (gs, f, r') \<Rightarrow> (g # gs, f, r')))))"
  by pat_completeness auto
termination
  by (relation "measure (\<lambda>(limit, i, s). limit - i)") auto

declare read_groups.simps [simp del]

definition read_ipv6 :: "string \<Rightarrow> (u128 \<times> string) option" where
  "read_ipv6 s =
     (case read_groups 8 0 s of (head, head_ipv4, r) \<Rightarrow>
        if length head = 8 then Some (from_segments head, r)
        else if head_ipv4 then None
        else (case r of
            a # b # r2 \<Rightarrow>
              if a = CHR '':'' \<and> b = CHR '':'' then
                (case read_groups (8 - (length head + 1)) 0 r2 of (tail, _, r3) \<Rightarrow>
                   Some (from_segments
                     (head @ replicate (8 - length head - length tail) 0 @ tail), r3))
              else None
          | _ \<Rightarrow> None))"

definition parse_ip :: "string \<Rightarrow> ip_addr option" where
  "parse_ip s =
     (case (case read_ipv4 s of
              Some (a, r) \<Rightarrow> Some (V4 a, r)
            | None \<Rightarrow> (case read_ipv6 s of Some (a, r) \<Rightarrow> Some (V6 a, r) | None \<Rightarrow> None)) of
        Some (a, r) \<Rightarrow> if r = [] then Some a else None
      | None \<Rightarrow> None)"

text \<open>Evaluation on closed strings.\<close>

lemma read_ipv4_eval:
  "read_ipv4 s = (case read_octets 0 (Suc (Suc (Suc (Suc 0)))) s of
     None \<Rightarrow> None
   | Some (gs, r) \<Rightarrow> Some (from_be_bytes (map word_of_nat gs), r))"
  by (simp add: read_ipv4_def numeral_eq_Suc)

lemmas ip_eval = parse_ip_def read_ipv4_eval read_separator_def read_octet_def read_number_def
  digit_val_def from_be_bytes_def

section \<open>Printing\<close>

fun join :: "'a list \<Rightarrow> 'a list list \<Rightarrow> 'a list" where
  "join sep [] = []"
| "join sep [x] = x"
| "join sep (x # y # zs) = x @ sep @ join sep (y # zs)"

definition show_ipv4 :: "u32 \<Rightarrow> string" where
  "show_ipv4 a = join ''.'' (map (dec \<circ> unat) (to_be_bytes 4 a))"

definition hex_digit :: "nat \<Rightarrow> char" where
  "hex_digit d = (if d < 10 then char_of (48 + d) else char_of (87 + d))"

fun hex :: "nat \<Rightarrow> string" where
  "hex n = (if n < 16 then [hex_digit n] else hex (n div 16) @ [hex_digit (n mod 16)])"

declare hex.simps [simp del]

lemma length_hex: "n < 16 ^ Suc k \<Longrightarrow> length (hex n) \<le> Suc k"
proof (induction k arbitrary: n)
  case 0
  then show ?case by (simp add: hex.simps)
next
  case (Suc k)
  show ?case
  proof (cases "n < 16")
    case False
    from Suc.prems have "n div 16 < 16 ^ Suc k" by (simp add: less_mult_imp_div_less)
    then have "length (hex (n div 16)) \<le> Suc k" by (rule Suc.IH)
    with False show ?thesis by (simp add: hex.simps [of n])
  qed (simp add: hex.simps)
qed

text \<open>The longest run of zero segments, as start and length; the first of the longest ones.\<close>

fun zero_span :: "nat \<Rightarrow> nat \<times> nat \<Rightarrow> nat \<times> nat \<Rightarrow> nat list \<Rightarrow> nat \<times> nat" where
  "zero_span i longest current [] = longest"
| "zero_span i longest current (g # gs) =
     (if g = 0 then
        (let cur = (if snd current = 0 then i else fst current, Suc (snd current))
         in zero_span (Suc i) (if snd longest < snd cur then cur else longest) cur gs)
      else zero_span (Suc i) longest (0, 0) gs)"

definition show_ipv6 :: "u128 \<Rightarrow> string" where
  "show_ipv6 a =
     (let gs = segments a
      in if take 6 gs = [0, 0, 0, 0, 0, 65535]
         then ''::ffff:'' @ show_ipv4 (word_of_nat (unat a mod 2 ^ 32))
         else (case zero_span 0 (0, 0) (0, 0) gs of (start, len) \<Rightarrow>
           if 1 < len
           then join '':'' (map hex (take start gs)) @ ''::''
                @ join '':'' (map hex (drop (start + len) gs))
           else join '':'' (map hex gs)))"

fun show_ip :: "ip_addr \<Rightarrow> string" where
  "show_ip (V4 a) = show_ipv4 a"
| "show_ip (V6 a) = show_ipv6 a"

section \<open>Round trip of IPv4 addresses\<close>

lemma hd_dec_zero: "hd (dec n) = CHR ''0'' \<Longrightarrow> n = 0"
proof (induction n rule: dec.induct)
  case (1 n)
  show ?case
  proof (cases "n < 10")
    case True
    with 1(2) have "digit_char n = CHR ''0''" by (simp add: dec.simps [of n])
    then have "cv (digit_char n) = 48" by simp
    with True show ?thesis by (simp add: cv_digit_char)
  next
    case False
    with 1(2) have "hd (dec (n div 10)) = CHR ''0''" by (simp add: dec.simps [of n])
    with 1(1) False have "n div 10 = 0" by blast
    with False show ?thesis by simp
  qed
qed

lemma is_digit_digit_val: "is_digit c \<Longrightarrow> 10 \<le> radix \<Longrightarrow> digit_val radix c \<noteq> None"
  by (auto simp: is_digit_def digit_val_def Let_def)

lemma read_octet_dec:
  assumes "n < 256" and "r = [] \<or> digit_val 10 (hd r) = None"
  shows "read_octet (dec n @ r) = Some (n, r)"
proof -
  have d: "\<forall>c\<in>set (dec n). digit_val 10 c \<noteq> None"
    using dec_digits [of n] by (auto simp: list_all_iff dest: is_digit_digit_val)
  have tw: "takeWhile (\<lambda>c. digit_val 10 c \<noteq> None) (dec n @ r) = dec n"
  proof (cases r)
    case Nil
    with d show ?thesis by (simp add: takeWhile_eq_all_conv)
  next
    case (Cons x xs)
    with assms(2) d show ?thesis by (simp add: takeWhile_append2)
  qed
  have len: "length (dec n) \<le> 3" using assms(1) length_dec_le [of n 2] by simp
  have zero: "hd (dec n) = CHR ''0'' \<Longrightarrow> length (dec n) = 1"
    by (drule hd_dec_zero) (simp add: dec.simps)
  show ?thesis
    unfolding read_octet_def read_number_def Let_def tw
    using assms(1) len zero by (auto simp: digits_val_dec)
qed

lemma read_octets_join:
  assumes "\<forall>n\<in>set ns. n < 256"
  shows "read_octets i (length ns) ((if 0 < i \<and> ns \<noteq> [] then ''.'' else []) @ join ''.'' (map dec ns))
           = Some (ns, [])"
  using assms
proof (induction ns arbitrary: i)
  case Nil
  then show ?case by simp
next
  case (Cons n ns)
  let ?r = "(if ns \<noteq> [] then ''.'' else []) @ join ''.'' (map dec ns)"
  have j: "join ''.'' (dec n # map dec ns) = dec n @ ?r" by (cases ns) auto
  have "?r = [] \<or> digit_val 10 (hd ?r) = None" by (cases ns) (auto simp: digit_val_def)
  then have "read_octet (dec n @ ?r) = Some (n, ?r)" using Cons.prems by (intro read_octet_dec) auto
  then have "read_separator CHR ''.'' i read_octet
      ((if 0 < i then ''.'' else []) @ dec n @ ?r) = Some (n, ?r)"
    by (simp add: read_separator_def)
  moreover have "read_octets (Suc i) (length ns) ?r = Some (ns, [])"
    using Cons.IH [of "Suc i"] Cons.prems by simp
  ultimately show ?case by (cases "0 < i") (simp_all add: j)
qed

lemma parse_show_ipv4: "parse_ip (show_ipv4 a) = Some (V4 a)"
proof -
  let ?ns = "map unat (to_be_bytes 4 a)"
  have "\<forall>n\<in>set ?ns. n < 256"
  proof
    fix n assume "n \<in> set ?ns"
    then obtain b :: u8 where "n = unat b" by auto
    moreover have "unat b < 2 ^ LENGTH(8)" by (rule unsigned_less)
    ultimately show "n < 256" by simp
  qed
  then have "read_octets 0 (length ?ns) (join ''.'' (map dec ?ns)) = Some (?ns, [])"
    using read_octets_join [of ?ns 0] by simp
  then have "read_octets 0 4 (show_ipv4 a) = Some (?ns, [])"
    by (simp add: show_ipv4_def del: read_octets.simps)
  then have "read_ipv4 (show_ipv4 a) = Some (a, [])"
    by (simp add: read_ipv4_def comp_def)
  then show ?thesis by (simp add: parse_ip_def)
qed

lemma show_ipv4_chars: "c \<in> set (show_ipv4 a) \<Longrightarrow> is_digit c \<or> c = CHR ''.''"
proof -
  have "c \<in> set (join ''.'' (map dec ns)) \<Longrightarrow> is_digit c \<or> c = CHR ''.''" for ns
  proof (induction ns)
    case (Cons n ns)
    then show ?case using dec_digits [of n] by (cases ns) (auto simp: list_all_iff)
  qed simp
  from this [of "map unat (to_be_bytes 4 a)"]
  show "c \<in> set (show_ipv4 a) \<Longrightarrow> is_digit c \<or> c = CHR ''.''"
    by (simp add: show_ipv4_def)
qed

section \<open>CIDR blocks\<close>

text \<open>The network mask \<^verbatim>\<open>MAX.checked_shl(width - prefix_len).unwrap_or(0)\<close>.\<close>

definition net_mask :: "u32 \<Rightarrow> 'a::len word" where
  "net_mask k = (case checked_shl (- 1) k of Some m \<Rightarrow> m | None \<Rightarrow> 0)"

lemma mask_eq_iff_drop_bit:
  fixes x y :: "'a::len word"
  shows "(x AND push_bit k (- 1) = y AND push_bit k (- 1)) = (drop_bit k x = drop_bit k y)"
proof
  assume h: "x AND push_bit k (- 1) = y AND push_bit k (- 1)"
  show "drop_bit k x = drop_bit k y"
  proof (rule bit_word_eqI)
    fix n assume "n < LENGTH('a)"
    show "bit (drop_bit k x) n = bit (drop_bit k y) n"
    proof (cases "k + n < LENGTH('a)")
      case True
      have "bit (x AND push_bit k (- 1)) (k + n) = bit (y AND push_bit k (- 1)) (k + n)"
        by (simp only: h)
      with True show ?thesis by (simp add: bit_simps)
    next
      case False
      then show ?thesis by (auto simp: bit_drop_bit_eq dest: bit_imp_le_length)
    qed
  qed
next
  assume h: "drop_bit k x = drop_bit k y"
  show "x AND push_bit k (- 1) = y AND push_bit k (- 1)"
  proof (rule bit_word_eqI)
    fix n assume "n < LENGTH('a)"
    have "k \<le> n \<Longrightarrow> bit (drop_bit k x) (n - k) = bit (drop_bit k y) (n - k)"
      by (simp add: h)
    then show "bit (x AND push_bit k (- 1)) n = bit (y AND push_bit k (- 1)) n"
      by (auto simp: bit_simps)
  qed
qed

text \<open>
  What a CIDR matcher promises: two addresses of the same family match under a valid prefix
  length exactly when their first \<open>p\<close> bits are the same, addresses of different families
  never match, and a valid prefix length never makes the check fail.
\<close>

fun ip_width :: "ip_addr \<Rightarrow> nat" where
  "ip_width (V4 _) = 32"
| "ip_width (V6 _) = 128"

fun same_prefix :: "nat \<Rightarrow> ip_addr \<Rightarrow> ip_addr \<Rightarrow> bool" where
  "same_prefix p (V4 a) (V4 b) = (unat a div 2 ^ (32 - p) = unat b div 2 ^ (32 - p))"
| "same_prefix p (V6 a) (V6 b) = (unat a div 2 ^ (128 - p) = unat b div 2 ^ (128 - p))"
| "same_prefix p _ _ = False"

locale cidr_matcher =
  fixes contains :: "ip_addr \<Rightarrow> u8 \<Rightarrow> ip_addr \<Rightarrow> bool outcome"
  assumes contains_prefix:
    "unat p \<le> ip_width net \<Longrightarrow> contains net p ip = Val (same_prefix (unat p) net ip)"
begin

lemma contains_self: "unat p \<le> ip_width net \<Longrightarrow> contains net p net = Val True"
  by (cases net) (simp_all add: contains_prefix)

lemma contains_full: "unat p = ip_width net \<Longrightarrow> contains net p ip = Val (ip = net)"
  by (cases net; cases ip) (auto simp: contains_prefix word_unat_eq_iff)

lemma contains_shorter:
  assumes "contains net p ip = Val True" and "unat p \<le> ip_width net" and "q \<le> p"
  shows "contains net q ip = Val True"
proof -
  have q: "unat q \<le> unat p" using assms(3) by (simp add: word_le_nat_alt)
  have coarser: "a div 2 ^ (w - unat q) = b div 2 ^ (w - unat q)"
    if "a div 2 ^ (w - unat p) = b div 2 ^ (w - unat p)" and "unat p \<le> w" for a b w :: nat
  proof -
    have "w - unat q = (w - unat p) + (unat p - unat q)" using q that(2) by simp
    then have "(2::nat) ^ (w - unat q) = 2 ^ (w - unat p) * 2 ^ (unat p - unat q)"
      by (simp add: power_add)
    then show ?thesis using that(1) by (simp add: div_mult2_eq)
  qed
  from assms(1,2) have "same_prefix (unat p) net ip" by (simp add: contains_prefix)
  then have "same_prefix (unat q) net ip"
    using assms(2) by (cases net; cases ip) (auto intro: coarser)
  with q assms(2) show ?thesis by (simp add: contains_prefix)
qed

end

end
