(* ===== verification/Access_Control.thy ===== *)
theory Access_Control
  imports Ip_Addr
begin

text \<open>
  The IP access control of a location (\<^verbatim>\<open>src/middleware/access_control.rs\<close>): rules are parsed
  and sorted by priority once, and the first rule that covers the client's address decides.
\<close>

section \<open>Data\<close>

datatype access_action = Allow | Deny

record access_rule =
  ar_action :: access_action
  ar_source :: string
  ar_priority :: u16

datatype ip_matcher = All | Exact ip_addr | Cidr ip_addr u8

record compiled_access_rule =
  car_action :: access_action
  car_matcher :: ip_matcher

definition default_priority :: u16 where
  "default_priority = 0"

section \<open>Operations\<close>

definition parse_matcher :: "string \<Rightarrow> ip_matcher option" where
  "parse_matcher source =
     (let s = trim source
      in if eq_ignore_case s ''all'' then Some All
         else (case find_idx CHR ''/'' s of
             Some pos \<Rightarrow>
               (case parse_ip (take pos s) of
                  None \<Rightarrow> None
                | Some ip \<Rightarrow>
                    (case parse_u8 (drop (pos + 1) s) of
                       None \<Rightarrow> None
                     | Some prefix_len \<Rightarrow>
                         (let max = (if is_ipv4 ip then 32 else 128)
                          in if prefix_len > max then None
                             else Some (Cidr ip (word_of_nat prefix_len)))))
           | None \<Rightarrow> map_option Exact (parse_ip s)))"

definition cidr_contains :: "ip_addr \<Rightarrow> u8 \<Rightarrow> ip_addr \<Rightarrow> bool outcome" where
  "cidr_contains network prefix_len ip =
     (case (network, ip) of
        (V4 net, V4 addr) \<Rightarrow>
          if prefix_len = 0 then Val True
          else bind_outcome (sub_u32 32 (ucast prefix_len))
                 (\<lambda>k. Val (net AND net_mask k = addr AND net_mask k))
      | (V6 net, V6 addr) \<Rightarrow>
          if prefix_len = 0 then Val True
          else bind_outcome (sub_u32 128 (ucast prefix_len))
                 (\<lambda>k. Val (net AND net_mask k = addr AND net_mask k))
      | _ \<Rightarrow> Val False)"

fun matcher_matches :: "ip_matcher \<Rightarrow> ip_addr \<Rightarrow> bool outcome" where
  "matcher_matches All ip = Val True"
| "matcher_matches (Exact addr) ip = Val (addr = ip)"
| "matcher_matches (Cidr network prefix_len) ip = cidr_contains network prefix_len ip"

definition compile_rules :: "access_rule list \<Rightarrow> compiled_access_rule list" where
  "compile_rules rules =
     (let compiled = filter_map (\<lambda>r. case parse_matcher (ar_source r) of
            Some m \<Rightarrow> Some (ar_priority r, \<lparr>car_action = ar_action r, car_matcher = m\<rparr>)
          | None \<Rightarrow> None) rules
      in map snd (sort_key fst compiled))"

fun check_access :: "compiled_access_rule list \<Rightarrow> ip_addr \<Rightarrow> access_action outcome" where
  "check_access [] ip = Val Allow"
| "check_access (rule # rules) ip =
     (case matcher_matches (car_matcher rule) ip of
        Panic \<Rightarrow> Panic
      | Val True \<Rightarrow> Val (car_action rule)
      | Val False \<Rightarrow> check_access rules ip)"

section \<open>The CIDR check\<close>

lemma masked_eq_iff:
  fixes x y :: "'a::len word"
  assumes "unat k < LENGTH('a)"
  shows "(x AND net_mask k = y AND net_mask k) = (unat x div 2 ^ unat k = unat y div 2 ^ unat k)"
proof -
  have m: "(net_mask k :: 'a word) = push_bit (unat k) (- 1)"
    using assms by (simp only: net_mask_def checked_shl_def if_True option.case)
  have "(drop_bit (unat k) x = drop_bit (unat k) y) = (unat x div 2 ^ unat k = unat y div 2 ^ unat k)"
    by (simp only: word_unat_eq_iff unat_drop_bit_eq) (simp only: drop_bit_eq_div)
  then show ?thesis by (simp only: m mask_eq_iff_drop_bit)
qed

lemma unat_ucast_u8: "unat (ucast (p :: u8) :: u32) = unat p"
proof -
  have "unat p < 2 ^ LENGTH(8)" by (rule unsigned_less)
  then show ?thesis by (simp add: unsigned_ucast_eq take_bit_nat_eq_self)
qed

lemma div_pow_large: "x < 2 ^ n \<Longrightarrow> (x :: nat) div 2 ^ n = 0"
  by simp

lemma unat_div_width: "unat (x :: u32) div 4294967296 = 0"
  "unat (y :: u128) div 340282366920938463463374607431768211456 = 0"
proof -
  have "unat x < 2 ^ LENGTH(32)" "unat y < 2 ^ LENGTH(128)" by (rule unsigned_less)+
  then show "unat x div 4294967296 = 0"
    "unat y div 340282366920938463463374607431768211456 = 0" by simp_all
qed

lemma sub_prefix:
  assumes "unat p \<le> w" and "p \<noteq> 0" and "w < 2 ^ 32"
  shows "sub_u32 (word_of_nat w) (ucast p) = Val (word_of_nat (w - unat p))"
    and "unat (word_of_nat (w - unat (p :: u8)) :: u32) = w - unat p"
    and "w - unat p < w"
proof -
  have w: "unat (word_of_nat w :: u32) = w" using assms(3) by (simp add: unat_of_nat)
  have "(ucast p :: u32) \<le> word_of_nat w"
    using assms(1) w by (simp add: word_le_nat_alt unat_ucast_u8)
  moreover have "word_of_nat w - (ucast p :: u32) = word_of_nat (w - unat p)"
    using assms(1) by (simp add: of_nat_diff unat_ucast_u8 flip: unat_ucast_u8) 
  ultimately show "sub_u32 (word_of_nat w) (ucast p) = Val (word_of_nat (w - unat p))"
    by (simp add: sub_u32_def)
  show "unat (word_of_nat (w - unat p) :: u32) = w - unat p"
    using assms(3) by (simp add: unat_of_nat)
  have "0 < unat p" using assms(2) by (simp add: unat_gt_0)
  with assms(1) show "w - unat p < w" by simp
qed

lemma cidr_contains_prefix:
  assumes "unat p \<le> ip_width net"
  shows "cidr_contains net p ip = Val (same_prefix (unat p) net ip)"
proof (cases "p = 0")
  case True
  then show ?thesis
    by (cases net; cases ip) (simp_all add: cidr_contains_def unat_div_width)
next
  case False
  show ?thesis
  proof (cases net; cases ip)
    fix a b assume n: "net = V4 a" "ip = V4 b"
    with assms have p: "unat p \<le> 32" by simp
    note sp = sub_prefix [OF p False]
    have "unat (word_of_nat (32 - unat p) :: u32) < LENGTH(32)" using sp(2,3) by simp
    from masked_eq_iff [OF this, of a b] sp(1,2) n False show ?thesis
      by (simp add: cidr_contains_def)
  next
    fix a b assume n: "net = V6 a" "ip = V6 b"
    with assms have p: "unat p \<le> 128" by simp
    note sp = sub_prefix [OF p False]
    have "unat (word_of_nat (128 - unat p) :: u32) < LENGTH(128)" using sp(2,3) by simp
    from masked_eq_iff [OF this, of a b] sp(1,2) n False show ?thesis
      by (simp add: cidr_contains_def)
  qed (simp_all add: cidr_contains_def)
qed

interpretation access_cidr: cidr_matcher cidr_contains
  by unfold_locales (rule cidr_contains_prefix)

section \<open>Which rule decides\<close>

text \<open>The specification: what a rule of the configuration covers, by prefixes of addresses.\<close>

fun matcher_covers :: "ip_matcher \<Rightarrow> ip_addr \<Rightarrow> bool" where
  "matcher_covers All ip = True"
| "matcher_covers (Exact addr) ip = (addr = ip)"
| "matcher_covers (Cidr network prefix_len) ip = same_prefix (unat prefix_len) network ip"

definition rule_covers :: "access_rule \<Rightarrow> ip_addr \<Rightarrow> bool" where
  "rule_covers r ip =
     (case parse_matcher (ar_source r) of None \<Rightarrow> False | Some m \<Rightarrow> matcher_covers m ip)"

fun matcher_valid :: "ip_matcher \<Rightarrow> bool" where
  "matcher_valid (Cidr network prefix_len) = (unat prefix_len \<le> ip_width network)"
| "matcher_valid _ = True"

lemma parse_matcher_valid: "parse_matcher s = Some m \<Longrightarrow> matcher_valid m"
proof -
  have "unat (word_of_nat n :: u8) \<le> ip_width ip"
    if "n \<le> (if is_ipv4 ip then 32 else 128)" for n ip
    using that by (cases ip) (auto simp: unat_of_nat split: if_splits)
  then show "parse_matcher s = Some m \<Longrightarrow> matcher_valid m"
    by (auto simp: parse_matcher_def Let_def split: if_splits option.splits)
qed

lemma matcher_matches_valid: "matcher_valid m \<Longrightarrow> matcher_matches m ip = Val (matcher_covers m ip)"
  by (cases m) (simp_all add: access_cidr.contains_prefix)

definition compile_rule :: "access_rule \<Rightarrow> compiled_access_rule" where
  "compile_rule r = \<lparr>car_action = ar_action r, car_matcher = the (parse_matcher (ar_source r))\<rparr>"

lemma compile_rules_sorted:
  "compile_rules rules =
     map compile_rule
       (filter (\<lambda>r. parse_matcher (ar_source r) \<noteq> None) (sort_key ar_priority rules))"
proof -
  let ?f = "\<lambda>r. case parse_matcher (ar_source r) of
       Some m \<Rightarrow> Some (ar_priority r, \<lparr>car_action = ar_action r, car_matcher = m\<rparr>) | None \<Rightarrow> None"
  let ?q = "\<lambda>r. parse_matcher (ar_source r) \<noteq> None"
  have f: "filter_map ?f rs = map (\<lambda>r. (ar_priority r, compile_rule r)) (filter ?q rs)" for rs
    by (induction rs) (auto simp: compile_rule_def)
  have "compile_rules rules = map compile_rule (sort_key ar_priority (filter ?q rules))"
    by (simp only: compile_rules_def Let_def f sort_key_map map_map comp_def fst_conv snd_conv)
  then show ?thesis by (simp only: filter_sort)
qed

lemma compile_rules_valid: "r \<in> set (compile_rules rules) \<Longrightarrow> matcher_valid (car_matcher r)"
  by (auto simp: compile_rules_sorted compile_rule_def dest: parse_matcher_valid)

lemma check_access_find:
  assumes "\<forall>r\<in>set crs. matcher_valid (car_matcher r)"
  shows "check_access crs ip =
    (case find (\<lambda>r. matcher_covers (car_matcher r) ip) crs of
       None \<Rightarrow> Val Allow | Some r \<Rightarrow> Val (car_action r))"
  using assms by (induction crs) (auto simp: matcher_matches_valid split: bool.splits)

lemma check_access_compiled:
  "check_access (compile_rules rules) ip =
     (case find (\<lambda>r. rule_covers r ip) (sort_key ar_priority rules) of
        None \<Rightarrow> Val Allow | Some r \<Rightarrow> Val (ar_action r))"
proof -
  let ?p = "\<lambda>r. matcher_covers (car_matcher r) ip"
  have "find ?p (compile_rules rules) =
      map_option compile_rule (find (\<lambda>r. rule_covers r ip) (sort_key ar_priority rules))"
    unfolding compile_rules_sorted find_map find_filter
    by (rule arg_cong [of _ _ "map_option compile_rule"], rule arg_cong2 [of _ _ _ _ find])
       (auto simp: rule_covers_def compile_rule_def split: option.splits)
  then show ?thesis
    using check_access_find [of "compile_rules rules" ip] compile_rules_valid
    by (auto simp: compile_rule_def split: option.splits)
qed

text \<open>
  C3: for any list of configured rules and any address, the access check returns (no CIDR in the
  configuration can make it panic); it answers with the action of the covering rule of least
  priority number, the earliest in the configuration among equals, and with Allow when no rule
  covers the address. Rules whose source does not parse cover nothing.
\<close>

theorem access_check_decides:
  "((\<forall>r\<in>set rules. \<not> rule_covers r ip) \<longrightarrow> check_access (compile_rules rules) ip = Val Allow) \<and>
   (\<forall>i<length rules. rule_covers (rules ! i) ip \<and>
      (\<forall>j<length rules. rule_covers (rules ! j) ip \<longrightarrow>
         ar_priority (rules ! i) < ar_priority (rules ! j) \<or>
         ar_priority (rules ! i) = ar_priority (rules ! j) \<and> i \<le> j) \<longrightarrow>
      check_access (compile_rules rules) ip = Val (ar_action (rules ! i)))"
proof (intro conjI allI impI)
  assume "\<forall>r\<in>set rules. \<not> rule_covers r ip"
  then have "find (\<lambda>r. rule_covers r ip) (sort_key ar_priority rules) = None"
    by (simp add: find_None_all)
  then show "check_access (compile_rules rules) ip = Val Allow"
    by (simp add: check_access_compiled)
next
  fix i assume "i < length rules" and h: "rule_covers (rules ! i) ip \<and>
      (\<forall>j<length rules. rule_covers (rules ! j) ip \<longrightarrow>
         ar_priority (rules ! i) < ar_priority (rules ! j) \<or>
         ar_priority (rules ! i) = ar_priority (rules ! j) \<and> i \<le> j)"
  then have "find (\<lambda>r. rule_covers r ip) (sort_key ar_priority rules) = Some (rules ! i)"
    by (intro find_sort_key_min) auto
  then show "check_access (compile_rules rules) ip = Val (ar_action (rules ! i))"
    by (simp add: check_access_compiled)
qed

definition demo_rules :: "access_rule list" where
  "demo_rules =
     [\<lparr>ar_action = Deny, ar_source = ''all'', ar_priority = 10\<rparr>,
      \<lparr>ar_action = Allow, ar_source = ''10.0.0.0/8'', ar_priority = 0\<rparr>]"

lemma demo_rules_parse:
  "parse_matcher ''all'' = Some All"
  "parse_matcher ''10.0.0.0/8'' = Some (Cidr (V4 0x0A000000) 8)"
  by (simp_all add: parse_matcher_def trim_eval ip_eval parse_eval eq_ignore_case_def
      ascii_lower_def lower_char_def is_ascii_upper_def)

theorem access_check_decides_witness:
  "check_access (compile_rules demo_rules) (V4 0x0A010203) = Val Allow \<and>
   check_access (compile_rules demo_rules) (V4 0x08080808) = Val Deny"
proof -
  have c: "rule_covers (demo_rules ! 0) ip" "rule_covers (demo_rules ! 1) (V4 0x0A010203)"
    "\<not> rule_covers (demo_rules ! 1) (V4 0x08080808)" for ip
    by (simp_all add: demo_rules_def rule_covers_def demo_rules_parse)
  have l: "length demo_rules = 2" "ar_priority (demo_rules ! 1) < ar_priority (demo_rules ! 0)"
    by (simp_all add: demo_rules_def)
  have a: "ar_action (demo_rules ! 1) = Allow" "ar_action (demo_rules ! 0) = Deny"
    by (simp_all add: demo_rules_def)
  have "\<forall>j<length demo_rules. rule_covers (demo_rules ! j) (V4 0x0A010203) \<longrightarrow>
      ar_priority (demo_rules ! 1) < ar_priority (demo_rules ! j) \<or>
      ar_priority (demo_rules ! 1) = ar_priority (demo_rules ! j) \<and> 1 \<le> j"
    using l by (auto simp: less_2_cases_iff)
  moreover have "\<forall>j<length demo_rules. rule_covers (demo_rules ! j) (V4 0x08080808) \<longrightarrow>
      ar_priority (demo_rules ! 0) < ar_priority (demo_rules ! j) \<or>
      ar_priority (demo_rules ! 0) = ar_priority (demo_rules ! j) \<and> 0 \<le> j"
    using l c by (auto simp: less_2_cases_iff)
  moreover have "check_access (compile_rules demo_rules) (V4 0x0A010203) = Val Allow"
    if "\<forall>j<length demo_rules. rule_covers (demo_rules ! j) (V4 0x0A010203) \<longrightarrow>
      ar_priority (demo_rules ! 1) < ar_priority (demo_rules ! j) \<or>
      ar_priority (demo_rules ! 1) = ar_priority (demo_rules ! j) \<and> 1 \<le> j"
    using conjunct2 [OF access_check_decides, rule_format, of 1 demo_rules "V4 0x0A010203"]
      that c(2) l(1) a(1) by simp
  moreover have "check_access (compile_rules demo_rules) (V4 0x08080808) = Val Deny"
    if "\<forall>j<length demo_rules. rule_covers (demo_rules ! j) (V4 0x08080808) \<longrightarrow>
      ar_priority (demo_rules ! 0) < ar_priority (demo_rules ! j) \<or>
      ar_priority (demo_rules ! 0) = ar_priority (demo_rules ! j) \<and> 0 \<le> j"
    using conjunct2 [OF access_check_decides, rule_format, of 0 demo_rules "V4 0x08080808"]
      that c(1) l(1) a(2) by simp
  ultimately show ?thesis by blast
qed

end
