(* ===== verification/Real_Ip.thy ===== *)
theory Real_Ip
  imports Access_Control
begin

text \<open>
  The real-IP middleware (\<^verbatim>\<open>src/middleware/real_ip.rs\<close>): behind trusted proxies the client's
  address is taken from a request header. The trusted blocks are parsed once; a request is
  rewritten only when the connecting address lies in one of them.
\<close>

section \<open>Data\<close>

record real_ip_config =
  set_real_ip_from :: "string list"
  real_ip_header :: string
  ric_recursive :: bool

definition default_real_ip_header :: string where
  "default_real_ip_header = ''X-Forwarded-For''"

record cidr_entry =
  ce_network :: ip_addr
  ce_prefix_len :: u8

record compiled_real_ip =
  cri_trusted :: "cidr_entry list"
  cri_header :: string
  cri_recursive :: bool

section \<open>Operations\<close>

definition parse_cidr_entry :: "string \<Rightarrow> cidr_entry option" where
  "parse_cidr_entry s0 =
     (let s = trim s0
      in (case find_idx CHR ''/'' s of
            Some pos \<Rightarrow>
              (case parse_ip (take pos s) of
                 None \<Rightarrow> None
               | Some ip \<Rightarrow>
                   (case parse_u8 (drop (pos + 1) s) of
                      None \<Rightarrow> None
                    | Some n \<Rightarrow> Some \<lparr>ce_network = ip, ce_prefix_len = word_of_nat n\<rparr>))
          | None \<Rightarrow>
              (case parse_ip s of
                 None \<Rightarrow> None
               | Some ip \<Rightarrow>
                   Some \<lparr>ce_network = ip, ce_prefix_len = (if is_ipv4 ip then 32 else 128)\<rparr>)))"

definition entry_contains :: "ip_addr \<Rightarrow> u8 \<Rightarrow> ip_addr \<Rightarrow> bool outcome" where
  "entry_contains network prefix_len ip =
     (case (network, ip) of
        (V4 net, V4 addr) \<Rightarrow>
          if prefix_len = 0 then Val True
          else bind_outcome (sub_u32 32 (ucast prefix_len))
                 (\<lambda>k. Val (net AND net_mask k = addr AND net_mask k))
      | (V6 net, V6 addr) \<Rightarrow>
          if prefix_len = 0 then Val True
          else bind_outcome (sub_u32 128 (ucast prefix_len))
                 (\<lambda>k. Val (net AND net_mask k = addr AND net_mask k))
      | _ \<Rightarrow> Val False)"

definition compile_real_ip :: "real_ip_config \<Rightarrow> compiled_real_ip option" where
  "compile_real_ip cfg =
     (if set_real_ip_from cfg = [] then None
      else
        (let trusted = filter_map parse_cidr_entry (set_real_ip_from cfg)
         in if trusted = [] then None
            else Some \<lparr>cri_trusted = trusted, cri_header = real_ip_header cfg,
                       cri_recursive = ric_recursive cfg\<rparr>))"

definition header_name :: "compiled_real_ip \<Rightarrow> string" where
  "header_name c = cri_header c"

definition is_trusted :: "compiled_real_ip \<Rightarrow> ip_addr \<Rightarrow> bool outcome" where
  "is_trusted c ip =
     any_outcome (\<lambda>e. entry_contains (ce_network e) (ce_prefix_len e) ip) (cri_trusted c)"

text \<open>The loop of the recursive mode over the parts of the header, from right to left.\<close>

fun first_untrusted :: "compiled_real_ip \<Rightarrow> string list \<Rightarrow> ip_addr option outcome" where
  "first_untrusted c [] = Val None"
| "first_untrusted c (part # parts) =
     (case parse_ip (trim part) of
        None \<Rightarrow> first_untrusted c parts
      | Some ip \<Rightarrow>
          (case is_trusted c ip of
             Panic \<Rightarrow> Panic
           | Val True \<Rightarrow> first_untrusted c parts
           | Val False \<Rightarrow> Val (Some ip)))"

definition extract_real_ip ::
  "compiled_real_ip \<Rightarrow> ip_addr \<Rightarrow> string option \<Rightarrow> ip_addr option outcome" where
  "extract_real_ip c conn_ip header_value =
     bind_outcome (is_trusted c conn_ip) (\<lambda>trusted.
       if \<not> trusted then Val None
       else (case header_value of
           None \<Rightarrow> Val None
         | Some header_val \<Rightarrow>
             if eq_ignore_case (cri_header c) ''X-Forwarded-For'' then
               (if cri_recursive c then
                  bind_outcome (first_untrusted c (rev (split_on CHR '','' header_val)))
                    (\<lambda>found. case found of
                       Some ip \<Rightarrow> Val (Some ip)
                     | None \<Rightarrow> Val (parse_ip (trim (hd (split_on CHR '','' header_val)))))
                else Val (parse_ip (trim (last (split_on CHR '','' header_val)))))
             else Val (parse_ip (trim header_val))))"

section \<open>Lemmas\<close>

lemma entry_contains_eq: "entry_contains = cidr_contains"
  by (intro ext) (simp add: entry_contains_def cidr_contains_def)

interpretation entry_cidr: cidr_matcher entry_contains
  unfolding entry_contains_eq by (rule access_cidr.cidr_matcher_axioms)

definition entry_valid :: "cidr_entry \<Rightarrow> bool" where
  "entry_valid e = (unat (ce_prefix_len e) \<le> ip_width (ce_network e))"

definition trusts :: "compiled_real_ip \<Rightarrow> ip_addr \<Rightarrow> bool" where
  "trusts c ip =
     list_ex (\<lambda>e. same_prefix (unat (ce_prefix_len e)) (ce_network e) ip) (cri_trusted c)"

lemma is_trusted_valid:
  "list_all entry_valid (cri_trusted c) \<Longrightarrow> is_trusted c ip = Val (trusts c ip)"
  unfolding is_trusted_def trusts_def list_ex_iff
  by (rule any_outcome_Val) (auto simp: list_all_iff entry_valid_def entry_cidr.contains_prefix)

lemma split_on_last:
  "c \<notin> set b \<Longrightarrow> split_on c (a @ c # b) = split_on c a @ [b]"
proof -
  have "split_by p (a @ x # b) = split_by p a @ split_by p b" if "p x" for p x
    using that by (induction a) (auto split: list.splits)
  then show "c \<notin> set b \<Longrightarrow> split_on c (a @ c # b) = split_on c a @ [b]"
    using split_on_none [of c b] by (simp add: split_on_def)
qed

lemma first_untrusted_hd:
  assumes "list_all entry_valid (cri_trusted c)" and "parse_ip (trim p) = Some ip"
    and "\<not> trusts c ip"
  shows "first_untrusted c (p # ps) = Val (Some ip)"
  using assms by (simp add: is_trusted_valid)

lemma first_untrusted_skip:
  assumes "list_all entry_valid (cri_trusted c)"
    and "\<forall>p\<in>set ps. \<exists>ip. parse_ip (trim p) = Some ip \<and> trusts c ip"
  shows "first_untrusted c (ps @ qs) = first_untrusted c qs"
  using assms by (induction ps) (auto simp: is_trusted_valid)

lemma join_snoc: "xs \<noteq> [] \<Longrightarrow> join sep (xs @ [y]) = join sep xs @ sep @ y"
  by (induction sep xs rule: join.induct) auto

lemma split_on_join:
  assumes "\<forall>x\<in>set xs. c \<notin> set x"
  shows "split_on c (a @ c # join [c] xs) = split_on c a @ (if xs = [] then [[]] else xs)"
  using assms
proof (induction xs rule: rev_induct)
  case Nil
  then show ?case by (simp add: split_on_last)
next
  case (snoc x xs)
  show ?case
  proof (cases "xs = []")
    case True
    with snoc.prems show ?thesis by (simp add: split_on_last)
  next
    case False
    have "a @ c # join [c] (xs @ [x]) = (a @ c # join [c] xs) @ c # x"
      using False by (simp add: join_snoc)
    moreover have "split_on c ((a @ c # join [c] xs) @ c # x) = split_on c (a @ c # join [c] xs) @ [x]"
      using snoc.prems by (intro split_on_last) auto
    ultimately show ?thesis using snoc False by simp
  qed
qed

section \<open>Properties\<close>

text \<open>
  C4: an address the client writes into X-Forwarded-For cannot become the real IP. When the
  connection comes from a trusted proxy and the rightmost part of the header that is not a
  trusted proxy's address is an address \<open>ip\<close> (the parts right of it are trusted), the recursive
  mode returns \<open>ip\<close>, whatever text precedes it in the header.
\<close>

theorem real_ip_recursive_not_spoofable:
  assumes valid: "list_all entry_valid (cri_trusted c)"
    and mode: "eq_ignore_case (cri_header c) ''X-Forwarded-For''" "cri_recursive c"
    and conn: "trusts c conn_ip"
    and client: "parse_ip (trim part) = Some ip" "\<not> trusts c ip"
    and proxies: "\<forall>p\<in>set ps. \<exists>q. parse_ip (trim p) = Some q \<and> trusts c q"
    and commas: "\<forall>p\<in>set (part # ps). CHR '','' \<notin> set p"
  shows "extract_real_ip c conn_ip (Some (junk @ CHR '','' # join '','' (part # ps)))
           = Val (Some ip)"
proof -
  let ?h = "junk @ CHR '','' # join '','' (part # ps)"
  have "split_on CHR '','' ?h = split_on CHR '','' junk @ part # ps"
    using split_on_join [OF commas, of junk] by simp
  then have "rev (split_on CHR '','' ?h) = rev ps @ part # rev (split_on CHR '','' junk)"
    by simp
  moreover have "first_untrusted c (rev ps @ part # rev (split_on CHR '','' junk))
      = first_untrusted c (part # rev (split_on CHR '','' junk))"
    using proxies by (intro first_untrusted_skip valid) auto
  ultimately have "first_untrusted c (rev (split_on CHR '','' ?h)) = Val (Some ip)"
    using first_untrusted_hd [OF valid client] by (simp only:)
  then show ?thesis
    using mode conn by (simp only: extract_real_ip_def is_trusted_valid [OF valid]
        bind_outcome.simps option.case if_True not_True_eq_False if_False)
qed

definition demo_real_ip :: compiled_real_ip where
  "demo_real_ip = \<lparr>cri_trusted = [\<lparr>ce_network = V4 0x0A000000, ce_prefix_len = 8\<rparr>],
     cri_header = ''X-Forwarded-For'', cri_recursive = True\<rparr>"

lemma demo_parts:
  "parse_ip (trim ''1.2.3.4'') = Some (V4 0x01020304)"
  "parse_ip (trim '' 10.0.0.2'') = Some (V4 0x0A000002)"
  by (simp_all add: trim_eval ip_eval)

theorem real_ip_recursive_not_spoofable_witness:
  "extract_real_ip demo_real_ip (V4 0x0A000001) (Some ''6.6.6.6,1.2.3.4, 10.0.0.2'')
     = Val (Some (V4 0x01020304))"
proof -
  have "extract_real_ip demo_real_ip (V4 0x0A000001)
      (Some (''6.6.6.6'' @ CHR '','' # join '','' (''1.2.3.4'' # ['' 10.0.0.2''])))
      = Val (Some (V4 0x01020304))"
    by (rule real_ip_recursive_not_spoofable)
      (simp_all add: demo_real_ip_def entry_valid_def trusts_def demo_parts)
  then show ?thesis by simp
qed

text \<open>
  A connection from an address outside every trusted block is never rewritten, whatever the
  header says; and if every block was given with a legal prefix length the extraction never
  panics.
\<close>

theorem real_ip_untrusted_unchanged:
  assumes "list_all entry_valid (cri_trusted c)"
  shows "(\<not> trusts c conn_ip \<longrightarrow> extract_real_ip c conn_ip hv = Val None) \<and>
         \<not> panics (extract_real_ip c conn_ip hv)"
proof -
  have "\<not> panics (first_untrusted c ps)" for ps
    using assms by (induction ps) (auto simp: is_trusted_valid split: option.splits bool.splits)
  then have "\<not> panics (bind_outcome (first_untrusted c ps)
      (\<lambda>found. case found of Some ip \<Rightarrow> Val (Some ip) | None \<Rightarrow> Val x))" for ps x
    by (metis (no_types, lifting) bind_outcome.simps(1) not_panics_iff option.case_eq_if)
  then show ?thesis
    using assms by (auto simp: extract_real_ip_def is_trusted_valid split: option.splits)
qed

theorem real_ip_untrusted_unchanged_witness:
  "extract_real_ip demo_real_ip (V4 0x08080808) (Some ''1.2.3.4'') = Val None"
  using real_ip_untrusted_unchanged [of demo_real_ip "V4 0x08080808" "Some ''1.2.3.4''"]
  by (simp add: demo_real_ip_def entry_valid_def trusts_def)

text \<open>
  The hypothesis of the two properties above is not established by the code. Unlike the
  access control, the real-IP middleware does not check the prefix length: a configuration with
  the block 10.0.0.0/33 compiles, and the first request from any IPv4 address panics, which
  ends the process.
\<close>

theorem real_ip_bad_prefix_panics:
  "\<exists>c. compile_real_ip \<lparr>set_real_ip_from = [''10.0.0.0/33''],
          real_ip_header = ''X-Forwarded-For'', ric_recursive = False\<rparr> = Some c \<and>
       (\<forall>a hv. extract_real_ip c (V4 a) hv = Panic)"
proof -
  let ?cfg = "\<lparr>set_real_ip_from = [''10.0.0.0/33''],
          real_ip_header = ''X-Forwarded-For'', ric_recursive = False\<rparr>"
  let ?e = "\<lparr>ce_network = V4 0x0A000000, ce_prefix_len = 33\<rparr>"
  let ?c = "\<lparr>cri_trusted = [?e], cri_header = ''X-Forwarded-For'', cri_recursive = False\<rparr>"
  have "parse_cidr_entry ''10.0.0.0/33'' = Some ?e"
    by (simp add: parse_cidr_entry_def trim_eval ip_eval parse_eval)
  then have "compile_real_ip ?cfg = Some ?c" by (simp add: compile_real_ip_def)
  moreover have "is_trusted ?c (V4 a) = Panic" for a
    by (simp add: is_trusted_def entry_contains_def sub_u32_def)
  then have "extract_real_ip ?c (V4 a) hv = Panic" for a hv
    by (simp add: extract_real_ip_def)
  ultimately show ?thesis by blast
qed

end
