(* ===== verification/Config.thy ===== *)
theory Config
  imports Access_Control Real_Ip
begin

text \<open>
  The configuration data of the server (\<^verbatim>\<open>src/config/model\<close>), one record per struct and one
  datatype per enum, with the defaults of the sources: \<open>default_x\<close> is \<^verbatim>\<open>Default::default()\<close>, and
  \<open>serde_x\<close> is what deserialising a table with only the required fields gives (the
  \<^verbatim>\<open>#[serde(default = ...)]\<close> values), which is not always the same. Paths are strings.
\<close>

section \<open>Compression (\<^verbatim>\<open>config/model/compress.rs\<close>)\<close>

record compress_config =
  cc_gzip :: bool
  cc_gzip_level :: u32
  cc_brotli :: bool
  cc_brotli_level :: u32
  cc_zstd :: bool
  cc_zstd_level :: u32
  cc_min_length :: nat

definition default_compress_config :: compress_config where
  "default_compress_config =
     \<lparr>cc_gzip = True, cc_gzip_level = 6, cc_brotli = True, cc_brotli_level = 4,
      cc_zstd = True, cc_zstd_level = 3, cc_min_length = 1\<rparr>"

definition serde_compress_config :: compress_config where
  "serde_compress_config =
     \<lparr>cc_gzip = False, cc_gzip_level = 6, cc_brotli = False, cc_brotli_level = 4,
      cc_zstd = False, cc_zstd_level = 3, cc_min_length = 1\<rparr>"

record site_compress_config =
  sc_gzip :: "bool option"
  sc_gzip_level :: "u32 option"
  sc_brotli :: "bool option"
  sc_brotli_level :: "u32 option"
  sc_zstd :: "bool option"
  sc_zstd_level :: "u32 option"
  sc_min_length :: "nat option"

definition default_site_compress_config :: site_compress_config where
  "default_site_compress_config =
     \<lparr>sc_gzip = None, sc_gzip_level = None, sc_brotli = None, sc_brotli_level = None,
      sc_zstd = None, sc_zstd_level = None, sc_min_length = None\<rparr>"

definition unwrap_or :: "'a option \<Rightarrow> 'a \<Rightarrow> 'a" where
  "unwrap_or m d = (case m of Some x \<Rightarrow> x | None \<Rightarrow> d)"

definition compress_resolve :: "site_compress_config \<Rightarrow> compress_config \<Rightarrow> compress_config" where
  "compress_resolve s global =
     \<lparr>cc_gzip = unwrap_or (sc_gzip s) (cc_gzip global),
      cc_gzip_level = unwrap_or (sc_gzip_level s) (cc_gzip_level global),
      cc_brotli = unwrap_or (sc_brotli s) (cc_brotli global),
      cc_brotli_level = unwrap_or (sc_brotli_level s) (cc_brotli_level global),
      cc_zstd = unwrap_or (sc_zstd s) (cc_zstd global),
      cc_zstd_level = unwrap_or (sc_zstd_level s) (cc_zstd_level global),
      cc_min_length = unwrap_or (sc_min_length s) (cc_min_length global)\<rparr>"

section \<open>Global options (\<^verbatim>\<open>config/model/global.rs\<close>)\<close>

record global_config =
  worker_threads :: nat
  worker_connections :: nat
  gc_max_connections :: nat
  keepalive_timeout :: u64
  fastcgi_connect_timeout :: u64
  fastcgi_read_timeout :: u64
  client_max_body_size :: nat
  client_header_buffer_size :: nat
  client_body_buffer_size :: nat
  gc_gzip :: bool
  gzip_min_length :: nat
  gc_gzip_comp_level :: u32
  gc_compress :: compress_config
  admin_listen :: string
  admin_token :: string
  gc_error_log :: "string option"
  prometheus_enabled :: bool
  prometheus_path :: string
  log_level :: string
  open_file_cache_max :: nat
  open_file_cache_inactive :: u64
  open_file_cache_total_mb :: nat
  h2_max_concurrent_streams :: u32
  h2_max_pending_per_conn :: nat
  h2_max_concurrent_reset_streams :: nat
  h2_max_frame_size :: u32
  h2_max_requests_per_conn :: nat

definition default_global_config :: global_config where
  "default_global_config =
     \<lparr>worker_threads = 0, worker_connections = 51200, gc_max_connections = 0,
      keepalive_timeout = 60, fastcgi_connect_timeout = 5, fastcgi_read_timeout = 60,
      client_max_body_size = 50, client_header_buffer_size = 32, client_body_buffer_size = 512,
      gc_gzip = False, gzip_min_length = 1, gc_gzip_comp_level = 5,
      gc_compress = default_compress_config,
      admin_listen = '''', admin_token = '''', gc_error_log = None,
      prometheus_enabled = True, prometheus_path = ''/metrics'', log_level = ''info'',
      open_file_cache_max = 200000, open_file_cache_inactive = 60,
      open_file_cache_total_mb = 512, h2_max_concurrent_streams = 128,
      h2_max_pending_per_conn = 0, h2_max_concurrent_reset_streams = 200,
      h2_max_frame_size = 65535, h2_max_requests_per_conn = 1000\<rparr>"

section \<open>TLS (\<^verbatim>\<open>config/model/tls.rs\<close>)\<close>

record http3_config =
  max_handlers :: nat
  max_concurrent_bidi_streams :: u32
  max_concurrent_uni_streams :: u32
  idle_timeout_ms :: u64
  keep_alive_interval_ms :: u64
  receive_window :: u64
  stream_receive_window :: u64
  send_window :: u64
  enable_0rtt :: bool
  mtu_discovery :: bool
  initial_rtt_ms :: u64
  max_ack_delay_ms :: u64

definition default_http3_config :: http3_config where
  "default_http3_config =
     \<lparr>max_handlers = 0, max_concurrent_bidi_streams = 200, max_concurrent_uni_streams = 100,
      idle_timeout_ms = 30000, keep_alive_interval_ms = 10000,
      receive_window = 8 * 1024 * 1024, stream_receive_window = 2 * 1024 * 1024,
      send_window = 8 * 1024 * 1024, enable_0rtt = False, mtu_discovery = True,
      initial_rtt_ms = 333, max_ack_delay_ms = 25\<rparr>"

datatype dns_provider_config =
    Cloudflare (api_token: string) (zone_id: "string option")
  | Aliyun (access_key_id: string) (access_key_secret: string)
  | Shell (set_script: string) (del_script: "string option")

record cert_key_pair =
  ckp_cert :: string
  ckp_key :: string

record tls_config =
  acme :: bool
  tls_acme_email :: "string option"
  tls_cert :: "string option"
  tls_key :: "string option"
  certs :: "cert_key_pair list"
  min_version :: string
  max_version :: string
  acme_renew_days_before :: u64
  acme_provider :: string
  acme_challenge :: string
  dns_provider :: "dns_provider_config option"
  protocols :: "string list"
  http3 :: http3_config

text \<open>The derived \<^verbatim>\<open>Default\<close> uses the default of each field's type, not the serde values.\<close>

definition default_tls_config :: tls_config where
  "default_tls_config =
     \<lparr>acme = False, tls_acme_email = None, tls_cert = None, tls_key = None, certs = [],
      min_version = '''', max_version = '''', acme_renew_days_before = 0,
      acme_provider = '''', acme_challenge = '''', dns_provider = None, protocols = [],
      http3 = default_http3_config\<rparr>"

definition serde_tls_config :: tls_config where
  "serde_tls_config =
     \<lparr>acme = False, tls_acme_email = None, tls_cert = None, tls_key = None, certs = [],
      min_version = ''tls1.2'', max_version = ''tls1.3'', acme_renew_days_before = 30,
      acme_provider = ''letsencrypt'', acme_challenge = ''http01'', dns_provider = None,
      protocols = [''h3'', ''h2'', ''http/1.1''], http3 = default_http3_config\<rparr>"

text \<open>\<^verbatim>\<open>server/acme.rs\<close>: the directory URL of a provider name; any other name is the URL.\<close>

definition resolve_directory_url :: "string \<Rightarrow> string" where
  "resolve_directory_url p =
     (if p = ''letsencrypt'' then ''https://acme-v02.api.letsencrypt.org/directory''
      else if p = ''letsencrypt_staging''
        then ''https://acme-staging-v02.api.letsencrypt.org/directory''
      else if p = ''zerossl'' then ''https://acme.zerossl.com/v2/DV90''
      else if p = ''litessl'' then ''https://acme.litessl.com/acme/v2/directory''
      else p)"

section \<open>Upstreams and FastCGI (\<^verbatim>\<open>config/model/upstream.rs\<close>)\<close>

datatype next_upstream_condition =
  Error | Timeout | Http502 | Http503 | Http504 | Http429 | NonIdempotent | InvalidHeader | Off

datatype load_balance_strategy = RoundRobin | Weighted | LeastConn | IpHash

datatype upstream_addr = Tcp string | Unix string

definition parse_upstream_addr :: "string \<Rightarrow> upstream_addr" where
  "parse_upstream_addr addr =
     (case strip_prefix addr ''unix:'' of Some path \<Rightarrow> Unix path | None \<Rightarrow> Tcp addr)"

fun is_unix :: "upstream_addr \<Rightarrow> bool" where
  "is_unix (Unix _) = True"
| "is_unix (Tcp _) = False"

fun addr_str :: "upstream_addr \<Rightarrow> string" where
  "addr_str (Tcp s) = s"
| "addr_str (Unix s) = s"

record circuit_breaker_config =
  cbc_max_failures :: u32
  cbc_window_secs :: u64
  cbc_fail_timeout :: u64

definition serde_circuit_breaker_config :: circuit_breaker_config where
  "serde_circuit_breaker_config =
     \<lparr>cbc_max_failures = 5, cbc_window_secs = 60, cbc_fail_timeout = 30\<rparr>"

record upstream_node =
  un_addr :: upstream_addr
  un_weight :: u32
  un_tls :: bool
  un_tls_sni :: "string option"
  un_tls_insecure :: bool
  un_upstream_host :: "string option"
  un_http2 :: bool
  un_send_proxy_protocol :: u8

definition serde_upstream_node :: "upstream_addr \<Rightarrow> upstream_node" where
  "serde_upstream_node addr =
     \<lparr>un_addr = addr, un_weight = 1, un_tls = False, un_tls_sni = None,
      un_tls_insecure = False, un_upstream_host = None, un_http2 = False,
      un_send_proxy_protocol = 0\<rparr>"

record health_check_config =
  hc_enabled :: bool
  hc_interval :: u64
  hc_timeout :: u64
  hc_path :: string

definition serde_health_check_config :: health_check_config where
  "serde_health_check_config =
     \<lparr>hc_enabled = True, hc_interval = 10, hc_timeout = 3, hc_path = ''/health''\<rparr>"

record upstream_config =
  uc_name :: string
  uc_strategy :: load_balance_strategy
  uc_health_check :: "health_check_config option"
  uc_nodes :: "upstream_node list"
  uc_keepalive :: nat
  uc_keepalive_requests :: u64
  uc_keepalive_time :: u64
  uc_connect_timeout :: u64
  uc_read_timeout :: u64
  uc_write_timeout :: u64
  uc_retry :: u32
  uc_retry_timeout :: u64
  uc_proxy_next_upstream :: "next_upstream_condition list"
  uc_circuit_breaker :: "circuit_breaker_config option"

definition serde_upstream_config :: "string \<Rightarrow> upstream_node list \<Rightarrow> upstream_config" where
  "serde_upstream_config name nodes =
     \<lparr>uc_name = name, uc_strategy = RoundRobin, uc_health_check = None, uc_nodes = nodes,
      uc_keepalive = 0, uc_keepalive_requests = 0, uc_keepalive_time = 0,
      uc_connect_timeout = 10, uc_read_timeout = 60, uc_write_timeout = 60,
      uc_retry = 0, uc_retry_timeout = 0, uc_proxy_next_upstream = [],
      uc_circuit_breaker = None\<rparr>"

record fastcgi_cache_config =
  fcc_path :: "string option"
  fcc_max_entries :: nat
  fcc_ttl :: u64
  fcc_cacheable_statuses :: "u16 list"
  fcc_cacheable_methods :: "string list"
  fcc_bypass_headers :: "string list"
  fcc_ignore_headers :: "string list"

definition serde_fastcgi_cache_config :: fastcgi_cache_config where
  "serde_fastcgi_cache_config =
     \<lparr>fcc_path = None, fcc_max_entries = 1000, fcc_ttl = 60,
      fcc_cacheable_statuses = [200, 301, 302], fcc_cacheable_methods = [''GET'', ''HEAD''],
      fcc_bypass_headers = [], fcc_ignore_headers = []\<rparr>"

record fastcgi_config =
  fc_socket :: "string option"
  fc_host :: "string option"
  fc_port :: "u16 option"
  fc_pool_size :: nat
  fc_connect_timeout :: u64
  fc_read_timeout :: u64
  fc_cache :: "fastcgi_cache_config option"

definition default_fastcgi_config :: fastcgi_config where
  "default_fastcgi_config =
     \<lparr>fc_socket = None, fc_host = None, fc_port = None, fc_pool_size = 32,
      fc_connect_timeout = 5, fc_read_timeout = 30, fc_cache = None\<rparr>"

definition fastcgi_from_addr :: "string \<Rightarrow> fastcgi_config" where
  "fastcgi_from_addr addr =
     (if starts_with addr ''/'' then default_fastcgi_config\<lparr>fc_socket := Some addr\<rparr>
      else
        (let (host, port) =
           (case rfind_idx CHR '':'' addr of
              Some pos \<Rightarrow> (take pos addr, unwrap_or (parse_u16 (drop (pos + 1) addr)) 9000)
            | None \<Rightarrow> (addr, 9000))
         in default_fastcgi_config\<lparr>fc_host := Some host, fc_port := Some (word_of_nat port)\<rparr>))"

section \<open>Locations, rewrites and rate limits (\<^verbatim>\<open>config/model/location.rs\<close>)\<close>

datatype handler_type =
  Static | Fastcgi | Websocket | ReverseProxy | Grpc | Plugin (plugin_name: string)

record header_override =
  ho_name :: string
  ho_value :: string

record cache_rule =
  cr_pattern :: string
  cr_cache_control :: string

record sub_filter =
  sf_pattern :: string
  sf_replacement :: string

record location_config =
  loc_path :: string
  loc_handler :: handler_type
  loc_root :: "string option"
  loc_upstream :: "string option"
  loc_cache_control :: "string option"
  loc_return_code :: "u16 option"
  loc_max_connections :: "nat option"
  loc_strip_cookie_secure :: bool
  loc_proxy_cookie_domain :: "string option"
  loc_proxy_redirect_from :: "string option"
  loc_proxy_redirect_to :: "string option"
  loc_proxy_set_headers :: "header_override list"
  loc_add_headers :: "header_override list"
  loc_proxy_hide_headers :: "string list"
  loc_access_rules :: "access_rule list"
  loc_cache_rules :: "cache_rule list"
  loc_return_url :: "string option"
  loc_return_body :: "string option"
  loc_return_content_type :: "string option"
  loc_limit_conn :: nat
  loc_proxy_buffering :: bool
  loc_try_files :: "string list"
  loc_sub_filter :: "sub_filter list"
  loc_auth_request :: "string option"
  loc_auth_failure_status :: u16
  loc_auth_request_headers :: "header_override list"

definition default_location_config :: location_config where
  "default_location_config =
     \<lparr>loc_path = '''', loc_handler = Static, loc_root = None, loc_upstream = None,
      loc_cache_control = None, loc_return_code = None, loc_max_connections = None,
      loc_strip_cookie_secure = False, loc_proxy_cookie_domain = None,
      loc_proxy_redirect_from = None, loc_proxy_redirect_to = None,
      loc_proxy_set_headers = [], loc_add_headers = [], loc_proxy_hide_headers = [],
      loc_access_rules = [], loc_cache_rules = [], loc_return_url = None,
      loc_return_body = None, loc_return_content_type = None, loc_limit_conn = 0,
      loc_proxy_buffering = False, loc_try_files = [], loc_sub_filter = [],
      loc_auth_request = None, loc_auth_failure_status = 401, loc_auth_request_headers = []\<rparr>"

record proxy_cache_config =
  pcc_path :: "string option"
  pcc_max_entries :: nat
  pcc_ttl :: u64
  pcc_cacheable_statuses :: "u16 list"
  pcc_cacheable_methods :: "string list"
  pcc_bypass_headers :: "string list"
  pcc_ignore_headers :: "string list"

definition serde_proxy_cache_config :: proxy_cache_config where
  "serde_proxy_cache_config =
     \<lparr>pcc_path = None, pcc_max_entries = 1000, pcc_ttl = 60,
      pcc_cacheable_statuses = [200, 301, 302], pcc_cacheable_methods = [''GET'', ''HEAD''],
      pcc_bypass_headers = [''Authorization'', ''Cookie''], pcc_ignore_headers = []\<rparr>"

text \<open>\<^verbatim>\<open>deserialize_plugin_handler\<close> and the renamed variants of \<^verbatim>\<open>HandlerType\<close>.\<close>

definition deserialize_plugin_handler :: "string \<Rightarrow> string option" where
  "deserialize_plugin_handler s = strip_prefix s ''plugin:''"

definition parse_handler_type :: "string \<Rightarrow> handler_type option" where
  "parse_handler_type s =
     (if s = ''static'' then Some Static
      else if s = ''fastcgi'' then Some Fastcgi
      else if s = ''websocket'' then Some Websocket
      else if s = ''reverse_proxy'' then Some ReverseProxy
      else if s = ''grpc'' then Some Grpc
      else map_option Plugin (deserialize_plugin_handler s))"

datatype rewrite_flag = Last | Break | Redirect | Permanent

record rewrite_rule =
  rw_pattern :: string
  rw_target :: string
  rw_flag :: rewrite_flag
  rw_condition :: "string option"

definition serde_rewrite_rule :: "string \<Rightarrow> string \<Rightarrow> rewrite_rule" where
  "serde_rewrite_rule pattern target =
     \<lparr>rw_pattern = pattern, rw_target = target, rw_flag = Last, rw_condition = None\<rparr>"

datatype rate_limit_dimension = Ip | Path | Header | UserAgent | IpPath

record rate_limit_rule =
  rl_dimension :: rate_limit_dimension
  rl_rate :: u64
  rl_burst :: u64
  rl_nodelay :: bool
  rl_path_pattern :: "string option"
  rl_header_name :: "string option"

record rate_limit_config =
  rlc_rules :: "rate_limit_rule list"

definition default_rate_limit_config :: rate_limit_config where
  "default_rate_limit_config = \<lparr>rlc_rules = []\<rparr>"

definition serde_rate_limit_rule :: "rate_limit_dimension \<Rightarrow> u64 \<Rightarrow> rate_limit_rule" where
  "serde_rate_limit_rule dimension rate =
     \<lparr>rl_dimension = dimension, rl_rate = rate, rl_burst = 0, rl_nodelay = True,
      rl_path_pattern = None, rl_header_name = None\<rparr>"

section \<open>Sites (\<^verbatim>\<open>config/model/site.rs\<close>, \<^verbatim>\<open>config/model.rs\<close>)\<close>

record hsts_config =
  hsts_max_age :: u64
  hsts_include_sub_domains :: bool
  hsts_preload :: bool

definition default_hsts_config :: hsts_config where
  "default_hsts_config =
     \<lparr>hsts_max_age = 31536000, hsts_include_sub_domains = False, hsts_preload = False\<rparr>"

datatype site_preset = WordPress | Laravel | StaticSite

record site_config =
  site_name :: string
  server_name :: "string list"
  listen :: "u16 list"
  listen_tls :: "u16 list"
  site_root :: "string option"
  site_index :: "string list"
  access_log :: "string option"
  access_log_format :: "string option"
  site_error_log :: "string option"
  site_tls :: "tls_config option"
  site_fastcgi :: "fastcgi_config option"
  upstreams :: "upstream_config list"
  locations :: "location_config list"
  site_rewrites :: "rewrite_rule list"
  rate_limit :: "rate_limit_config option"
  hsts :: "hsts_config option"
  fallback :: bool
  site_gzip :: "bool option"
  site_gzip_comp_level :: "u32 option"
  site_compress :: site_compress_config
  websocket :: bool
  force_https :: bool
  site_real_ip :: "real_ip_config option"
  proxy_protocol :: bool
  error_pages :: "(u16 \<times> string) list"
  site_proxy_cache :: "proxy_cache_config option"
  preset :: "site_preset option"
  php_fastcgi :: "string option"
  acme_email :: "string option"

definition serde_site_config :: "string \<Rightarrow> string list \<Rightarrow> site_config" where
  "serde_site_config name names =
     \<lparr>site_name = name, server_name = names, listen = [80], listen_tls = [],
      site_root = None, site_index = [''index.html'', ''index.htm''],
      access_log = None, access_log_format = None, site_error_log = None,
      site_tls = None, site_fastcgi = None, upstreams = [], locations = [], site_rewrites = [],
      rate_limit = None, hsts = Some default_hsts_config, fallback = False,
      site_gzip = None, site_gzip_comp_level = None,
      site_compress = default_site_compress_config, websocket = True, force_https = True,
      site_real_ip = None, proxy_protocol = False, error_pages = [], site_proxy_cache = None,
      preset = None, php_fastcgi = None, acme_email = None\<rparr>"

text \<open>\<^verbatim>\<open>deserialize_u16_map\<close>: the keys of the error page table are status codes.\<close>

fun deserialize_u16_map :: "(string \<times> string) list \<Rightarrow> (u16 \<times> string) list option" where
  "deserialize_u16_map [] = Some []"
| "deserialize_u16_map ((k, v) # kvs) =
     (case parse_u16 k of
        None \<Rightarrow> None
      | Some n \<Rightarrow> map_option (\<lambda>r. (word_of_nat n, v) # r) (deserialize_u16_map kvs))"

record app_config =
  app_global :: global_config
  app_sites :: "site_config list"

definition default_app_config :: app_config where
  "default_app_config = \<lparr>app_global = default_global_config, app_sites = []\<rparr>"

end
