(* ===== verification/Config_Load.thy ===== *)
theory Config_Load
  imports Config
begin

text \<open>
  What happens to a parsed configuration before the server uses it: the shorthand fields are
  expanded (\<^verbatim>\<open>config/expand.rs\<close>, \<^verbatim>\<open>config/preset.rs\<close>) and the result is validated
  (\<^verbatim>\<open>config/loader.rs\<close>). The parsers themselves (toml, serde_json, serde_yaml) are outside.
\<close>

section \<open>Presets\<close>

definition wordpress_locations :: "bool \<Rightarrow> location_config list" where
  "wordpress_locations has_php =
     (let d = default_location_config;
          locs =
            [d\<lparr>loc_path := ''^~ /wp-content/uploads/'', loc_handler := Static,
               loc_cache_control := Some ''public, max-age=2592000''\<rparr>,
             d\<lparr>loc_path := ''^~ /wp-content/'', loc_handler := Static,
               loc_cache_control := Some ''public, max-age=604800''\<rparr>,
             d\<lparr>loc_path := ''^~ /wp-includes/'', loc_handler := Static,
               loc_cache_control := Some ''public, max-age=604800''\<rparr>,
             d\<lparr>loc_path := ''~ /'' @ [CHR 0x5C] @ ''.'', loc_handler := Static,
               loc_return_code := Some 403\<rparr>,
             d\<lparr>loc_path := ''= /xmlrpc.php'', loc_handler := Static,
               loc_return_code := Some 403\<rparr>]
      in locs @
         (if has_php then
            [d\<lparr>loc_path := ''~ '' @ [CHR 0x5C] @ ''.php$'', loc_handler := Fastcgi\<rparr>,
             d\<lparr>loc_path := ''/'', loc_handler := Fastcgi,
               loc_try_files := [''$uri'', ''$uri/'', ''/index.php'']\<rparr>]
          else
            [d\<lparr>loc_path := ''/'', loc_handler := Static,
               loc_try_files := [''$uri'', ''$uri/'', ''/index.html'']\<rparr>]))"

definition laravel_locations :: "bool \<Rightarrow> location_config list" where
  "laravel_locations has_php =
     (let d = default_location_config;
          locs =
            [d\<lparr>loc_path := ''~ /'' @ [CHR 0x5C] @ ''.'', loc_handler := Static,
               loc_return_code := Some 403\<rparr>,
             d\<lparr>loc_path := ''~ '' @ [CHR 0x5C] @
                 ''.(css|js|png|jpg|jpeg|gif|webp|ico|svg|woff2?|ttf)$'',
               loc_handler := Static,
               loc_cache_control := Some ''public, max-age=2592000''\<rparr>]
      in locs @
         (if has_php then
            [d\<lparr>loc_path := ''~ '' @ [CHR 0x5C] @ ''.php$'', loc_handler := Fastcgi\<rparr>,
             d\<lparr>loc_path := ''/'', loc_handler := Fastcgi,
               loc_try_files := [''$uri'', ''$uri/'', ''/index.php?$query_string'']\<rparr>]
          else []))"

definition static_site_locations :: "location_config list" where
  "static_site_locations =
     (let d = default_location_config in
      [d\<lparr>loc_path := ''~ /'' @ [CHR 0x5C] @ ''.'', loc_handler := Static,
         loc_return_code := Some 403\<rparr>,
       d\<lparr>loc_path := ''~ '' @ [CHR 0x5C] @
           ''.(css|js|png|jpg|jpeg|gif|webp|ico|svg|woff2?|ttf|eot)$'',
         loc_handler := Static,
         loc_cache_control := Some ''public, max-age=2592000''\<rparr>,
       d\<lparr>loc_path := ''/'', loc_handler := Static,
         loc_try_files := [''$uri'', ''$uri/'', ''/index.html'']\<rparr>])"

fun locations_for_preset :: "site_preset \<Rightarrow> bool \<Rightarrow> location_config list" where
  "locations_for_preset WordPress has_php = wordpress_locations has_php"
| "locations_for_preset Laravel has_php = laravel_locations has_php"
| "locations_for_preset StaticSite has_php = static_site_locations"

section \<open>Expansion\<close>

definition expand_tls_auto :: "site_config \<Rightarrow> site_config" where
  "expand_tls_auto site =
     (if site_tls site \<noteq> None \<or> listen_tls site = [] then site
      else (case acme_email site of
          Some email \<Rightarrow>
            site\<lparr>site_tls := Some (default_tls_config\<lparr>acme := True, tls_acme_email := Some email\<rparr>)\<rparr>
        | None \<Rightarrow> site))"

definition expand_php_fastcgi :: "site_config \<Rightarrow> site_config" where
  "expand_php_fastcgi site =
     (if site_fastcgi site \<noteq> None then site
      else (case php_fastcgi site of
          Some addr \<Rightarrow> site\<lparr>site_fastcgi := Some (fastcgi_from_addr addr)\<rparr>
        | None \<Rightarrow> site))"

definition expand_preset :: "site_config \<Rightarrow> site_config" where
  "expand_preset site =
     (case preset site of
        None \<Rightarrow> site
      | Some p \<Rightarrow>
          if locations site \<noteq> [] then site
          else site\<lparr>locations := locations_for_preset p (site_fastcgi site \<noteq> None)\<rparr>)"

definition expand_site :: "site_config \<Rightarrow> site_config" where
  "expand_site site = expand_preset (expand_php_fastcgi (expand_tls_auto site))"

definition expand_config :: "app_config \<Rightarrow> app_config" where
  "expand_config cfg = cfg\<lparr>app_sites := map expand_site (app_sites cfg)\<rparr>"

section \<open>Validation\<close>

datatype config_error =
    EmptyName
  | EmptyServerName string
  | MissingUpstream string string
  | UnknownUpstream string string string
  | MissingCert string

fun validate_locations :: "site_config \<Rightarrow> location_config list \<Rightarrow> config_error + unit" where
  "validate_locations site [] = Inr ()"
| "validate_locations site (loc # locs) =
     (if loc_handler loc = ReverseProxy then
        (case loc_upstream loc of
           None \<Rightarrow> Inl (MissingUpstream (site_name site) (loc_path loc))
         | Some up_name \<Rightarrow>
             if \<not> list_ex (\<lambda>u. uc_name u = up_name) (upstreams site)
             then Inl (UnknownUpstream (site_name site) (loc_path loc) up_name)
             else validate_locations site locs)
      else validate_locations site locs)"

definition validate_site :: "site_config \<Rightarrow> config_error + unit" where
  "validate_site site =
     (if site_name site = [] then Inl EmptyName
      else if server_name site = [] then Inl (EmptyServerName (site_name site))
      else (case validate_locations site (locations site) of
          Inl e \<Rightarrow> Inl e
        | Inr _ \<Rightarrow>
            (case site_tls site of
               None \<Rightarrow> Inr ()
             | Some tls \<Rightarrow>
                 if \<not> acme tls \<and> certs tls = [] \<and> (tls_cert tls = None \<or> tls_key tls = None)
                 then Inl (MissingCert (site_name site))
                 else Inr ())))"

fun validate_sites :: "site_config list \<Rightarrow> config_error + unit" where
  "validate_sites [] = Inr ()"
| "validate_sites (site # sites) =
     (case validate_site site of Inl e \<Rightarrow> Inl e | Inr _ \<Rightarrow> validate_sites sites)"

definition validate_config :: "app_config \<Rightarrow> config_error + unit" where
  "validate_config cfg = validate_sites (app_sites cfg)"

text \<open>\<^verbatim>\<open>load_config\<close> after parsing.\<close>

definition load_config :: "app_config \<Rightarrow> config_error + app_config" where
  "load_config cfg =
     (let c = expand_config cfg
      in case validate_config c of Inl e \<Rightarrow> Inl e | Inr _ \<Rightarrow> Inr c)"

section \<open>Lemmas\<close>

lemma locations_for_preset_nonempty: "locations_for_preset p has_php \<noteq> []"
  by (cases p) (simp_all add: wordpress_locations_def laravel_locations_def
      static_site_locations_def Let_def)

lemma expand_tls_auto_idem: "expand_tls_auto (expand_tls_auto s) = expand_tls_auto s"
  by (simp add: expand_tls_auto_def split: option.splits)

lemma expand_php_fastcgi_idem: "expand_php_fastcgi (expand_php_fastcgi s) = expand_php_fastcgi s"
  by (simp add: expand_php_fastcgi_def split: option.splits)

lemma expand_preset_idem: "expand_preset (expand_preset s) = expand_preset s"
  by (simp add: expand_preset_def locations_for_preset_nonempty split: option.splits)

lemma expand_frame [simp]:
  "site_tls (expand_php_fastcgi s) = site_tls s" "site_tls (expand_preset s) = site_tls s"
  "listen_tls (expand_php_fastcgi s) = listen_tls s" "listen_tls (expand_preset s) = listen_tls s"
  "acme_email (expand_php_fastcgi s) = acme_email s" "acme_email (expand_preset s) = acme_email s"
  "site_fastcgi (expand_preset s) = site_fastcgi s" "php_fastcgi (expand_preset s) = php_fastcgi s"
  by (simp_all add: expand_php_fastcgi_def expand_preset_def split: option.splits)

lemma expand_tls_auto_fixed:
  "expand_tls_auto t = t \<Longrightarrow> site_tls s = site_tls t \<Longrightarrow> listen_tls s = listen_tls t \<Longrightarrow>
   acme_email s = acme_email t \<Longrightarrow> expand_tls_auto s = s"
  by (auto simp: expand_tls_auto_def split: option.splits if_splits dest: arg_cong [of _ _ site_tls])

lemma expand_php_fastcgi_fixed:
  "expand_php_fastcgi t = t \<Longrightarrow> site_fastcgi s = site_fastcgi t \<Longrightarrow> php_fastcgi s = php_fastcgi t \<Longrightarrow>
   expand_php_fastcgi s = s"
  by (auto simp: expand_php_fastcgi_def split: option.splits if_splits
      dest: arg_cong [of _ _ site_fastcgi])

lemma validate_locations_ok:
  "validate_locations site locs = Inr () \<Longrightarrow> l \<in> set locs \<Longrightarrow> loc_handler l = ReverseProxy \<Longrightarrow>
   \<exists>u\<in>set (upstreams site). loc_upstream l = Some (uc_name u)"
  by (induction locs) (auto simp: list_ex_iff split: if_splits option.splits)

lemma validate_sites_ok: "validate_sites sites = Inr () \<Longrightarrow> s \<in> set sites \<Longrightarrow> validate_site s = Inr ()"
  by (induction sites) (auto split: sum.splits)

lemma validate_site_upstreams:
  "validate_site s = Inr () \<Longrightarrow> l \<in> set (locations s) \<Longrightarrow> loc_handler l = ReverseProxy \<Longrightarrow>
   \<exists>u\<in>set (upstreams s). loc_upstream l = Some (uc_name u)"
  by (auto simp: validate_site_def split: if_splits sum.splits intro: validate_locations_ok)

section \<open>Properties\<close>

text \<open>
  Expanding the shorthand fields of a configuration twice is expanding them once: a
  configuration that is already in its expanded form is loaded unchanged.
\<close>

theorem expand_config_idempotent: "expand_config (expand_config cfg) = expand_config cfg"
proof -
  have "expand_site (expand_site s) = expand_site s" for s
  proof -
    let ?t = "expand_tls_auto s" and ?p = "expand_php_fastcgi (expand_tls_auto s)"
    let ?e = "expand_site s"
    have "expand_tls_auto ?e = ?e"
      by (rule expand_tls_auto_fixed [of ?t]) (simp_all add: expand_site_def expand_tls_auto_idem)
    moreover have "expand_php_fastcgi ?e = ?e"
      by (rule expand_php_fastcgi_fixed [of ?p])
         (simp_all add: expand_site_def expand_php_fastcgi_idem)
    moreover have "expand_preset ?e = ?e" by (simp add: expand_site_def expand_preset_idem)
    ultimately show ?thesis by (metis expand_site_def)
  qed
  then show ?thesis by (simp add: expand_config_def comp_def)
qed

text \<open>
  A configuration that loads is safe to route with: every site has a name and a host name,
  every reverse-proxy location names an upstream group of its own site, and a site with TLS has
  ACME, a certificate list, or both a certificate and a key.
\<close>

theorem load_config_valid:
  assumes "load_config cfg = Inr c" and "s \<in> set (app_sites c)"
  shows "site_name s \<noteq> [] \<and> server_name s \<noteq> [] \<and>
    (\<forall>l\<in>set (locations s). loc_handler l = ReverseProxy \<longrightarrow>
       (\<exists>u\<in>set (upstreams s). loc_upstream l = Some (uc_name u))) \<and>
    (\<forall>tls. site_tls s = Some tls \<longrightarrow>
       acme tls \<or> certs tls \<noteq> [] \<or> tls_cert tls \<noteq> None \<and> tls_key tls \<noteq> None)"
proof -
  from assms have "validate_site s = Inr ()"
    by (auto simp: load_config_def Let_def validate_config_def split: sum.splits
        intro: validate_sites_ok)
  then show ?thesis
    by (auto simp: validate_site_upstreams)
       (auto simp: validate_site_def split: if_splits sum.splits)
qed

definition demo_site :: site_config where
  "demo_site = (serde_site_config ''demo'' [''localhost''])
     \<lparr>upstreams := [serde_upstream_config ''app'' [serde_upstream_node (Tcp ''a:80'')]],
      locations := [default_location_config\<lparr>loc_path := ''/'', loc_handler := ReverseProxy,
                      loc_upstream := Some ''app''\<rparr>]\<rparr>"

definition demo_config :: app_config where
  "demo_config = \<lparr>app_global = default_global_config, app_sites = [demo_site]\<rparr>"

theorem load_config_valid_witness:
  "load_config demo_config = Inr demo_config \<and>
   (\<exists>u\<in>set (upstreams demo_site). loc_upstream (hd (locations demo_site)) = Some (uc_name u))"
proof -
  have h: "hd (locations demo_site) \<in> set (locations demo_site)"
    and r: "loc_handler (hd (locations demo_site)) = ReverseProxy"
    by (simp_all add: demo_site_def)
  have s: "expand_site demo_site = demo_site"
    by (simp add: expand_site_def expand_preset_def expand_php_fastcgi_def expand_tls_auto_def
        demo_site_def serde_site_config_def)
  have "validate_site demo_site = Inr ()"
    by (simp add: validate_site_def demo_site_def serde_site_config_def serde_upstream_config_def
        default_location_config_def)
  then have l: "load_config demo_config = Inr demo_config"
    by (simp add: load_config_def validate_config_def expand_config_def demo_config_def s)
  moreover have "demo_site \<in> set (app_sites demo_config)" by (simp add: demo_config_def)
  ultimately show ?thesis
    using load_config_valid [of demo_config demo_config demo_site] h r by blast
qed

text \<open>
  The shorthand \<^verbatim>\<open>acme_email\<close> does not give what the documentation promises. For every site
  with a TLS port, that e-mail and no TLS table, the expansion enables ACME but leaves the
  provider name empty, so the directory URL it resolves to is the empty string and not that of
  Let's Encrypt; no protocol (h2, h3) is enabled, and the renewal lead is zero days instead of
  the documented thirty.
\<close>

theorem acme_email_expansion_incomplete:
  assumes "site_tls s = None" and "listen_tls s \<noteq> []" and "acme_email s = Some email"
  shows "\<exists>tls. site_tls (expand_site s) = Some tls \<and> acme tls \<and> tls_acme_email tls = Some email \<and>
    resolve_directory_url (acme_provider tls) = '''' \<and>
    resolve_directory_url (acme_provider serde_tls_config)
      = ''https://acme-v02.api.letsencrypt.org/directory'' \<and>
    protocols tls = [] \<and> acme_renew_days_before tls = 0"
  using assms
  by (simp add: expand_site_def expand_tls_auto_def default_tls_config_def serde_tls_config_def
      resolve_directory_url_def)

theorem acme_email_expansion_incomplete_witness:
  "\<exists>tls. site_tls (expand_site ((serde_site_config ''w'' [''e.com''])
      \<lparr>listen_tls := [443], acme_email := Some ''you@example.com''\<rparr>)) = Some tls \<and>
    resolve_directory_url (acme_provider tls) = ''''"
  using acme_email_expansion_incomplete [of "(serde_site_config ''w'' [''e.com''])
      \<lparr>listen_tls := [443], acme_email := Some ''you@example.com''\<rparr>" "''you@example.com''"]
  by (auto simp: serde_site_config_def)

end
