(* ===== verification/Circuit_Breaker.thy ===== *)
theory Circuit_Breaker
  imports Rust_Prelude
begin

text \<open>
  The circuit breaker of an upstream node (\<^verbatim>\<open>handler/reverse_proxy/circuit_breaker.rs\<close>): its
  atomics as a record, one function per method, the three-state machine they implement, and an
  interleaving model of \<^verbatim>\<open>allow\<close> at the granularity of its atomic accesses.

  A method may read the wall clock several times; \<open>clk i\<close> is its \<open>i\<close>-th reading. Nothing is
  assumed about the readings (the wall clock may be set back).
\<close>

section \<open>State and operations\<close>

definition CB_CLOSED :: u8 where
  "CB_CLOSED = 0"

definition CB_OPEN :: u8 where
  "CB_OPEN = 1"

definition CB_HALF_OPEN :: u8 where
  "CB_HALF_OPEN = 2"

record circuit_breaker =
  cb_state :: u8
  failure_count :: u32
  window_start :: u64
  open_since :: u64
  max_failures :: u32
  window_secs :: u64
  fail_timeout :: u64

definition new_breaker :: "u32 \<Rightarrow> u64 \<Rightarrow> u64 \<Rightarrow> u64 \<Rightarrow> circuit_breaker" where
  "new_breaker maxf window timeout now =
     \<lparr>cb_state = CB_CLOSED, failure_count = 0, window_start = now, open_since = 0,
      max_failures = maxf, window_secs = window, fail_timeout = timeout\<rparr>"

definition allow :: "(nat \<Rightarrow> u64) \<Rightarrow> circuit_breaker \<Rightarrow> bool \<times> circuit_breaker" where
  "allow clk cb =
     (if cb_state cb = CB_CLOSED then (True, cb)
      else if cb_state cb = CB_OPEN then
        (if fail_timeout cb \<le> saturating_sub (clk 0) (open_since cb)
         then (True, cb\<lparr>cb_state := CB_HALF_OPEN\<rparr>)
         else (False, cb))
      else if cb_state cb = CB_HALF_OPEN then (False, cb)
      else (True, cb))"

definition maybe_reset_window :: "(nat \<Rightarrow> u64) \<Rightarrow> circuit_breaker \<Rightarrow> circuit_breaker" where
  "maybe_reset_window clk cb =
     (if window_secs cb \<le> saturating_sub (clk 0) (window_start cb)
      then cb\<lparr>failure_count := 0, window_start := clk 1\<rparr>
      else cb)"

definition record_success :: "(nat \<Rightarrow> u64) \<Rightarrow> circuit_breaker \<Rightarrow> circuit_breaker" where
  "record_success clk cb =
     (if cb_state cb = CB_HALF_OPEN
      then cb\<lparr>failure_count := 0, window_start := clk 0, cb_state := CB_CLOSED\<rparr>
      else if cb_state cb = CB_CLOSED then maybe_reset_window clk cb
      else cb)"

text \<open>\<^verbatim>\<open>fetch_add\<close> wraps, but the addition to the value it returns is checked.\<close>

definition record_failure :: "(nat \<Rightarrow> u64) \<Rightarrow> circuit_breaker \<Rightarrow> circuit_breaker outcome" where
  "record_failure clk cb =
     (if cb_state cb = CB_HALF_OPEN
      then Val (cb\<lparr>open_since := clk 0, cb_state := CB_OPEN\<rparr>)
      else if cb_state cb = CB_CLOSED then
        (let cb1 = maybe_reset_window clk cb;
             cb2 = cb1\<lparr>failure_count := failure_count cb1 + 1\<rparr>
         in bind_outcome (add_u32 (failure_count cb1) 1) (\<lambda>count.
              if max_failures cb2 \<le> count
              then Val (cb2\<lparr>open_since := clk 2, cb_state := CB_OPEN\<rparr>)
              else Val cb2))
      else Val cb)"

definition is_open :: "circuit_breaker \<Rightarrow> bool" where
  "is_open cb = (cb_state cb = CB_OPEN)"

lemmas cb_states = CB_CLOSED_def CB_OPEN_def CB_HALF_OPEN_def

section \<open>The three-state machine\<close>

datatype phase = Closed | Opened | HalfOpen

datatype cb_event = Admit | Reject | Success | Failure

definition phase_of :: "circuit_breaker \<Rightarrow> phase" where
  "phase_of cb = (if cb_state cb = CB_CLOSED then Closed
                  else if cb_state cb = CB_OPEN then Opened else HalfOpen)"

text \<open>The edges of the documented diagram, labelled with what happened at the breaker.\<close>

inductive edge :: "phase \<Rightarrow> cb_event \<Rightarrow> phase \<Rightarrow> bool" where
  closed_admit: "edge Closed Admit Closed"
| open_reject: "edge Opened Reject Opened"
| open_probe: "edge Opened Admit HalfOpen"
| half_reject: "edge HalfOpen Reject HalfOpen"
| closed_success: "edge Closed Success Closed"
| half_success: "edge HalfOpen Success Closed"
| open_success: "edge Opened Success Opened"
| closed_failure: "edge Closed Failure Closed"
| closed_trip: "edge Closed Failure Opened"
| half_failure: "edge HalfOpen Failure Opened"
| open_failure: "edge Opened Failure Opened"

inductive_simps edge_half_admit [simp]: "edge HalfOpen Admit p"
inductive_simps edge_closed_admit [simp]: "edge Closed Admit p"

text \<open>One call at the breaker, with the event it amounts to.\<close>

inductive cb_step :: "circuit_breaker \<Rightarrow> cb_event \<Rightarrow> circuit_breaker \<Rightarrow> bool" where
  step_allow: "allow clk cb = (True, cb') \<Longrightarrow> cb_step cb Admit cb'"
| step_deny: "allow clk cb = (False, cb') \<Longrightarrow> cb_step cb Reject cb'"
| step_success: "cb_step cb Success (record_success clk cb)"
| step_failure: "record_failure clk cb = Val cb' \<Longrightarrow> cb_step cb Failure cb'"

inductive_cases cb_step_Admit: "cb_step cb Admit cb'"
inductive_cases cb_step_Failure: "cb_step cb Failure cb'"

inductive cb_reach :: "circuit_breaker \<Rightarrow> bool" where
  reach_new: "cb_reach (new_breaker maxf window timeout now)"
| reach_step: "cb_reach cb \<Longrightarrow> cb_step cb e cb' \<Longrightarrow> cb_reach cb'"

text \<open>
  The invariant: the state is one of the three, and a closed breaker has counted fewer failures
  than its limit (a limit of zero behaves like one).
\<close>

definition cb_inv :: "circuit_breaker \<Rightarrow> bool" where
  "cb_inv cb = ((cb_state cb = CB_CLOSED \<or> cb_state cb = CB_OPEN \<or> cb_state cb = CB_HALF_OPEN) \<and>
     (cb_state cb = CB_CLOSED \<longrightarrow> unat (failure_count cb) < max 1 (unat (max_failures cb))))"

lemma cb_inv_new: "cb_inv (new_breaker maxf window timeout now)"
  by (simp add: cb_inv_def new_breaker_def)

lemma maybe_reset_window_simps [simp]:
  "cb_state (maybe_reset_window clk cb) = cb_state cb"
  "max_failures (maybe_reset_window clk cb) = max_failures cb"
  "open_since (maybe_reset_window clk cb) = open_since cb"
  "window_secs (maybe_reset_window clk cb) = window_secs cb"
  "fail_timeout (maybe_reset_window clk cb) = fail_timeout cb"
  by (simp_all add: maybe_reset_window_def)

lemma maybe_reset_window_count:
  "failure_count (maybe_reset_window clk cb) = 0 \<or>
   failure_count (maybe_reset_window clk cb) = failure_count cb"
  by (simp add: maybe_reset_window_def)

lemma maybe_reset_window_inv:
  "cb_inv cb \<Longrightarrow> cb_inv (maybe_reset_window clk cb)"
  using maybe_reset_window_count [of clk cb] by (auto simp: cb_inv_def)

lemma allow_inv: "allow clk cb = (b, cb') \<Longrightarrow> cb_inv cb \<Longrightarrow> cb_inv cb'"
  by (auto simp: allow_def cb_inv_def cb_states split: if_splits)

lemma record_success_inv: "cb_inv cb \<Longrightarrow> cb_inv (record_success clk cb)"
  by (simp add: record_success_def maybe_reset_window_inv)
     (auto simp: cb_inv_def cb_states less_max_iff_disj)

lemma count_below_max: "unat (c :: u32) < max 1 (unat (m :: u32)) \<Longrightarrow> unat c + 1 < 2 ^ 32"
proof -
  have "unat m < 2 ^ LENGTH(32)" by (rule unsigned_less)
  then show "unat c < max 1 (unat m) \<Longrightarrow> unat c + 1 < 2 ^ 32" by simp
qed

lemma closed_count:
  assumes "cb_inv cb" and "cb_state cb = CB_CLOSED"
  shows "unat (failure_count (maybe_reset_window clk cb)) < max 1 (unat (max_failures cb))"
  using assms maybe_reset_window_inv [of cb clk] by (simp add: cb_inv_def)

text \<open>A failure at a closed breaker: one more counted, open as soon as the limit is reached.\<close>

lemma record_failure_closed:
  assumes "cb_inv cb" and "cb_state cb = CB_CLOSED"
  shows "record_failure clk cb =
    (let cb1 = maybe_reset_window clk cb; cb2 = cb1\<lparr>failure_count := failure_count cb1 + 1\<rparr>
     in Val (if unat (max_failures cb) \<le> Suc (unat (failure_count cb1))
             then cb2\<lparr>open_since := clk 2, cb_state := CB_OPEN\<rparr> else cb2))"
proof -
  let ?c = "failure_count (maybe_reset_window clk cb)"
  have b: "unat ?c + 1 < 2 ^ 32" using closed_count [OF assms] by (rule count_below_max)
  then have a: "add_u32 ?c 1 = Val (?c + 1)" by (simp add: add_u32_def)
  then have "unat (?c + 1) = Suc (unat ?c)" using add_u32_Val [OF a] by simp
  then have "(max_failures cb \<le> ?c + 1) = (unat (max_failures cb) \<le> Suc (unat ?c))"
    by (simp add: word_le_nat_alt)
  with a assms(2) show ?thesis by (simp add: record_failure_def cb_states Let_def)
qed

lemma record_failure_total: "cb_inv cb \<Longrightarrow> \<exists>cb'. record_failure clk cb = Val cb'"
  by (cases "cb_state cb = CB_CLOSED")
     (simp_all add: record_failure_closed Let_def, simp add: record_failure_def)

lemma unat_Suc_count:
  assumes "cb_inv cb" and "cb_state cb = CB_CLOSED"
  shows "unat (failure_count (maybe_reset_window clk cb) + 1)
    = Suc (unat (failure_count (maybe_reset_window clk cb)))"
proof -
  have "unat (failure_count (maybe_reset_window clk cb)) + 1 < 2 ^ 32"
    using closed_count [OF assms] by (rule count_below_max)
  then have "add_u32 (failure_count (maybe_reset_window clk cb)) 1
      = Val (failure_count (maybe_reset_window clk cb) + 1)" by (simp add: add_u32_def)
  then show ?thesis using add_u32_Val by fastforce
qed

lemma record_failure_inv: "cb_inv cb \<Longrightarrow> record_failure clk cb = Val cb' \<Longrightarrow> cb_inv cb'"
proof (cases "cb_state cb = CB_CLOSED")
  case True
  assume inv: "cb_inv cb" and r: "record_failure clk cb = Val cb'"
  let ?cb1 = "maybe_reset_window clk cb"
  let ?cb2 = "?cb1\<lparr>failure_count := failure_count ?cb1 + 1\<rparr>"
  consider "cb' = ?cb2\<lparr>open_since := clk 2, cb_state := CB_OPEN\<rparr>"
    | "cb' = ?cb2" "Suc (unat (failure_count ?cb1)) < unat (max_failures cb)"
    using r by (auto simp: record_failure_closed [OF inv True] Let_def split: if_splits)
  then show "cb_inv cb'"
    using True by cases (simp_all add: cb_inv_def cb_states unat_Suc_count [OF inv True])
next
  case False
  assume "cb_inv cb" and "record_failure clk cb = Val cb'"
  with False show "cb_inv cb'"
    by (auto simp: record_failure_def cb_inv_def cb_states split: if_splits)
qed

lemma cb_step_inv: "cb_step cb e cb' \<Longrightarrow> cb_inv cb \<Longrightarrow> cb_inv cb'"
  by (induction rule: cb_step.induct)
     (auto dest: allow_inv record_failure_inv intro: record_success_inv) 

lemma cb_reach_inv: "cb_reach cb \<Longrightarrow> cb_inv cb"
  by (induction rule: cb_reach.induct) (auto intro: cb_inv_new cb_step_inv)

section \<open>Properties\<close>



text \<open>Failures recorded one after the other.\<close>

fun failures :: "nat \<Rightarrow> (nat \<Rightarrow> u64) \<Rightarrow> circuit_breaker \<Rightarrow> circuit_breaker outcome" where
  "failures 0 clk cb = Val cb"
| "failures (Suc n) clk cb = bind_outcome (failures n clk cb) (record_failure clk)"

lemma failures_closed:
  assumes "n < max 1 (unat maxf)" and "\<forall>i. saturating_sub (clk i) now < window"
  shows "failures n clk (new_breaker maxf window timeout now)
    = Val ((new_breaker maxf window timeout now)\<lparr>failure_count := word_of_nat n\<rparr>)"
  using assms(1)
proof (induction n)
  case 0
  then show ?case by (simp add: new_breaker_def)
next
  case (Suc n)
  let ?b = "new_breaker maxf window timeout now"
  let ?cb = "?b\<lparr>failure_count := word_of_nat n\<rparr>"
  have "unat maxf < 2 ^ LENGTH(32)" by (rule unsigned_less)
  then have "n < 2 ^ 32" and sm: "Suc n < unat maxf" using Suc.prems by auto
  then have un: "unat (word_of_nat n :: u32) = n" by (simp add: unat_of_nat)
  then have inv: "cb_inv ?cb" using Suc.prems by (simp add: cb_inv_def new_breaker_def)
  have st: "cb_state ?cb = CB_CLOSED" by (simp add: new_breaker_def)
  have rw: "maybe_reset_window clk ?cb = ?cb"
    using assms(2) [rule_format, of 0] by (auto simp: maybe_reset_window_def new_breaker_def dest: leD)
  have "record_failure clk ?cb = Val (?b\<lparr>failure_count := word_of_nat (Suc n)\<rparr>)"
    using sm un by (simp add: record_failure_closed [OF inv st] rw Let_def)
      (simp add: new_breaker_def add.commute)
  then show ?case using Suc by simp
qed

text \<open>
  The threshold is exact. \<open>n\<close> failures recorded on a fresh breaker, all at clock readings
  inside its first window, leave it closed if \<open>n\<close> is below the limit and open if it is the limit;
  while it is open, requests are turned away until \<open>fail_timeout\<close> seconds have passed since it opened.
\<close>

theorem breaker_threshold_exact:
  assumes "\<forall>i. saturating_sub (clk i) now < window"
  shows "(n < max 1 (unat maxf) \<longrightarrow>
            (\<exists>cb. failures n clk (new_breaker maxf window timeout now) = Val cb \<and>
                  cb_state cb = CB_CLOSED \<and> fst (allow clk' cb))) \<and>
         (n = max 1 (unat maxf) \<longrightarrow>
            (\<exists>cb. failures n clk (new_breaker maxf window timeout now) = Val cb \<and> is_open cb \<and>
                  open_since cb = clk 2 \<and>
                  fst (allow clk' cb) = (timeout \<le> saturating_sub (clk' 0) (clk 2))))"
proof (intro conjI impI)
  assume "n < max 1 (unat maxf)"
  from failures_closed [OF this assms]
  show "\<exists>cb. failures n clk (new_breaker maxf window timeout now) = Val cb \<and>
      cb_state cb = CB_CLOSED \<and> fst (allow clk' cb)"
    by (simp add: new_breaker_def allow_def)
next
  assume n: "n = max 1 (unat maxf)"
  then have "n \<noteq> 0" by simp
  then obtain m where m: "n = Suc m" using not0_implies_Suc by blast
  let ?b = "new_breaker maxf window timeout now"
  let ?cb = "?b\<lparr>failure_count := word_of_nat m\<rparr>"
  have lt: "m < max 1 (unat maxf)" using n m by simp
  have f: "failures m clk ?b = Val ?cb" by (rule failures_closed [OF lt assms])
  have "unat maxf < 2 ^ LENGTH(32)" by (rule unsigned_less)
  then have un: "unat (word_of_nat m :: u32) = m" using lt by (simp add: unat_of_nat)
  then have inv: "cb_inv ?cb" using lt by (simp add: cb_inv_def new_breaker_def)
  have st: "cb_state ?cb = CB_CLOSED" by (simp add: new_breaker_def)
  have rw: "maybe_reset_window clk ?cb = ?cb"
    using assms [rule_format, of 0] by (auto simp: maybe_reset_window_def new_breaker_def dest: leD)
  have "unat maxf \<le> Suc m" using n m by simp
  then have r: "record_failure clk ?cb = Val (?cb\<lparr>failure_count := failure_count ?cb + 1,
      open_since := clk 2, cb_state := CB_OPEN\<rparr>)"
    using un by (simp add: record_failure_closed [OF inv st] rw Let_def) (simp add: new_breaker_def)
  then show "\<exists>cb. failures n clk ?b = Val cb \<and> is_open cb \<and> open_since cb = clk 2 \<and>
      fst (allow clk' cb) = (timeout \<le> saturating_sub (clk' 0) (clk 2))"
    by (simp add: m f is_open_def allow_def cb_states) (simp add: new_breaker_def)
qed

theorem breaker_threshold_exact_witness:
  "\<exists>cb. failures 3 (\<lambda>_. 5) (new_breaker 3 60 30 0) = Val cb \<and> is_open cb"
proof -
  have "\<forall>i::nat. saturating_sub ((\<lambda>_. 5) i) (0 :: u64) < 60" by (simp add: saturating_sub_def)
  from breaker_threshold_exact [OF this, of 3 3 30 "\<lambda>_. 5"] show ?thesis by auto
qed

section \<open>Interleaved callers\<close>

text \<open>
  Many tasks call \<^verbatim>\<open>allow\<close> while others record outcomes. A caller that loaded CB_OPEN goes on to
  load \<^verbatim>\<open>open_since\<close>, compares it with the clock, and then tries to swap CB_OPEN for
  CB_HALF_OPEN. Recording tasks store CB_OPEN or CB_CLOSED. Each rule is one atomic access; the
  ghost fields count the stores of CB_OPEN and the probes let through.
\<close>

datatype caller = Idle | SawOpen | Swapping | Answered bool

record shared =
  sh_state :: u8
  sh_open_since :: u64
  sh_callers :: "nat \<Rightarrow> caller"
  sh_opened :: nat
  sh_probes :: nat

definition init_shared :: shared where
  "init_shared = \<lparr>sh_state = CB_CLOSED, sh_open_since = 0, sh_callers = (\<lambda>_. Idle),
                  sh_opened = 0, sh_probes = 0\<rparr>"

inductive atomic_step :: "u64 \<Rightarrow> shared \<Rightarrow> shared \<Rightarrow> bool" for timeout where
  load_state: "sh_callers s i = Idle \<Longrightarrow>
     atomic_step timeout s (s\<lparr>sh_callers := (sh_callers s)(i :=
       (if sh_state s = CB_CLOSED then Answered True
        else if sh_state s = CB_OPEN then SawOpen
        else if sh_state s = CB_HALF_OPEN then Answered False else Answered True))\<rparr>)"
| check_timeout: "sh_callers s i = SawOpen \<Longrightarrow>
     atomic_step timeout s (s\<lparr>sh_callers := (sh_callers s)(i :=
       (if timeout \<le> saturating_sub now (sh_open_since s) then Swapping else Answered False))\<rparr>)"
| swap_ok: "sh_callers s i = Swapping \<Longrightarrow> sh_state s = CB_OPEN \<Longrightarrow>
     atomic_step timeout s (s\<lparr>sh_state := CB_HALF_OPEN, sh_probes := Suc (sh_probes s),
       sh_callers := (sh_callers s)(i := Answered True)\<rparr>)"
| swap_fails: "sh_callers s i = Swapping \<Longrightarrow> sh_state s \<noteq> CB_OPEN \<Longrightarrow>
     atomic_step timeout s (s\<lparr>sh_callers := (sh_callers s)(i := Answered False)\<rparr>)"
| call_again: "sh_callers s i = Answered b \<Longrightarrow>
     atomic_step timeout s (s\<lparr>sh_callers := (sh_callers s)(i := Idle)\<rparr>)"
| store_open_since: "atomic_step timeout s (s\<lparr>sh_open_since := now\<rparr>)"
| store_open: "atomic_step timeout s (s\<lparr>sh_state := CB_OPEN, sh_opened := Suc (sh_opened s)\<rparr>)"
| store_closed: "atomic_step timeout s (s\<lparr>sh_state := CB_CLOSED\<rparr>)"

inductive atomic_reach :: "u64 \<Rightarrow> shared \<Rightarrow> bool" for timeout where
  start: "atomic_reach timeout init_shared"
| step: "atomic_reach timeout s \<Longrightarrow> atomic_step timeout s t \<Longrightarrow> atomic_reach timeout t"

definition probe_inv :: "shared \<Rightarrow> bool" where
  "probe_inv s = (sh_probes s + (if sh_state s = CB_OPEN then 1 else 0) \<le> sh_opened s)"

lemma probe_inv_step: "atomic_step timeout s t \<Longrightarrow> probe_inv s \<Longrightarrow> probe_inv t"
  by (induction rule: atomic_step.induct) (auto simp: probe_inv_def cb_states split: if_splits)

lemma probe_inv_reach: "atomic_reach timeout s \<Longrightarrow> probe_inv s"
proof (induction rule: atomic_reach.induct)
  case start
  then show ?case by (simp add: probe_inv_def init_shared_def cb_states)
next
  case (step s t)
  then show ?case by (blast intro: probe_inv_step)
qed

text \<open>
  C14: under every interleaving of callers and of tasks that record outcomes, the compare-and-swap
  lets at most one probe through for each time the breaker was opened.
\<close>

theorem at_most_one_probe_per_opening:
  assumes "atomic_reach timeout s"
  shows "sh_probes s \<le> sh_opened s \<and> (sh_state s = CB_OPEN \<longrightarrow> sh_probes s < sh_opened s)"
  using probe_inv_reach [OF assms] by (auto simp: probe_inv_def)

theorem at_most_one_probe_per_opening_witness:
  "\<exists>s. atomic_reach 30 s \<and> sh_probes s = 1 \<and> sh_opened s = 1 \<and> sh_probes s \<le> sh_opened s"
proof -
  let ?s1 = "init_shared\<lparr>sh_state := CB_OPEN, sh_opened := 1\<rparr>"
  let ?s2 = "?s1\<lparr>sh_callers := (\<lambda>_. Idle)(0 := SawOpen)\<rparr>"
  let ?s3 = "?s1\<lparr>sh_callers := (\<lambda>_. Idle)(0 := Swapping)\<rparr>"
  let ?s4 = "?s1\<lparr>sh_state := CB_HALF_OPEN, sh_probes := 1, sh_callers := (\<lambda>_. Idle)(0 := Answered True)\<rparr>"
  have 1: "atomic_step 30 init_shared ?s1"
    using atomic_step.store_open [of 30 init_shared] by (simp add: init_shared_def)
  have 2: "atomic_step 30 ?s1 ?s2"
    using atomic_step.load_state [of ?s1 0 30] by (simp add: init_shared_def cb_states)
  have 3: "atomic_step 30 ?s2 ?s3"
    using atomic_step.check_timeout [of ?s2 0 30 30]
    by (simp add: init_shared_def saturating_sub_def)
  have 4: "atomic_step 30 ?s3 ?s4"
    using atomic_step.swap_ok [of ?s3 0 30] by (simp add: init_shared_def)
  have r: "atomic_reach 30 ?s4"
    by (rule atomic_reach.step [OF atomic_reach.step [OF atomic_reach.step
          [OF atomic_reach.step [OF atomic_reach.start 1] 2] 3] 4])
  then show ?thesis
    using at_most_one_probe_per_opening [OF r] by (auto simp: init_shared_def)
qed

end
