(* ===== verification/Retry.thy ===== *)
theory Retry
  imports Config
begin

text \<open>
  When a failed request may be sent to another upstream node: the structured errors of the
  reverse proxy (\<^verbatim>\<open>handler/reverse_proxy/error.rs\<close>) and the retry conditions compiled to bit
  flags (\<^verbatim>\<open>handler/reverse_proxy/retry.rs\<close>).
\<close>

unbundle bit_operations_syntax

section \<open>Errors\<close>

datatype io_error_kind =
  ConnectionRefused | ConnectionReset | BrokenPipe | UnexpectedEof | TimedOut | OtherKind string

datatype proxy_error =
    ConnRefused string
  | ConnTimeout string u64
  | ReadTimeout string u64
  | WriteTimeout string u64
  | TtfbTimeout string
  | ConnReset string
  | TlsHandshake string string
  | BadGateway string u16
  | InvalidResponse string string
  | NoAvailableUpstream string
  | Io string io_error_kind

datatype io_context = Connect | ReadCtx | WriteCtx

fun http_status :: "proxy_error \<Rightarrow> u16" where
  "http_status (ConnRefused _) = 502"
| "http_status (ConnTimeout _ _) = 504"
| "http_status (ReadTimeout _ _) = 504"
| "http_status (WriteTimeout _ _) = 504"
| "http_status (TtfbTimeout _) = 504"
| "http_status (ConnReset _) = 502"
| "http_status (TlsHandshake _ _) = 502"
| "http_status (BadGateway _ status) = status"
| "http_status (InvalidResponse _ _) = 502"
| "http_status (NoAvailableUpstream _) = 503"
| "http_status (Io _ _) = 502"

definition from_io :: "string \<Rightarrow> io_error_kind \<Rightarrow> io_context \<Rightarrow> proxy_error" where
  "from_io addr e ctx =
     (case e of
        ConnectionRefused \<Rightarrow> ConnRefused addr
      | ConnectionReset \<Rightarrow> ConnReset addr
      | BrokenPipe \<Rightarrow> ConnReset addr
      | UnexpectedEof \<Rightarrow> ConnReset addr
      | _ \<Rightarrow> (case ctx of
            Connect \<Rightarrow> ConnRefused addr
          | ReadCtx \<Rightarrow> Io addr e
          | WriteCtx \<Rightarrow> Io addr e))"

text \<open>An \<^verbatim>\<open>anyhow::Error\<close> holds one of these errors or any other one, with its message.\<close>

datatype anyhow_error = Proxy proxy_error | Other string

section \<open>Flags\<close>

type_synonym next_upstream_flags = u16

definition ERROR :: u16 where "ERROR = 1"
definition TIMEOUT :: u16 where "TIMEOUT = 2"
definition HTTP_502 :: u16 where "HTTP_502 = 4"
definition HTTP_503 :: u16 where "HTTP_503 = 8"
definition HTTP_504 :: u16 where "HTTP_504 = 16"
definition HTTP_429 :: u16 where "HTTP_429 = 32"
definition NON_IDEMPOTENT :: u16 where "NON_IDEMPOTENT = 64"
definition INVALID_HEADER :: u16 where "INVALID_HEADER = 128"

lemmas flag_defs = ERROR_def TIMEOUT_def HTTP_502_def HTTP_503_def HTTP_504_def HTTP_429_def
  NON_IDEMPOTENT_def INVALID_HEADER_def

definition DEFAULT_FLAGS :: next_upstream_flags where
  "DEFAULT_FLAGS = ERROR OR TIMEOUT"

definition OFF_FLAGS :: next_upstream_flags where
  "OFF_FLAGS = 0"

definition contains_flag :: "next_upstream_flags \<Rightarrow> u16 \<Rightarrow> bool" where
  "contains_flag flags flag = (flags AND flag \<noteq> 0)"

definition is_off :: "next_upstream_flags \<Rightarrow> bool" where
  "is_off flags = (flags = 0)"

definition matches_status :: "next_upstream_flags \<Rightarrow> u16 \<Rightarrow> bool" where
  "matches_status flags status =
     (if status = 502 then contains_flag flags HTTP_502
      else if status = 503 then contains_flag flags HTTP_503
      else if status = 504 then contains_flag flags HTTP_504
      else if status = 429 then contains_flag flags HTTP_429
      else False)"

definition allows_non_idempotent :: "next_upstream_flags \<Rightarrow> bool" where
  "allows_non_idempotent flags = contains_flag flags NON_IDEMPOTENT"

fun flag_of :: "next_upstream_condition \<Rightarrow> u16" where
  "flag_of Error = ERROR"
| "flag_of Timeout = TIMEOUT"
| "flag_of Http502 = HTTP_502"
| "flag_of Http503 = HTTP_503"
| "flag_of Http504 = HTTP_504"
| "flag_of Http429 = HTTP_429"
| "flag_of NonIdempotent = NON_IDEMPOTENT"
| "flag_of InvalidHeader = INVALID_HEADER"
| "flag_of Off = 0"

definition compile_flags :: "next_upstream_condition list \<Rightarrow> next_upstream_flags" where
  "compile_flags conditions =
     (if conditions = [] then DEFAULT_FLAGS
      else if Off \<in> set conditions then OFF_FLAGS
      else foldl (\<lambda>bits c. bits OR flag_of c) 0 conditions)"

definition is_idempotent :: "string \<Rightarrow> bool" where
  "is_idempotent meth =
     (meth \<in> {''GET'', ''HEAD'', ''PUT'', ''DELETE'', ''OPTIONS'', ''TRACE''})"

definition should_retry_error :: "anyhow_error \<Rightarrow> next_upstream_flags \<Rightarrow> bool" where
  "should_retry_error err flags =
     (if is_off flags then False
      else (case err of
          Proxy pe \<Rightarrow>
            (case pe of
               ConnRefused _ \<Rightarrow> contains_flag flags ERROR
             | ConnReset _ \<Rightarrow> contains_flag flags ERROR
             | TlsHandshake _ _ \<Rightarrow> contains_flag flags ERROR
             | Io _ _ \<Rightarrow> contains_flag flags ERROR
             | ConnTimeout _ _ \<Rightarrow> contains_flag flags TIMEOUT
             | ReadTimeout _ _ \<Rightarrow> contains_flag flags TIMEOUT
             | WriteTimeout _ _ \<Rightarrow> contains_flag flags TIMEOUT
             | TtfbTimeout _ \<Rightarrow> contains_flag flags TIMEOUT
             | InvalidResponse _ _ \<Rightarrow> contains_flag flags INVALID_HEADER
             | BadGateway _ _ \<Rightarrow> False
             | NoAvailableUpstream _ \<Rightarrow> False)
        | Other _ \<Rightarrow> contains_flag flags ERROR))"

section \<open>Specification\<close>

text \<open>
  The conditions a configuration enables, as a set, and the condition each failure belongs to:
  what the compiled flags have to agree with.
\<close>

definition enabled :: "next_upstream_condition list \<Rightarrow> next_upstream_condition set" where
  "enabled cs = (if cs = [] then {Error, Timeout} else if Off \<in> set cs then {} else set cs)"

fun error_condition :: "anyhow_error \<Rightarrow> next_upstream_condition option" where
  "error_condition (Proxy (ConnTimeout _ _)) = Some Timeout"
| "error_condition (Proxy (ReadTimeout _ _)) = Some Timeout"
| "error_condition (Proxy (WriteTimeout _ _)) = Some Timeout"
| "error_condition (Proxy (TtfbTimeout _)) = Some Timeout"
| "error_condition (Proxy (InvalidResponse _ _)) = Some InvalidHeader"
| "error_condition (Proxy (BadGateway _ _)) = None"
| "error_condition (Proxy (NoAvailableUpstream _)) = None"
| "error_condition _ = Some Error"

definition status_condition :: "u16 \<Rightarrow> next_upstream_condition option" where
  "status_condition s = map_of [(502, Http502), (503, Http503), (504, Http504), (429, Http429)] s"

text \<open>The bits of two conditions are disjoint, so a flag word is a set of conditions.\<close>

lemma flag_of_disjoint: "(flag_of c AND flag_of d \<noteq> 0) = (c = d \<and> c \<noteq> Off)"
  by (cases c; cases d) (simp_all add: flag_defs)

lemma contains_foldl:
  "contains_flag (foldl (\<lambda>bits c. bits OR flag_of c) b cs) f
     = (contains_flag b f \<or> (\<exists>c\<in>set cs. contains_flag (flag_of c) f))"
proof (induction cs arbitrary: b)
  case (Cons c cs)
  have "contains_flag (b OR flag_of c) f = (contains_flag b f \<or> contains_flag (flag_of c) f)"
    by (simp add: contains_flag_def bit.conj_disj_distrib2 or_eq_0_iff)
  with Cons.IH show ?case by auto
qed simp

lemma contains_compile:
  assumes "c \<noteq> Off"
  shows "contains_flag (compile_flags cs) (flag_of c) = (c \<in> enabled cs)"
proof -
  have "contains_flag DEFAULT_FLAGS (flag_of c) = (c = Error \<or> c = Timeout)"
    by (cases c) (simp_all add: contains_flag_def DEFAULT_FLAGS_def flag_defs assms)
  moreover have "\<not> contains_flag 0 (flag_of c)" by (simp add: contains_flag_def)
  moreover have "contains_flag (flag_of d) (flag_of c) = (d = c)" for d
    using flag_of_disjoint [of d c] assms by (auto simp: contains_flag_def)
  ultimately show ?thesis
    by (auto simp: compile_flags_def enabled_def OFF_FLAGS_def contains_foldl)
qed

lemmas contains_conditions =
  contains_compile [of Error, simplified] contains_compile [of Timeout, simplified]
  contains_compile [of Http502, simplified] contains_compile [of Http503, simplified]
  contains_compile [of Http504, simplified] contains_compile [of Http429, simplified]
  contains_compile [of NonIdempotent, simplified] contains_compile [of InvalidHeader, simplified]

lemma off_enabled: "is_off (compile_flags cs) \<Longrightarrow> c \<noteq> Off \<Longrightarrow> c \<notin> enabled cs"
  using contains_compile [of c cs] by (simp add: is_off_def contains_flag_def)

text \<open>
  The compiled flags decide exactly as the configured list of conditions reads: an error is
  retried if and only if the condition it belongs to is enabled, a response status if and only
  if its own condition is, non-idempotent methods if and only if they are allowed; an empty list
  means errors and timeouts, and \<open>off\<close> anywhere in the list disables everything.
\<close>

theorem compile_flags_decides:
  "(should_retry_error err (compile_flags cs)
      = (case error_condition err of None \<Rightarrow> False | Some c \<Rightarrow> c \<in> enabled cs)) \<and>
   (matches_status (compile_flags cs) status
      = (case status_condition status of None \<Rightarrow> False | Some c \<Rightarrow> c \<in> enabled cs)) \<and>
   (allows_non_idempotent (compile_flags cs) = (NonIdempotent \<in> enabled cs))"
proof (intro conjI)
  show "should_retry_error err (compile_flags cs)
     = (case error_condition err of None \<Rightarrow> False | Some c \<Rightarrow> c \<in> enabled cs)"
    by (cases err rule: error_condition.cases)
       (auto simp: should_retry_error_def contains_conditions dest: off_enabled)
  show "matches_status (compile_flags cs) status
     = (case status_condition status of None \<Rightarrow> False | Some c \<Rightarrow> c \<in> enabled cs)"
    by (simp add: matches_status_def status_condition_def contains_conditions)
  show "allows_non_idempotent (compile_flags cs) = (NonIdempotent \<in> enabled cs)"
    by (simp add: allows_non_idempotent_def contains_conditions)
qed

end
