(* ===== verification/Location_Match.thy ===== *)
theory Location_Match
  imports Config
begin

text \<open>
  The location table of a site (\<^verbatim>\<open>src/dispatcher/location.rs\<close>, with the priority of
  \<^verbatim>\<open>src/dispatcher/vhost.rs\<close>): compiling a configured location, the three rounds of matching a
  request path, and the proof that together with the sort of \<^verbatim>\<open>SiteInfo::from_config\<close> they
  implement the documented order of precedence over the configured list.

  The regular-expression library is the parameter \<open>path_regex\<close>: building under the size limit,
  matching, and the text of a capture group (\<^verbatim>\<open>captures(..)\<close>, then \<^verbatim>\<open>get(i)\<close>).
\<close>

record 're path_regex =
  pr_build :: "string \<Rightarrow> 're option"
  pr_is_match :: "'re \<Rightarrow> string \<Rightarrow> bool"
  pr_captures :: "'re \<Rightarrow> string \<Rightarrow> (nat \<Rightarrow> string option) option"

datatype 're location_kind =
    ExactPath string
  | PrefixPriority string
  | RegexPath 're
  | PrefixPath

text \<open>
  The connection counter of a location is shared by every clone (\<^verbatim>\<open>Arc<AtomicUsize>\<close>): the record
  holds its address in the store of counters.
\<close>

record 're compiled_location =
  cl_config :: location_config
  cl_kind :: "'re location_kind"
  cl_regex :: "'re option"
  cl_conn_count :: nat
  cl_limit_conn :: nat
  cl_access_rules :: "compiled_access_rule list"

definition location_kind_of :: "'re path_regex \<Rightarrow> string \<Rightarrow> 're location_kind \<times> 're option" where
  "location_kind_of rx path =
     (case strip_prefix path ''~* '' of
        Some p \<Rightarrow>
          (let re = pr_build rx (''(?i)'' @ p)
           in (case re of Some r \<Rightarrow> RegexPath r | None \<Rightarrow> PrefixPath, re))
      | None \<Rightarrow>
     (case strip_prefix path ''~ '' of
        Some p \<Rightarrow>
          (let re = pr_build rx p
           in (case re of Some r \<Rightarrow> RegexPath r | None \<Rightarrow> PrefixPath, re))
      | None \<Rightarrow>
     (case strip_prefix path ''= '' of
        Some p \<Rightarrow> (ExactPath p, None)
      | None \<Rightarrow>
     (case strip_prefix path ''^~ '' of
        Some p \<Rightarrow> (PrefixPriority p, None)
      | None \<Rightarrow> (PrefixPath, None)))))"

definition compiled_location_new :: "'re path_regex \<Rightarrow> nat \<Rightarrow> location_config \<Rightarrow> 're compiled_location" where
  "compiled_location_new rx counter cfg =
     (let (kind, re) = location_kind_of rx (loc_path cfg)
      in \<lparr>cl_config = cfg, cl_kind = kind, cl_regex = re, cl_conn_count = counter,
          cl_limit_conn = loc_limit_conn cfg, cl_access_rules = compile_rules (loc_access_rules cfg)\<rparr>)"

definition location_priority :: "string \<Rightarrow> u8" where
  "location_priority path =
     (if starts_with path ''= '' then 1
      else if starts_with path ''^~ '' then 2
      else if starts_with path ''~ '' \<or> starts_with path ''~* '' then 3
      else 4)"

section \<open>Matching\<close>

fun round_one :: "'re location_kind \<Rightarrow> string \<Rightarrow> bool" where
  "round_one (ExactPath p) path = (p = path)"
| "round_one (PrefixPriority p) path = starts_with path p"
| "round_one _ path = False"

fun round_two :: "'re path_regex \<Rightarrow> 're location_kind \<Rightarrow> string \<Rightarrow> bool" where
  "round_two rx (RegexPath re) path = pr_is_match rx re path"
| "round_two rx _ path = False"

definition round_three ::
  "string \<Rightarrow> 're compiled_location \<Rightarrow> ('re compiled_location \<times> nat) option \<Rightarrow> ('re compiled_location \<times> nat) option" where
  "round_three path cl best =
     (case cl_kind cl of
        PrefixPath \<Rightarrow>
          (let p = loc_path (cl_config cl)
           in if starts_with path p then
                (let len = length p
                 in if (case best of None \<Rightarrow> True | Some (_, bl) \<Rightarrow> bl < len) then Some (cl, len) else best)
              else best)
      | _ \<Rightarrow> best)"

definition match_location :: "'re path_regex \<Rightarrow> 're compiled_location list \<Rightarrow> string \<Rightarrow> 're compiled_location option" where
  "match_location rx locs path =
     (case find (\<lambda>cl. round_one (cl_kind cl) path) locs of
        Some cl \<Rightarrow> Some cl
      | None \<Rightarrow>
     (case find (\<lambda>cl. round_two rx (cl_kind cl) path) locs of
        Some cl \<Rightarrow> Some cl
      | None \<Rightarrow> map_option fst (fold (round_three path) locs None)))"

text \<open>
  The locations of a site as \<^verbatim>\<open>SiteInfo::from_config\<close> builds them: a site with a root and no
  location gets a static one, the counters are fresh from address \<open>base\<close> on, and the list is
  sorted by priority (the sort is stable).
\<close>

definition effective_locations :: "site_config \<Rightarrow> location_config list" where
  "effective_locations cfg =
     (if locations cfg = [] \<and> site_root cfg \<noteq> None
      then [default_location_config\<lparr>loc_path := ''/'', loc_handler := Static\<rparr>]
      else locations cfg)"

definition compile_locations :: "'re path_regex \<Rightarrow> nat \<Rightarrow> location_config list \<Rightarrow> 're compiled_location list" where
  "compile_locations rx base cfgs =
     sort_key (\<lambda>cl. location_priority (loc_path (cl_config cl)))
       (map (\<lambda>(i, cfg). compiled_location_new rx (base + i) cfg) (enumerate 0 cfgs))"

section \<open>The documented precedence\<close>

text \<open>
  The order the documentation promises, over the configured list: an exact location, else the
  first \<^verbatim>\<open>^~\<close> prefix, else the first regular expression that matches, else the longest plain
  prefix.
\<close>

definition exact_for :: "string \<Rightarrow> location_config \<Rightarrow> bool" where
  "exact_for path c = (loc_path c = ''= '' @ path)"

definition priority_for :: "string \<Rightarrow> location_config \<Rightarrow> bool" where
  "priority_for path c = (case strip_prefix (loc_path c) ''^~ '' of Some p \<Rightarrow> starts_with path p | None \<Rightarrow> False)"

definition regex_for :: "'re path_regex \<Rightarrow> string \<Rightarrow> location_config \<Rightarrow> bool" where
  "regex_for rx path c =
     (case strip_prefix (loc_path c) ''~* '' of
        Some p \<Rightarrow> (case pr_build rx (''(?i)'' @ p) of Some re \<Rightarrow> pr_is_match rx re path | None \<Rightarrow> False)
      | None \<Rightarrow> (case strip_prefix (loc_path c) ''~ '' of
          Some p \<Rightarrow> (case pr_build rx p of Some re \<Rightarrow> pr_is_match rx re path | None \<Rightarrow> False)
        | None \<Rightarrow> False))"

definition plain_for :: "string \<Rightarrow> location_config \<Rightarrow> bool" where
  "plain_for path c = starts_with path (loc_path c)"

definition best_location :: "'re path_regex \<Rightarrow> location_config list \<Rightarrow> string \<Rightarrow> location_config option" where
  "best_location rx cfgs path =
     (if list_ex (exact_for path) cfgs then find (exact_for path) cfgs
      else if list_ex (priority_for path) cfgs then find (priority_for path) cfgs
      else if list_ex (regex_for rx path) cfgs then find (regex_for rx path) cfgs
      else find (\<lambda>c. plain_for path c \<and>
        list_all (\<lambda>d. plain_for path d \<longrightarrow> length (loc_path d) \<le> length (loc_path c)) cfgs) cfgs)"

section \<open>The rounds in terms of the configuration\<close>

lemma strip_prefix_eq_None_Cons [simp]: "x \<noteq> y \<Longrightarrow> strip_prefix (x # xs) (y # ys) = None"
  by simp

lemma kind_round_one:
  "round_one (fst (location_kind_of rx (loc_path c))) path = (exact_for path c \<or> priority_for path c)"
  by (auto simp: location_kind_of_def exact_for_def priority_for_def strip_prefix_eq_Some strip_prefix_eq_None
      Let_def starts_with_iff split: option.splits)

lemma kind_round_two:
  "round_two rx (fst (location_kind_of rx (loc_path c))) path = regex_for rx path c"
  by (auto simp: location_kind_of_def regex_for_def Let_def split: option.splits)

lemma priority_exact: "exact_for path c \<Longrightarrow> location_priority (loc_path c) = 1"
  by (simp add: exact_for_def location_priority_def)

lemma priority_priority: "priority_for path c \<Longrightarrow> location_priority (loc_path c) = 2"
  by (auto simp: priority_for_def location_priority_def strip_prefix_eq_Some split: option.splits)

lemma priority_regex: "regex_for rx path c \<Longrightarrow> location_priority (loc_path c) = 3"
  by (auto simp: regex_for_def location_priority_def strip_prefix_eq_Some split: option.splits)

lemma plain_kind:
  assumes "plain_for (CHR ''/'' # rest) c"
  shows "fst (location_kind_of rx (loc_path c)) = PrefixPath \<and> location_priority (loc_path c) = 4"
proof (cases "loc_path c")
  case Nil
  then show ?thesis by (simp add: location_kind_of_def location_priority_def)
next
  case (Cons x xs)
  with assms have "x = CHR ''/''" by (auto simp: plain_for_def)
  with Cons show ?thesis by (simp add: location_kind_of_def location_priority_def)
qed

lemma fold_round_three:
  "fold (round_three path) locs best
     = fold (round_three path)
         (filter (\<lambda>cl. cl_kind cl = PrefixPath \<and> plain_for path (cl_config cl)) locs) best"
  by (induction locs arbitrary: best) (auto simp: round_three_def plain_for_def split: location_kind.splits)

lemma round_three_plain:
  assumes "cl_kind x = PrefixPath" and "starts_with path (loc_path (cl_config x))"
  shows "round_three path x best
    = (if \<forall>cl bl. best = Some (cl, bl) \<longrightarrow> bl < length (loc_path (cl_config x))
       then Some (x, length (loc_path (cl_config x))) else best)"
  using assms by (auto simp: round_three_def Let_def split: option.splits prod.splits)

text \<open>The running best of the third round is the first of the longest prefixes seen so far.\<close>

lemma fold_longest:
  assumes "\<forall>cl\<in>set locs. cl_kind cl = PrefixPath \<and> plain_for path (cl_config cl)"
  shows "map_option fst (fold (round_three path) locs None)
    = find (\<lambda>cl. \<forall>d\<in>set locs. length (loc_path (cl_config d)) \<le> length (loc_path (cl_config cl))) locs
    \<and> (\<forall>cl n. fold (round_three path) locs None = Some (cl, n) \<longrightarrow> n = length (loc_path (cl_config cl)))
    \<and> (fold (round_three path) locs None = None \<longrightarrow> locs = [])"
  using assms
proof (induction locs rule: rev_induct)
  case Nil
  then show ?case by simp
next
  case (snoc x xs)
  let ?len = "\<lambda>cl. length (loc_path (cl_config cl))"
  let ?top = "\<lambda>ys cl. \<forall>d\<in>set ys. ?len d \<le> ?len cl"
  have x: "cl_kind x = PrefixPath" "starts_with path (loc_path (cl_config x))"
    using snoc.prems by (auto simp: plain_for_def)
  have IH: "map_option fst (fold (round_three path) xs None) = find (?top xs) xs"
      "\<And>cl n. fold (round_three path) xs None = Some (cl, n) \<Longrightarrow> n = ?len cl"
      "fold (round_three path) xs None = None \<Longrightarrow> xs = []"
    using snoc by auto
  show ?case
  proof (cases "fold (round_three path) xs None")
    case None
    with IH show ?thesis using x by (simp add: round_three_plain)
  next
    case (Some b)
    obtain cl n where b: "b = (cl, n)" by (cases b)
    with Some IH have n: "n = ?len cl" and top: "find (?top xs) xs = Some cl" by simp_all
    then have cl: "cl \<in> set xs" "?top xs cl" by (blast dest: find_SomeD)+
    show ?thesis
    proof (cases "?len cl < ?len x")
      case True
      then have "find (?top (xs @ [x])) xs = None" and "?top (xs @ [x]) x"
        using cl by (force simp: find_None_all, force)
      then show ?thesis using True Some b n x by (simp add: round_three_plain find_append)
    next
      case False
      then have "find (?top (xs @ [x])) xs = find (?top xs) xs"
        using cl by (intro find_cong) (auto intro: order_trans)
      then show ?thesis using False Some b n x top by (simp add: round_three_plain find_append)
    qed
  qed
qed

section \<open>Precedence of the compiled table\<close>

lemma compiled_location_new_simps [simp]:
  "cl_config (compiled_location_new rx n c) = c"
  "cl_kind (compiled_location_new rx n c) = fst (location_kind_of rx (loc_path c))"
  "cl_limit_conn (compiled_location_new rx n c) = loc_limit_conn c"
  "cl_access_rules (compiled_location_new rx n c) = compile_rules (loc_access_rules c)"
  "cl_conn_count (compiled_location_new rx n c) = n"
  by (simp_all add: compiled_location_new_def split: prod.split)

definition unsorted_locations :: "'re path_regex \<Rightarrow> nat \<Rightarrow> location_config list \<Rightarrow> 're compiled_location list" where
  "unsorted_locations rx base cfgs = map (\<lambda>(i, cfg). compiled_location_new rx (base + i) cfg) (enumerate 0 cfgs)"

lemma unsorted_configs: "map cl_config (unsorted_locations rx base cfgs) = cfgs"
proof -
  have "map cl_config (unsorted_locations rx base cfgs) = map snd (enumerate 0 cfgs)"
    by (simp add: unsorted_locations_def comp_def split_def)
  then show ?thesis by simp
qed

lemma unsorted_kind:
  "cl \<in> set (unsorted_locations rx base cfgs) \<Longrightarrow> cl_kind cl = fst (location_kind_of rx (loc_path (cl_config cl)))"
  by (auto simp: unsorted_locations_def)

lemma find_configs:
  "map_option cl_config (find (\<lambda>cl. q (cl_config cl)) (unsorted_locations rx base cfgs)) = find q cfgs"
  by (metis find_map unsorted_configs)

lemma find_unsorted_cong:
  assumes "\<And>cl. cl_kind cl = fst (location_kind_of rx (loc_path (cl_config cl))) \<Longrightarrow> p cl = q (cl_config cl)"
  shows "map_option cl_config (find p (unsorted_locations rx base cfgs)) = find q cfgs"
proof -
  have "find p (unsorted_locations rx base cfgs) = find (\<lambda>cl. q (cl_config cl)) (unsorted_locations rx base cfgs)"
    by (rule find_cong) (auto simp: assms unsorted_kind)
  then show ?thesis by (simp add: find_configs)
qed

lemma ball_configs: "(\<forall>cl\<in>set (unsorted_locations rx base cfgs). q (cl_config cl)) = (\<forall>c\<in>set cfgs. q c)"
  by (metis (no_types) imageE imageI list.set_map unsorted_configs)

lemma compile_locations_unsorted:
  "compile_locations rx base cfgs
    = sort_key (\<lambda>cl. location_priority (loc_path (cl_config cl))) (unsorted_locations rx base cfgs)"
  by (simp add: compile_locations_def unsorted_locations_def)

lemma round_one_compiled:
  "map_option cl_config (find (\<lambda>cl. round_one (cl_kind cl) path) (compile_locations rx base cfgs))
    = (if list_ex (exact_for path) cfgs then find (exact_for path) cfgs else find (priority_for path) cfgs)"
proof (cases "list_ex (exact_for path) cfgs")
  case True
  let ?L = "unsorted_locations rx base cfgs" and ?k = "\<lambda>cl. location_priority (loc_path (cl_config cl))"
  have "\<not> (\<forall>cl\<in>set ?L. \<not> exact_for path (cl_config cl))"
    using True unfolding ball_configs [of rx base cfgs "\<lambda>c. \<not> exact_for path c"] by (simp add: list_ex_iff)
  then have "find (\<lambda>cl. round_one (cl_kind cl) path) (sort_key ?k ?L)
      = find (\<lambda>cl. round_one (cl_kind cl) path \<and> ?k cl = 1) ?L"
    by (intro find_sort_key_level)
      (auto simp: unsorted_kind kind_round_one dest: priority_exact priority_priority)
  moreover have "map_option cl_config (find (\<lambda>cl. round_one (cl_kind cl) path \<and> ?k cl = 1) ?L)
      = find (exact_for path) cfgs"
    by (rule find_unsorted_cong) (auto simp: kind_round_one dest: priority_exact priority_priority)
  ultimately show ?thesis using True by (simp add: compile_locations_unsorted)
next
  case False
  let ?L = "unsorted_locations rx base cfgs" and ?k = "\<lambda>cl. location_priority (loc_path (cl_config cl))"
  have no: "\<forall>cl\<in>set ?L. \<not> exact_for path (cl_config cl)"
    using False unfolding ball_configs [of rx base cfgs "\<lambda>c. \<not> exact_for path c"] by (simp add: list_ex_iff)
  then have "find (\<lambda>cl. round_one (cl_kind cl) path) (sort_key ?k ?L) = find (\<lambda>cl. round_one (cl_kind cl) path) ?L"
    by (intro find_sort_key_same) (auto simp: unsorted_kind kind_round_one dest: priority_priority)
  also have "\<dots> = find (\<lambda>cl. priority_for path (cl_config cl)) ?L"
    using no by (intro find_cong) (auto simp: unsorted_kind kind_round_one)
  finally show ?thesis using False by (simp add: compile_locations_unsorted find_configs)
qed

lemma round_two_compiled:
  "map_option cl_config (find (\<lambda>cl. round_two rx (cl_kind cl) path) (compile_locations rx base cfgs))
    = find (regex_for rx path) cfgs"
proof -
  let ?L = "unsorted_locations rx base cfgs" and ?k = "\<lambda>cl. location_priority (loc_path (cl_config cl))"
  have "find (\<lambda>cl. round_two rx (cl_kind cl) path) (sort_key ?k ?L) = find (\<lambda>cl. round_two rx (cl_kind cl) path) ?L"
    by (intro find_sort_key_same) (auto simp: unsorted_kind kind_round_two dest: priority_regex)
  moreover have "map_option cl_config (find (\<lambda>cl. round_two rx (cl_kind cl) path) ?L) = find (regex_for rx path) cfgs"
    by (rule find_unsorted_cong) (simp add: kind_round_two)
  ultimately show ?thesis by (simp add: compile_locations_unsorted)
qed

lemma round_three_compiled:
  assumes path: "path = CHR ''/'' # rest"
  shows "map_option cl_config (map_option fst (fold (round_three path) (compile_locations rx base cfgs) None))
    = find (\<lambda>c. plain_for path c \<and>
        list_all (\<lambda>d. plain_for path d \<longrightarrow> length (loc_path d) \<le> length (loc_path c)) cfgs) cfgs"
proof -
  let ?L = "unsorted_locations rx base cfgs" and ?k = "\<lambda>cl. location_priority (loc_path (cl_config cl))"
  let ?len = "\<lambda>cl. length (loc_path (cl_config cl))"
  have same: "filter (\<lambda>cl. cl_kind cl = PrefixPath \<and> plain_for path (cl_config cl)) (sort_key ?k ?L)
      = filter (\<lambda>cl. plain_for path (cl_config cl)) ?L"
  proof -
    have "filter (\<lambda>cl. cl_kind cl = PrefixPath \<and> plain_for path (cl_config cl)) (sort_key ?k ?L)
        = filter (\<lambda>cl. plain_for path (cl_config cl)) (sort_key ?k ?L)"
      by (rule filter_cong) (auto simp: unsorted_kind path dest: plain_kind)
    also have "\<dots> = filter (\<lambda>cl. plain_for path (cl_config cl)) ?L"
      by (rule filter_sort_key_same [where c = 4]) (auto simp: path dest: plain_kind)
    finally show ?thesis .
  qed
  let ?P = "filter (\<lambda>cl. plain_for path (cl_config cl)) ?L"
  have all: "(\<forall>cl\<in>set ?P. ?len cl \<le> n) = (\<forall>d\<in>set cfgs. plain_for path d \<longrightarrow> length (loc_path d) \<le> n)" for n
    using ball_configs [of rx base cfgs "\<lambda>d. plain_for path d \<longrightarrow> length (loc_path d) \<le> n"] by auto
  have "\<forall>cl\<in>set ?P. cl_kind cl = PrefixPath \<and> plain_for path (cl_config cl)"
    by (auto simp: unsorted_kind path dest: plain_kind)
  then have "map_option fst (fold (round_three path) ?P None) = find (\<lambda>cl. \<forall>d\<in>set ?P. ?len d \<le> ?len cl) ?P"
    by (blast dest: fold_longest)
  also have "\<dots> = find (\<lambda>cl. plain_for path (cl_config cl) \<and>
      list_all (\<lambda>d. plain_for path d \<longrightarrow> length (loc_path d) \<le> ?len cl) cfgs) ?L"
    unfolding find_filter list_all_iff by (simp only: all)
  finally show ?thesis
    unfolding compile_locations_unsorted fold_round_three [of path "sort_key ?k ?L"] same
    by (simp only: find_configs [where q = "\<lambda>c. plain_for path c \<and>
      list_all (\<lambda>d. plain_for path d \<longrightarrow> length (loc_path d) \<le> length (loc_path c)) cfgs"])
qed

text \<open>
  C5: the location that serves a request is the documented one: over the locations as they are
  configured, an exact match, else the first priority prefix, else the first matching regular
  expression, else the longest plain prefix (the first, if it is configured twice), for every
  path that starts with a slash.
\<close>

theorem match_location_precedence:
  assumes "path = CHR ''/'' # rest"
  shows "map_option cl_config (match_location rx (compile_locations rx base cfgs) path) = best_location rx cfgs path"
proof -
  let ?C = "compile_locations rx base cfgs"
  let ?one = "find (\<lambda>cl. round_one (cl_kind cl) path) ?C" and ?two = "find (\<lambda>cl. round_two rx (cl_kind cl) path) ?C"
  have ex: "(list_ex q cfgs) = (find q cfgs \<noteq> None)" for q
    by (simp add: list_ex_iff find_None_all)
  show ?thesis
    using round_one_compiled [of path rx base cfgs] round_two_compiled [of rx path base cfgs]
      round_three_compiled [OF assms, of rx base cfgs]
    unfolding match_location_def best_location_def ex
    by (cases ?one; cases ?two) (auto split: if_splits)
qed

definition demo_rx :: "string path_regex" where
  "demo_rx = \<lparr>pr_build = (\<lambda>p. if p = ''('' then None else Some p), pr_is_match = (\<lambda>re s. contains_sub s re),
     pr_captures = (\<lambda>re s. if contains_sub s re then Some (\<lambda>i. if i = 0 then Some re else None) else None)\<rparr>"

definition demo_loc_at :: "string \<Rightarrow> location_config" where
  "demo_loc_at p = default_location_config\<lparr>loc_path := p\<rparr>"

theorem match_location_precedence_witness:
  "map_option (\<lambda>cl. loc_path (cl_config cl))
      (match_location demo_rx (compile_locations demo_rx 0
        (map demo_loc_at [''/'', ''/img/'', ''~ .php'', ''^~ /img/static/'', ''= /img/a.php'', ''~ (''])) ''/img/a.png'')
    = Some ''/img/'' \<and>
   map_option (\<lambda>cl. loc_path (cl_config cl))
      (match_location demo_rx (compile_locations demo_rx 0
        (map demo_loc_at [''/'', ''/img/'', ''~ .php'', ''^~ /img/static/'', ''= /img/a.php'', ''~ (''])) ''/img/b.php'')
    = Some ''~ .php''"
proof -
  let ?cfgs = "map demo_loc_at [''/'', ''/img/'', ''~ .php'', ''^~ /img/static/'', ''= /img/a.php'', ''~ ('']"
  note prec = match_location_precedence [OF refl, of demo_rx 0 ?cfgs]
  have "best_location demo_rx ?cfgs ''/img/a.png'' = Some (demo_loc_at ''/img/'')"
    by (simp add: best_location_def exact_for_def priority_for_def regex_for_def plain_for_def demo_rx_def demo_loc_at_def)
  moreover have "best_location demo_rx ?cfgs ''/img/b.php'' = Some (demo_loc_at ''~ .php'')"
    by (simp add: best_location_def exact_for_def priority_for_def regex_for_def plain_for_def demo_rx_def demo_loc_at_def)
  ultimately show ?thesis
    using prec [of "''img/a.png''"] prec [of "''img/b.php''"]
    by (auto simp: demo_loc_at_def map_option_case split: option.splits)
qed

end
