(* ===== verification/Rewrite.thy ===== *)
theory Rewrite
  imports Location_Match "HOL-Library.AList"
begin

text \<open>
  The rewrite engine (\<^verbatim>\<open>src/dispatcher/rewrite.rs\<close>) and what the router makes of its result
  (\<^verbatim>\<open>src/server/router.rs\<close>): compiled rules, the file conditions with the global cache of file
  metadata, capture-group substitution, and the redirect marker put in front of a path.

  The file system is a function of time, \<open>fs t p\<close>, giving whether a path is a file, a directory
  and executable (\<^verbatim>\<open>None\<close>: no such path); times are nanoseconds of the monotonic clock.
\<close>

type_synonym file_system = "nat \<Rightarrow> string \<Rightarrow> (bool \<times> bool \<times> bool) option"

section \<open>The metadata cache\<close>

record cached_meta =
  cm_exists :: bool
  cm_is_file :: bool
  cm_is_dir :: bool
  cm_is_executable :: bool
  cm_cached_at :: nat

definition POSITIVE_TTL_SECS :: nat where "POSITIVE_TTL_SECS = 5"
definition NEGATIVE_TTL_SECS :: nat where "NEGATIVE_TTL_SECS = 1"
definition CLEANUP_THRESHOLD :: nat where "CLEANUP_THRESHOLD = 50000"
definition CLEANUP_INTERVAL :: u64 where "CLEANUP_INTERVAL = 1024"

record meta_state =
  meta_cache :: "(string \<times> cached_meta) list"
  miss_counter :: u64

definition meta_fresh :: "nat \<Rightarrow> cached_meta \<Rightarrow> bool" where
  "meta_fresh now m =
     ((now - cm_cached_at m) div 1000000000 < (if cm_exists m then POSITIVE_TTL_SECS else NEGATIVE_TTL_SECS))"

definition stat_uncached :: "file_system \<Rightarrow> nat \<Rightarrow> string \<Rightarrow> cached_meta" where
  "stat_uncached fs now path =
     (case fs now path of
        Some (f, d, x) \<Rightarrow>
          \<lparr>cm_exists = True, cm_is_file = f, cm_is_dir = d, cm_is_executable = x, cm_cached_at = now\<rparr>
      | None \<Rightarrow>
          \<lparr>cm_exists = False, cm_is_file = False, cm_is_dir = False, cm_is_executable = False, cm_cached_at = now\<rparr>)"

definition stat_miss :: "file_system \<Rightarrow> nat \<Rightarrow> string \<Rightarrow> meta_state \<Rightarrow> cached_meta \<times> meta_state" where
  "stat_miss fs now path st =
     (let meta = stat_uncached fs now path;
          cache = AList.update path meta (meta_cache st);
          n = miss_counter st;
          cache' = (if n mod CLEANUP_INTERVAL = 0 \<and> CLEANUP_THRESHOLD < length cache
                    then filter (\<lambda>(_, v). meta_fresh now v) cache else cache)
      in (meta, \<lparr>meta_cache = cache', miss_counter = n + 1\<rparr>))"

definition stat_cached :: "file_system \<Rightarrow> nat \<Rightarrow> string \<Rightarrow> meta_state \<Rightarrow> cached_meta \<times> meta_state" where
  "stat_cached fs now path st =
     (if \<not> utf8_ok path then (stat_uncached fs now path, st)
      else (case map_of (meta_cache st) path of
          Some entry \<Rightarrow> if meta_fresh now entry then (entry, st) else stat_miss fs now path st
        | None \<Rightarrow> stat_miss fs now path st))"

definition invalidate_meta_cache :: "string \<Rightarrow> meta_state \<Rightarrow> meta_state" where
  "invalidate_meta_cache path st =
     (if utf8_ok path then st\<lparr>meta_cache := AList.delete path (meta_cache st)\<rparr> else st)"

definition clear_meta_cache :: "meta_state \<Rightarrow> meta_state" where
  "clear_meta_cache st = st\<lparr>meta_cache := []\<rparr>"

section \<open>Rules\<close>

record 're compiled_rewrite =
  rewrite_of :: rewrite_rule
  rewrite_re :: 're

definition compiled_rewrite_new :: "'re path_regex \<Rightarrow> rewrite_rule \<Rightarrow> 're compiled_rewrite option" where
  "compiled_rewrite_new rx rule =
     (case pr_build rx (rw_pattern rule) of
        Some re \<Rightarrow> Some \<lparr>rewrite_of = rule, rewrite_re = re\<rparr>
      | None \<Rightarrow> None)"

definition check_meta :: "string \<Rightarrow> cached_meta \<Rightarrow> bool" where
  "check_meta check meta =
     (if check = ''-f'' then cm_exists meta \<and> cm_is_file meta
      else if check = ''-d'' then cm_exists meta \<and> cm_is_dir meta
      else if check = ''-e'' then cm_exists meta
      else if check = ''-x'' then cm_exists meta \<and> cm_is_file meta \<and> cm_is_executable meta
      else False)"

text \<open>The file a condition looks at: \<^verbatim>\<open>None\<close> for a relative path with a \<^verbatim>\<open>..\<close> segment.\<close>

definition condition_file :: "string \<Rightarrow> string \<Rightarrow> string option" where
  "condition_file root path =
     (let path_only = hd (split_on CHR ''?'' path);
          relative = trim_start_matches (\<lambda>c. c = CHR ''/'') path_only
      in if relative = [] then Some root
         else if ''..'' \<in> set (split_by (\<lambda>c. c = CHR ''/'' \<or> c = CHR 0x5C) relative) then None
         else Some (path_join root relative))"

definition evaluate_condition ::
  "file_system \<Rightarrow> nat \<Rightarrow> string \<Rightarrow> string \<Rightarrow> string option \<Rightarrow> meta_state \<Rightarrow> bool \<times> meta_state" where
  "evaluate_condition fs now condition path doc_root st =
     (let cond = trim condition;
          negated = starts_with cond ''!'';
          check = (if negated then drop 1 cond else cond)
      in if check \<in> {''-f'', ''-d'', ''-e'', ''-x''} then
           (case doc_root of
              Some root \<Rightarrow>
                (case condition_file root path of
                   None \<Rightarrow> (negated, st)
                 | Some full_path \<Rightarrow>
                     (case stat_cached fs now full_path st of
                        (meta, st') \<Rightarrow> (if negated then \<not> check_meta check meta else check_meta check meta, st')))
            | None \<Rightarrow> (negated, st))
         else (False, st))"

definition subst_group :: "(nat \<Rightarrow> string option) \<Rightarrow> nat \<Rightarrow> string \<Rightarrow> string" where
  "subst_group caps i result =
     (let placeholder = CHR ''$'' # dec i
      in if contains_sub result placeholder
         then str_replace placeholder (unwrap_or (caps i) []) result
         else result)"

definition regex_replace :: "'re path_regex \<Rightarrow> 're \<Rightarrow> string \<Rightarrow> string \<Rightarrow> string" where
  "regex_replace rx re input template =
     (case pr_captures rx re input of
        Some caps \<Rightarrow>
          (let r0 = (case caps 0 of Some m \<Rightarrow> str_replace ''$0'' m template | None \<Rightarrow> template)
           in fold (subst_group caps) [1..<10] r0)
      | None \<Rightarrow> input)"

definition redirect_mark :: "rewrite_flag \<Rightarrow> string" where
  "redirect_mark flag = ''REDIRECT:'' @ dec (if flag = Permanent then 301 else 302) @ '':''"

text \<open>The loop over the rules; \<open>clk\<close> gives the time at which each rule's condition is tested.\<close>

fun apply_rewrites ::
  "'re path_regex \<Rightarrow> file_system \<Rightarrow> (nat \<Rightarrow> nat) \<Rightarrow> 're compiled_rewrite list \<Rightarrow> string \<Rightarrow> string option
     \<Rightarrow> meta_state \<Rightarrow> string option \<times> meta_state" where
  "apply_rewrites rx fs clk [] current doc_root st = (None, st)"
| "apply_rewrites rx fs clk (cr # crs) current doc_root st =
     (case (case rw_condition (rewrite_of cr) of
              Some cond \<Rightarrow> evaluate_condition fs (clk 0) cond current doc_root st
            | None \<Rightarrow> (True, st)) of
        (holds, st') \<Rightarrow>
          if \<not> holds \<or> \<not> pr_is_match rx (rewrite_re cr) current
          then apply_rewrites rx fs (\<lambda>k. clk (Suc k)) crs current doc_root st'
          else
            (let new_path = regex_replace rx (rewrite_re cr) current (rw_target (rewrite_of cr))
             in (case rw_flag (rewrite_of cr) of
                   Last \<Rightarrow> (Some new_path, st')
                 | Break \<Rightarrow> (Some new_path, st')
                 | Redirect \<Rightarrow> (Some (redirect_mark Redirect @ new_path), st')
                 | Permanent \<Rightarrow> (Some (redirect_mark Permanent @ new_path), st'))))"

section \<open>What the router makes of it\<close>

datatype rewrite_outcome = RedirectTo u16 string | ServePath string

definition rewrite_decision :: "string option \<Rightarrow> string \<Rightarrow> rewrite_outcome" where
  "rewrite_decision rewritten path =
     (case rewritten of
        None \<Rightarrow> ServePath path
      | Some rp \<Rightarrow>
          (case strip_prefix rp ''REDIRECT:301:'' of
             Some rest \<Rightarrow> RedirectTo 301 rest
           | None \<Rightarrow>
               (case strip_prefix rp ''REDIRECT:302:'' of
                  Some rest \<Rightarrow> RedirectTo 302 rest
                | None \<Rightarrow> ServePath rp)))"

section \<open>The cache answers with a recent state of the file system\<close>

text \<open>Every entry describes its path at the time it was cached, which is not in the future.\<close>

definition meta_coherent :: "file_system \<Rightarrow> nat \<Rightarrow> meta_state \<Rightarrow> bool" where
  "meta_coherent fs now st =
     (\<forall>(p, m)\<in>set (meta_cache st). cm_cached_at m \<le> now \<and> m = stat_uncached fs (cm_cached_at m) p)"

lemma stat_uncached_cached_at [simp]: "cm_cached_at (stat_uncached fs now path) = now"
  by (auto simp: stat_uncached_def split: option.splits)

lemma meta_coherent_mono: "meta_coherent fs now st \<Longrightarrow> now \<le> now' \<Longrightarrow> meta_coherent fs now' st"
  by (auto simp: meta_coherent_def)

lemma meta_coherent_empty [simp]: "meta_coherent fs now \<lparr>meta_cache = [], miss_counter = n\<rparr>"
  by (simp add: meta_coherent_def)

lemma set_alist_update: "set (AList.update k v xs) \<subseteq> insert (k, v) (set xs)"
  by (induction xs) auto

lemma meta_coherent_miss:
  assumes "meta_coherent fs now st" and "stat_miss fs now path st = (m, st')"
  shows "m = stat_uncached fs now path \<and> meta_coherent fs now st'"
proof -
  let ?c = "AList.update path (stat_uncached fs now path) (meta_cache st)"
  have "set ?c \<subseteq> insert (path, stat_uncached fs now path) (set (meta_cache st))"
    by (rule set_alist_update)
  moreover have "set (filter (\<lambda>(_, v). meta_fresh now v) ?c) \<subseteq> set ?c" by auto
  ultimately show ?thesis
    using assms by (auto simp: stat_miss_def Let_def meta_coherent_def split: if_splits)
qed

text \<open>What a lookup returns is the state of the path at most five seconds ago, or one second ago for a missing path.\<close>

lemma stat_cached_recent:
  assumes "meta_coherent fs now st" and "stat_cached fs now path st = (m, st')"
  shows "\<exists>t\<le>now. m = stat_uncached fs t path \<and> now - t < (if cm_exists m then 5 else 1) * 1000000000 \<and>
    meta_coherent fs now st'"
proof -
  have fresh_now: "?thesis" if "m = stat_uncached fs now path" "meta_coherent fs now st'"
    using that by (intro exI [of _ now]) auto
  show ?thesis
  proof (cases "\<exists>entry. utf8_ok path \<and> map_of (meta_cache st) path = Some entry \<and> meta_fresh now entry")
    case True
    then obtain entry where e: "map_of (meta_cache st) path = Some entry" "meta_fresh now entry" "utf8_ok path" by blast
    then have "m = entry" "st' = st" using assms(2) by (auto simp: stat_cached_def)
    moreover have "cm_cached_at entry \<le> now \<and> entry = stat_uncached fs (cm_cached_at entry) path"
      using assms(1) map_of_SomeD [OF e(1)] by (auto simp: meta_coherent_def)
    moreover have "now - cm_cached_at entry < (if cm_exists entry then 5 else 1) * 1000000000"
      using e(2) by (auto simp: meta_fresh_def POSITIVE_TTL_SECS_def NEGATIVE_TTL_SECS_def split: if_splits)
    ultimately show ?thesis using assms(1) by metis
  next
    case False
    then have "stat_cached fs now path st
        = (if utf8_ok path then stat_miss fs now path st else (stat_uncached fs now path, st))"
      by (cases "map_of (meta_cache st) path") (simp_all add: stat_cached_def)
    then have "m = stat_uncached fs now path \<and> meta_coherent fs now st'"
      using meta_coherent_miss [OF assms(1), of path m st'] assms by (cases "utf8_ok path") auto
    then show ?thesis using fresh_now by blast
  qed
qed

section \<open>The first applicable rule decides\<close>

text \<open>The conditions over one state of the file system, without the cache.\<close>

definition snap_check :: "(bool \<times> bool \<times> bool) option \<Rightarrow> string \<Rightarrow> bool" where
  "snap_check entry check =
     (case entry of
        None \<Rightarrow> False
      | Some (f, d, x) \<Rightarrow>
          if check = ''-f'' then f else if check = ''-d'' then d else if check = ''-e'' then True
          else check = ''-x'' \<and> f \<and> x)"

definition condition_holds :: "(string \<Rightarrow> (bool \<times> bool \<times> bool) option) \<Rightarrow> string option \<Rightarrow> string \<Rightarrow> string \<Rightarrow> bool" where
  "condition_holds snap doc_root path condition =
     (let cond = trim condition; negated = starts_with cond ''!''; check = (if negated then drop 1 cond else cond)
      in check \<in> {''-f'', ''-d'', ''-e'', ''-x''} \<and>
         (negated \<noteq> (\<exists>root file. doc_root = Some root \<and> condition_file root path = Some file \<and>
                      snap_check (snap file) check)))"

lemma check_meta_snap: "check_meta check (stat_uncached fs t p) = snap_check (fs t p) check"
  by (auto simp: check_meta_def snap_check_def stat_uncached_def split: option.splits)

lemma evaluate_condition_snap:
  assumes "meta_coherent (\<lambda>_. snap) now st" and "evaluate_condition (\<lambda>_. snap) now c path root st = (b, st')"
  shows "b = condition_holds snap root path c \<and> meta_coherent (\<lambda>_. snap) now st'"
proof (cases "\<exists>r file. root = Some r \<and> condition_file r path = Some file")
  case True
  then obtain r fl where rf: "root = Some r" "condition_file r path = Some fl" by blast
  obtain m st2 where m: "stat_cached (\<lambda>_. snap) now fl st = (m, st2)" by (cases "stat_cached (\<lambda>_. snap) now fl st")
  then have "meta_coherent (\<lambda>_. snap) now st2" "check_meta check m = snap_check (snap fl) check" for check
    using stat_cached_recent [OF assms(1) m] by (auto simp: check_meta_snap)
  then show ?thesis
    using assms rf m by (auto simp: evaluate_condition_def condition_holds_def Let_def split: if_splits)
next
  case False
  then have "evaluate_condition (\<lambda>_. snap) now c path root st = (condition_holds snap root path c, st)"
    by (auto simp: evaluate_condition_def condition_holds_def Let_def split: option.splits)
  then show ?thesis using assms by auto
qed

definition rule_applies ::
  "'re path_regex \<Rightarrow> (string \<Rightarrow> (bool \<times> bool \<times> bool) option) \<Rightarrow> string option \<Rightarrow> string \<Rightarrow> 're compiled_rewrite \<Rightarrow> bool" where
  "rule_applies rx snap doc_root path cr =
     ((case rw_condition (rewrite_of cr) of None \<Rightarrow> True | Some c \<Rightarrow> condition_holds snap doc_root path c) \<and>
      pr_is_match rx (rewrite_re cr) path)"

definition rewritten_path :: "'re path_regex \<Rightarrow> string \<Rightarrow> 're compiled_rewrite \<Rightarrow> string" where
  "rewritten_path rx path cr = regex_replace rx (rewrite_re cr) path (rw_target (rewrite_of cr))"

definition rewrite_result :: "'re path_regex \<Rightarrow> string \<Rightarrow> 're compiled_rewrite \<Rightarrow> string" where
  "rewrite_result rx path cr =
     (if rw_flag (rewrite_of cr) \<in> {Redirect, Permanent}
      then redirect_mark (rw_flag (rewrite_of cr)) @ rewritten_path rx path cr
      else rewritten_path rx path cr)"

lemma apply_rewrites_find:
  assumes "meta_coherent (\<lambda>_. snap) (clk 0) st" and "\<And>k. clk k \<le> clk (Suc k)"
  shows "fst (apply_rewrites rx (\<lambda>_. snap) clk crs path root st)
    = map_option (rewrite_result rx path) (find (rule_applies rx snap root path) crs)"
  using assms
proof (induction crs arbitrary: clk st)
  case Nil
  then show ?case by simp
next
  case (Cons cr crs)
  obtain b st' where e: "(case rw_condition (rewrite_of cr) of
      Some cond \<Rightarrow> evaluate_condition (\<lambda>_. snap) (clk 0) cond path root st | None \<Rightarrow> (True, st)) = (b, st')"
    by (cases "case rw_condition (rewrite_of cr) of
      Some cond \<Rightarrow> evaluate_condition (\<lambda>_. snap) (clk 0) cond path root st | None \<Rightarrow> (True, st)")
  then have b: "b = (case rw_condition (rewrite_of cr) of None \<Rightarrow> True | Some c \<Rightarrow> condition_holds snap root path c)"
      and st': "meta_coherent (\<lambda>_. snap) (clk 0) st'"
    using Cons.prems(1) evaluate_condition_snap [OF Cons.prems(1)] by (auto split: option.splits)
  have "meta_coherent (\<lambda>_. snap) (clk (Suc 0)) st'"
    using st' Cons.prems(2) by (rule meta_coherent_mono)
  then have "fst (apply_rewrites rx (\<lambda>_. snap) (\<lambda>k. clk (Suc k)) crs path root st')
      = map_option (rewrite_result rx path) (find (rule_applies rx snap root path) crs)"
    using Cons.prems(2) by (intro Cons.IH) auto
  then show ?case using b
    by (cases "rw_flag (rewrite_of cr)")
      (auto simp: e Let_def rule_applies_def [of _ _ _ _ cr]
        rewrite_result_def [of _ _ cr] rewritten_path_def)
qed

lemma replace_ne_head: "p \<noteq> [] \<Longrightarrow> hd p \<noteq> c \<Longrightarrow> replace_ne p r (c # s) = c # replace_ne p r s"
  by (cases p) auto

lemma fold_keeps_head:
  assumes "\<And>i x t. \<exists>u. f i (x # t) = (x :: 'a) # u \<or> x \<noteq> c"
  shows "\<exists>u. fold f is (c # t) = c # u"
proof (induction "is" arbitrary: t)
  case Nil
  then show ?case by simp
next
  case (Cons i "is")
  obtain u where "f i (c # t) = c # u" using assms [of i c t] by blast
  then show ?case using Cons.IH [of u] by simp
qed

text \<open>Substitution never touches the first character of a target that starts with a slash.\<close>

lemma regex_replace_slash:
  assumes "template = CHR ''/'' # t" and "input = CHR ''/'' # rest"
  shows "\<exists>u. regex_replace rx re input template = CHR ''/'' # u"
proof (cases "pr_captures rx re input")
  case None
  then show ?thesis using assms by (simp add: regex_replace_def)
next
  case (Some caps)
  have "\<exists>u. (case caps 0 of Some m \<Rightarrow> str_replace ''$0'' m template | None \<Rightarrow> template) = CHR ''/'' # u"
    using assms by (auto simp: str_replace_def replace_ne_head split: option.splits)
  moreover have "\<exists>u. fold (subst_group caps) [1..<10] (CHR ''/'' # v) = CHR ''/'' # u" for v
    by (rule fold_keeps_head) (auto simp: subst_group_def Let_def str_replace_def replace_ne_head)
  ultimately show ?thesis using Some by (auto simp: regex_replace_def Let_def simp del: upt_Suc)
qed

lemma redirect_mark_simps [simp]:
  "redirect_mark Redirect = ''REDIRECT:302:''" "redirect_mark Permanent = ''REDIRECT:301:''"
  by (simp_all add: redirect_mark_def dec.simps digit_char_def char_of_def bit_0)

lemma strip_prefix_slash [simp]: "strip_prefix (CHR ''/'' # u) (CHR ''R'' # p) = None"
  by simp

text \<open>
  On a site whose internal rewrite targets start with a slash, the rewrite rules act as
  documented: the first rule whose condition holds and whose expression matches the request path
  decides, with its flag: an internal rewrite serves the substituted path, a redirect rule sends
  302 or 301 to it, and without such a rule the request path is served. The metadata cache is
  invisible as long as the file system does not change.
\<close>

theorem first_rewrite_decides:
  assumes "meta_coherent (\<lambda>_. snap) (clk 0) st" and "\<And>k. clk k \<le> clk (Suc k)"
    and path: "path = CHR ''/'' # rest"
    and targets: "\<forall>cr\<in>set crs. starts_with (rw_target (rewrite_of cr)) ''/''
      \<or> rw_flag (rewrite_of cr) \<in> {Redirect, Permanent}"
  shows "rewrite_decision (fst (apply_rewrites rx (\<lambda>_. snap) clk crs path root st)) path =
    (case find (rule_applies rx snap root path) crs of
       None \<Rightarrow> ServePath path
     | Some cr \<Rightarrow>
         (case rw_flag (rewrite_of cr) of
            Redirect \<Rightarrow> RedirectTo 302 (rewritten_path rx path cr)
          | Permanent \<Rightarrow> RedirectTo 301 (rewritten_path rx path cr)
          | _ \<Rightarrow> ServePath (rewritten_path rx path cr)))"
proof (cases "find (rule_applies rx snap root path) crs")
  case None
  then show ?thesis using apply_rewrites_find [OF assms(1,2), of rx crs path root] by (simp add: rewrite_decision_def)
next
  case (Some cr)
  have res: "fst (apply_rewrites rx (\<lambda>_. snap) clk crs path root st) = Some (rewrite_result rx path cr)"
    using apply_rewrites_find [OF assms(1,2), of rx crs path root] Some by simp
  have slash: "\<exists>u. rewritten_path rx path cr = CHR ''/'' # u" if "rw_flag (rewrite_of cr) \<notin> {Redirect, Permanent}"
  proof -
    have "starts_with (rw_target (rewrite_of cr)) ''/''"
      using targets that find_SomeD [OF Some] by blast
    then obtain t where "rw_target (rewrite_of cr) = CHR ''/'' # t" by (auto simp: starts_with_iff)
    then show ?thesis unfolding rewritten_path_def using path by (rule regex_replace_slash)
  qed
  show ?thesis
  proof (cases "rw_flag (rewrite_of cr)")
    case Last
    with slash obtain u where "rewritten_path rx path cr = CHR ''/'' # u" by auto
    with Last res Some show ?thesis by (simp add: rewrite_decision_def rewrite_result_def)
  next
    case Break
    with slash obtain u where "rewritten_path rx path cr = CHR ''/'' # u" by auto
    with Break res Some show ?thesis by (simp add: rewrite_decision_def rewrite_result_def)
  qed (use res Some in \<open>simp_all add: rewrite_decision_def rewrite_result_def\<close>)
qed

definition demo_rewrite :: "string \<Rightarrow> string \<Rightarrow> rewrite_flag \<Rightarrow> string option \<Rightarrow> string compiled_rewrite" where
  "demo_rewrite pattern target flag cond =
     \<lparr>rewrite_of = \<lparr>rw_pattern = pattern, rw_target = target, rw_flag = flag, rw_condition = cond\<rparr>, rewrite_re = pattern\<rparr>"

theorem first_rewrite_decides_witness:
  "rewrite_decision (fst (apply_rewrites demo_rx (\<lambda>_ _. None) (\<lambda>_. 0)
      [demo_rewrite ''/old'' ''/new$0'' Redirect (Some ''-f''), demo_rewrite ''.php'' ''/index.php'' Last (Some ''!-e'')]
      ''/a.php'' (Some ''/srv'') \<lparr>meta_cache = [], miss_counter = 0\<rparr>)) ''/a.php''
    = ServePath ''/index.php''"
proof -
  let ?crs = "[demo_rewrite ''/old'' ''/new$0'' Redirect (Some ''-f''), demo_rewrite ''.php'' ''/index.php'' Last (Some ''!-e'')]"
  have "find (rule_applies demo_rx (\<lambda>_. None) (Some ''/srv'') ''/a.php'') ?crs
      = Some (demo_rewrite ''.php'' ''/index.php'' Last (Some ''!-e''))"
    by (simp add: rule_applies_def condition_holds_def demo_rewrite_def demo_rx_def snap_check_def trim_eval)
  moreover have "rewritten_path demo_rx ''/a.php'' (demo_rewrite ''.php'' ''/index.php'' Last (Some ''!-e'')) = ''/index.php''"
    by (simp add: rewritten_path_def regex_replace_def demo_rewrite_def demo_rx_def str_replace_def upt_rec
        subst_group_def dec.simps digit_char_def)
  ultimately show ?thesis
    using first_rewrite_decides [where snap = "\<lambda>_. None" and clk = "\<lambda>_. 0" and rest = "''a.php''" and crs = ?crs
      and st = "\<lparr>meta_cache = [], miss_counter = 0\<rparr>" and path = "''/a.php''" and rx = demo_rx and root = "Some ''/srv''"]
    by (simp add: demo_rewrite_def)
qed

section \<open>The redirect marker is in band\<close>

lemma fold_no_dollar:
  assumes "CHR ''$'' \<notin> set s"
  shows "fold (subst_group caps) is s = s"
proof -
  have "subst_group caps i s = s" for i using assms by (auto simp: subst_group_def Let_def contains_sub_iff)
  then show ?thesis by (induction "is") simp_all
qed

text \<open>
  A rule that hands a captured part of the request path on as the whole new path lets the
  client choose the redirect. The router recognises a redirect by the text \<^verbatim>\<open>REDIRECT:302:\<close> in
  front of the rewritten path, so a request whose captured part starts with it is answered with a
  redirect to the rest of the captured text, although the rule is an internal rewrite.
\<close>

theorem rewrite_marker_in_band:
  assumes "rw_condition (rewrite_of cr) = None" and "rw_target (rewrite_of cr) = ''$1''" and "rw_flag (rewrite_of cr) = Last"
    and "pr_is_match rx (rewrite_re cr) path" and "pr_captures rx (rewrite_re cr) path = Some caps"
    and "caps 1 = Some (''REDIRECT:302:'' @ url)" and "CHR ''$'' \<notin> set url"
  shows "rewrite_decision (fst (apply_rewrites rx fs clk (cr # crs) path root st)) path = RedirectTo 302 url"
proof -
  have "dec 1 = ''1''" by (simp add: dec.simps digit_char_def char_of_def bit_0)
  then have one: "subst_group caps 1 ''$1'' = ''REDIRECT:302:'' @ url"
    using assms(6) by (simp add: subst_group_def str_replace_def unwrap_or_def)
  have zero: "(case caps 0 of Some m \<Rightarrow> str_replace ''$0'' m ''$1'' | None \<Rightarrow> ''$1'') = ''$1''"
    by (simp add: str_replace_def split: option.split)
  have up: "[1..<10] = 1 # [2..<10]" by (simp add: upt_rec)
  have "fold (subst_group caps) [1..<10] ''$1'' = ''REDIRECT:302:'' @ url"
    unfolding up fold_simps one using assms(7) by (intro fold_no_dollar) simp
  then have "regex_replace rx (rewrite_re cr) path ''$1'' = ''REDIRECT:302:'' @ url"
    unfolding regex_replace_def assms(5) option.case Let_def zero .
  then show ?thesis using assms by (simp add: rewrite_decision_def)
qed

definition demo_strip_rx :: "string path_regex" where
  "demo_strip_rx = \<lparr>pr_build = Some, pr_is_match = (\<lambda>re s. starts_with s re),
     pr_captures = (\<lambda>re s. map_option (\<lambda>t i. if i = 0 then Some s else if i = 1 then Some t else None) (strip_prefix s re))\<rparr>"

theorem rewrite_marker_in_band_witness:
  "rewrite_decision (fst (apply_rewrites demo_strip_rx (\<lambda>_ _. None) (\<lambda>_. 0) [demo_rewrite ''/go/'' ''$1'' Last None]
      ''/go/REDIRECT:302:https://other.example/'' None \<lparr>meta_cache = [], miss_counter = 0\<rparr>))
      ''/go/REDIRECT:302:https://other.example/''
    = RedirectTo 302 ''https://other.example/''"
  by (rule rewrite_marker_in_band [where caps = "\<lambda>i. if i = 0 then Some ''/go/REDIRECT:302:https://other.example/''
        else if i = 1 then Some ''REDIRECT:302:https://other.example/'' else None"])
    (simp_all add: demo_rewrite_def demo_strip_rx_def)

end
