(* ===== verification/Load_Balancer.thy ===== *)
theory Load_Balancer
  imports Retry Circuit_Breaker "HOL-Library.Multiset"
begin

text \<open>
  The upstream groups of the reverse proxy (\<^verbatim>\<open>handler/reverse_proxy/lb.rs\<close>): the runtime state of
  a node, the choice of a node by each of the four strategies, the registry of groups, and one
  round of the active health checks.

  A node is identified by its index in its pool. Asking a node whether it is available calls
  \<^verbatim>\<open>allow\<close> on its breaker, which can change the breaker, and \<^verbatim>\<open>pick\<close> asks the nodes in two
  passes over lazy iterators: a pass is a function that returns the nodes it has asked in their
  new state and leaves the ones it did not reach alone. \<open>clk p i\<close> is the clock reading of pass
  \<open>p\<close> at node \<open>i\<close>. The target has 64-bit \<^verbatim>\<open>usize\<close>.
\<close>

section \<open>Node state\<close>

record node_state =
  ns_addr :: upstream_addr
  ns_weight :: u32
  ns_healthy :: u32
  ns_active :: u32
  ns_fail_count :: u32
  ns_tls :: bool
  ns_tls_sni :: string
  ns_tls_insecure :: bool
  ns_upstream_host :: "string option"
  ns_http2 :: bool
  ns_send_proxy_protocol :: u8
  ns_breaker :: "circuit_breaker option"

definition node_new :: "upstream_node \<Rightarrow> circuit_breaker_config option \<Rightarrow> u64 \<Rightarrow> node_state" where
  "node_new node cb_cfg now =
     (let host_part = (case un_addr node of
            Tcp s \<Rightarrow> hd (split_on CHR '':'' s)
          | Unix _ \<Rightarrow> ''localhost'')
      in \<lparr>ns_addr = un_addr node, ns_weight = un_weight node, ns_healthy = 1, ns_active = 0,
          ns_fail_count = 0, ns_tls = un_tls node,
          ns_tls_sni = unwrap_or (un_tls_sni node) host_part,
          ns_tls_insecure = un_tls_insecure node, ns_upstream_host = un_upstream_host node,
          ns_http2 = un_http2 node, ns_send_proxy_protocol = un_send_proxy_protocol node,
          ns_breaker = map_option (\<lambda>c. new_breaker (cbc_max_failures c) (cbc_window_secs c)
            (cbc_fail_timeout c) now) cb_cfg\<rparr>)"

definition is_healthy :: "node_state \<Rightarrow> bool" where
  "is_healthy n = (ns_healthy n = 1)"

definition is_available :: "u64 \<Rightarrow> node_state \<Rightarrow> bool \<times> node_state" where
  "is_available now n =
     (if \<not> is_healthy n then (False, n)
      else (case ns_breaker n of
          None \<Rightarrow> (True, n)
        | Some cb \<Rightarrow>
            (let (ok, cb') = allow (\<lambda>_. now) cb in (ok, n\<lparr>ns_breaker := Some cb'\<rparr>))))"

definition mark_unhealthy :: "node_state \<Rightarrow> node_state" where
  "mark_unhealthy n = n\<lparr>ns_healthy := 0\<rparr>"

definition mark_healthy :: "node_state \<Rightarrow> node_state" where
  "mark_healthy n = n\<lparr>ns_healthy := 1, ns_fail_count := 0\<rparr>"

definition node_record_success :: "(nat \<Rightarrow> u64) \<Rightarrow> node_state \<Rightarrow> node_state" where
  "node_record_success clk n =
     (let n1 = (if 0 < ns_fail_count n then n\<lparr>ns_fail_count := 0\<rparr> else n);
          n2 = (if \<not> is_healthy n1 then mark_healthy n1 else n1)
      in n2\<lparr>ns_breaker := map_option (record_success clk) (ns_breaker n2)\<rparr>)"

definition node_record_failure :: "(nat \<Rightarrow> u64) \<Rightarrow> node_state \<Rightarrow> node_state outcome" where
  "node_record_failure clk n =
     bind_outcome (add_u32 (ns_fail_count n) 1) (\<lambda>count.
       let n1 = n\<lparr>ns_fail_count := ns_fail_count n + 1\<rparr>;
           n2 = (if 3 \<le> count then mark_unhealthy n1 else n1)
       in (case ns_breaker n2 of
             None \<Rightarrow> Val n2
           | Some cb \<Rightarrow> bind_outcome (record_failure clk cb)
               (\<lambda>cb'. Val (n2\<lparr>ns_breaker := Some cb'\<rparr>))))"

section \<open>Pools\<close>

record upstream_pool =
  up_nodes :: "node_state list"
  up_strategy :: load_balance_strategy
  up_rr_counter :: u64
  up_keepalive_requests :: u64
  up_keepalive_time :: u64
  up_keepalive_max_idle :: nat
  up_connect_timeout :: u64
  up_read_timeout :: u64
  up_write_timeout :: u64
  up_retry :: u32
  up_retry_timeout :: u64
  up_next_upstream_flags :: next_upstream_flags

definition pool_from_config :: "(nat \<Rightarrow> u64) \<Rightarrow> upstream_config \<Rightarrow> upstream_pool" where
  "pool_from_config clk cfg =
     \<lparr>up_nodes = map (\<lambda>(i, n). node_new n (uc_circuit_breaker cfg) (clk i))
                   (enumerate 0 (uc_nodes cfg)),
      up_strategy = uc_strategy cfg, up_rr_counter = 0,
      up_keepalive_requests = uc_keepalive_requests cfg,
      up_keepalive_time = uc_keepalive_time cfg, up_keepalive_max_idle = uc_keepalive cfg,
      up_connect_timeout = uc_connect_timeout cfg, up_read_timeout = uc_read_timeout cfg,
      up_write_timeout = uc_write_timeout cfg, up_retry = uc_retry cfg,
      up_retry_timeout = uc_retry_timeout cfg,
      up_next_upstream_flags = compile_flags (uc_proxy_next_upstream cfg)\<rparr>"

text \<open>The passes of \<^verbatim>\<open>pick\<close>: \<^verbatim>\<open>count\<close>, \<^verbatim>\<open>nth\<close>, \<^verbatim>\<open>sum\<close>, the weighted loop and \<^verbatim>\<open>min_by_key\<close>.\<close>

fun count_avail :: "(nat \<Rightarrow> u64) \<Rightarrow> node_state list \<Rightarrow> nat \<times> node_state list" where
  "count_avail clk [] = (0, [])"
| "count_avail clk (n # ns) =
     (let (a, n') = is_available (clk 0) n;
          (c, ns') = count_avail (\<lambda>i. clk (Suc i)) ns
      in ((if a then Suc c else c), n' # ns'))"

fun nth_avail :: "(nat \<Rightarrow> u64) \<Rightarrow> nat \<Rightarrow> node_state list \<Rightarrow> nat option \<times> node_state list" where
  "nth_avail clk k [] = (None, [])"
| "nth_avail clk k (n # ns) =
     (let (a, n') = is_available (clk 0) n
      in if a \<and> k = 0 then (Some 0, n' # ns)
         else (let (r, ns') = nth_avail (\<lambda>i. clk (Suc i)) (if a then k - 1 else k) ns
               in (map_option Suc r, n' # ns')))"

fun last_avail :: "(nat \<Rightarrow> u64) \<Rightarrow> node_state list \<Rightarrow> nat option \<times> node_state list" where
  "last_avail clk [] = (None, [])"
| "last_avail clk (n # ns) =
     (let (a, n') = is_available (clk 0) n;
          (r, ns') = last_avail (\<lambda>i. clk (Suc i)) ns
      in ((case r of Some i \<Rightarrow> Some (Suc i) | None \<Rightarrow> if a then Some 0 else None), n' # ns'))"

fun sum_weights :: "(nat \<Rightarrow> u64) \<Rightarrow> u32 \<Rightarrow> node_state list \<Rightarrow> (u32 \<times> node_state list) outcome" where
  "sum_weights clk acc [] = Val (acc, [])"
| "sum_weights clk acc (n # ns) =
     (let (a, n') = is_available (clk 0) n
      in bind_outcome (if a then add_u32 acc (ns_weight n) else Val acc) (\<lambda>acc'.
           bind_outcome (sum_weights (\<lambda>i. clk (Suc i)) acc' ns) (\<lambda>(s, ns'). Val (s, n' # ns'))))"

fun weighted_scan ::
  "(nat \<Rightarrow> u64) \<Rightarrow> u32 \<Rightarrow> u32 \<Rightarrow> node_state list \<Rightarrow> (nat option \<times> node_state list) outcome" where
  "weighted_scan clk target cumulative [] = Val (None, [])"
| "weighted_scan clk target cumulative (n # ns) =
     (let (a, n') = is_available (clk 0) n;
          rest = (\<lambda>cum. bind_outcome (weighted_scan (\<lambda>i. clk (Suc i)) target cum ns)
                    (\<lambda>(r, ns'). Val (map_option Suc r, n' # ns')))
      in if a then bind_outcome (add_u32 cumulative (ns_weight n)) (\<lambda>cum.
                     if target < cum then Val (Some 0, n' # ns) else rest cum)
         else rest cumulative)"

fun min_active :: "(nat \<Rightarrow> u64) \<Rightarrow> node_state list \<Rightarrow> (nat \<times> u32) option \<times> node_state list" where
  "min_active clk [] = (None, [])"
| "min_active clk (n # ns) =
     (let (a, n') = is_available (clk 0) n;
          (r, ns') = min_active (\<lambda>i. clk (Suc i)) ns;
          r' = map_option (\<lambda>(i, k). (Suc i, k)) r
      in ((if \<not> a then r'
           else (case r' of
               None \<Rightarrow> Some (0, ns_active n)
             | Some (i, k) \<Rightarrow> if k < ns_active n then Some (i, k) else Some (0, ns_active n))),
          n' # ns'))"

fun nth_healthy :: "nat \<Rightarrow> node_state list \<Rightarrow> nat option" where
  "nth_healthy k [] = None"
| "nth_healthy k (n # ns) =
     (if is_healthy n \<and> k = 0 then Some 0
      else map_option Suc (nth_healthy (if is_healthy n then k - 1 else k) ns))"

definition simple_hash :: "string \<Rightarrow> u64" where
  "simple_hash s = foldl (\<lambda>h b. h * 33 + ucast (byte_of_char b)) 5381 s"

definition bump :: "node_state list \<Rightarrow> upstream_pool \<Rightarrow> upstream_pool" where
  "bump ns pool = pool\<lparr>up_nodes := ns, up_rr_counter := up_rr_counter pool + 1\<rparr>"

definition pick_degraded :: "upstream_pool \<Rightarrow> nat option \<times> upstream_pool" where
  "pick_degraded pool =
     (let ns = up_nodes pool; healthy_count = length (filter is_healthy ns)
      in if 0 < healthy_count
         then (nth_healthy (unat (up_rr_counter pool) mod healthy_count) ns, bump ns pool)
         else if ns \<noteq> []
         then (Some (unat (up_rr_counter pool) mod length ns), bump ns pool)
         else (None, pool))"

definition pick_weighted ::
  "(nat \<Rightarrow> nat \<Rightarrow> u64) \<Rightarrow> upstream_pool \<Rightarrow> (nat option \<times> upstream_pool) outcome" where
  "pick_weighted clk pool =
     bind_outcome (sum_weights (clk 1) 0 (up_nodes pool)) (\<lambda>(total_weight, ns).
       if total_weight = 0
       then (let (r, ns') = nth_avail (clk 2) 0 ns in Val (r, pool\<lparr>up_nodes := ns'\<rparr>))
       else bind_outcome (weighted_scan (clk 2) (ucast (up_rr_counter pool) mod total_weight) 0 ns)
         (\<lambda>(r, ns'). case r of
            Some i \<Rightarrow> Val (Some i, bump ns' pool)
          | None \<Rightarrow> (let (l, ns'') = last_avail (clk 3) ns' in Val (l, bump ns'' pool))))"

definition pick ::
  "(nat \<Rightarrow> nat \<Rightarrow> u64) \<Rightarrow> string option \<Rightarrow> upstream_pool \<Rightarrow> (nat option \<times> upstream_pool) outcome" where
  "pick clk client_ip pool0 =
     (let (avail_count, ns) = count_avail (clk 0) (up_nodes pool0);
          pool = pool0\<lparr>up_nodes := ns\<rparr>
      in if avail_count = 0 then Val (pick_degraded pool)
         else (case up_strategy pool of
             RoundRobin \<Rightarrow>
               (let (r, ns') = nth_avail (clk 1) (unat (up_rr_counter pool) mod avail_count) ns
                in Val (r, bump ns' pool))
           | Weighted \<Rightarrow> pick_weighted clk pool
           | LeastConn \<Rightarrow>
               (let (r, ns') = min_active (clk 1) ns
                in Val (map_option fst r, pool\<lparr>up_nodes := ns'\<rparr>))
           | IpHash \<Rightarrow>
               (let hash = simple_hash (unwrap_or client_ip ''0.0.0.0'');
                    (r, ns') = nth_avail (clk 1) (unat hash mod avail_count) ns
                in Val (r, pool\<lparr>up_nodes := ns'\<rparr>))))"

section \<open>Registry and health checks\<close>

type_synonym upstream_registry = "string \<rightharpoonup> upstream_pool"

definition registry_new :: upstream_registry where
  "registry_new = Map.empty"

definition registry_register :: "string \<Rightarrow> upstream_pool \<Rightarrow> upstream_registry \<Rightarrow> upstream_registry" where
  "registry_register key pool r = r(key \<mapsto> pool)"

definition registry_get :: "string \<Rightarrow> upstream_registry \<Rightarrow> upstream_pool option" where
  "registry_get key r = r key"

text \<open>The result of a probe: a status code, an error, or the five-second timeout.\<close>

datatype probe_result = ProbeCode u16 | ProbeErr | ProbeTimeout

definition health_check_node :: "probe_result \<Rightarrow> node_state \<Rightarrow> node_state" where
  "health_check_node result n =
     (case result of
        ProbeCode code \<Rightarrow>
          if 200 \<le> code \<and> code < 300 then mark_healthy n
          else (let n1 = n\<lparr>ns_fail_count := ns_fail_count n + 1\<rparr>
                in if 3 \<le> ns_fail_count n1 then mark_unhealthy n1 else n1)
      | ProbeErr \<Rightarrow> mark_unhealthy n
      | ProbeTimeout \<Rightarrow> mark_unhealthy n)"

definition health_check_round :: "probe_result list \<Rightarrow> upstream_pool \<Rightarrow> upstream_pool" where
  "health_check_round results pool =
     pool\<lparr>up_nodes := map2 health_check_node results (up_nodes pool)\<rparr>"

section \<open>Passes over settled nodes\<close>

text \<open>
  A node is up when it is healthy and its breaker, if any, is closed. It is settled at a clock
  reading when asking it changes nothing: no open breaker has reached its timeout.
\<close>

definition node_up :: "node_state \<Rightarrow> bool" where
  "node_up n = (is_healthy n \<and>
     (case ns_breaker n of None \<Rightarrow> True
      | Some cb \<Rightarrow> cb_state cb \<noteq> CB_OPEN \<and> cb_state cb \<noteq> CB_HALF_OPEN))"

definition settled :: "u64 \<Rightarrow> node_state \<Rightarrow> bool" where
  "settled t n = (is_healthy n \<longrightarrow>
     (case ns_breaker n of None \<Rightarrow> True
      | Some cb \<Rightarrow> cb_state cb = CB_OPEN \<longrightarrow> saturating_sub t (open_since cb) < fail_timeout cb))"

definition settled_all :: "(nat \<Rightarrow> u64) \<Rightarrow> node_state list \<Rightarrow> bool" where
  "settled_all clk ns = (\<forall>i<length ns. settled (clk i) (ns ! i))"

definition idx :: "(node_state \<Rightarrow> bool) \<Rightarrow> node_state list \<Rightarrow> nat list" where
  "idx P ns = filter (\<lambda>i. P (ns ! i)) [0..<length ns]"

abbreviation ups :: "node_state list \<Rightarrow> nat list" where
  "ups \<equiv> idx node_up"

definition up_weights :: "node_state list \<Rightarrow> nat" where
  "up_weights ns = sum_list (map (\<lambda>i. unat (ns_weight (ns ! i))) (ups ns))"

definition weighted_slots :: "node_state list \<Rightarrow> nat list" where
  "weighted_slots ns = concat (map (\<lambda>i. replicate (unat (ns_weight (ns ! i))) i) (ups ns))"

lemma is_available_settled [simp]: "settled t n \<Longrightarrow> is_available t n = (node_up n, n)"
  by (auto simp: is_available_def node_up_def settled_def allow_def cb_states
      dest: leD split: option.splits)

lemma settled_all_Cons [simp]:
  "settled_all clk (n # ns) = (settled (clk 0) n \<and> settled_all (\<lambda>i. clk (Suc i)) ns)"
  by (auto simp: settled_all_def nth_Cons split: nat.splits)

lemma idx_Nil [simp]: "idx P [] = []"
  by (simp add: idx_def)

lemma idx_Cons [simp]: "idx P (n # ns) = (if P n then [0] else []) @ map Suc (idx P ns)"
proof -
  have "[0..<length (n # ns)] = 0 # map Suc [0..<length ns]"
    by (simp add: map_Suc_upt upt_conv_Cons del: upt_Suc)
  then show ?thesis by (simp add: idx_def filter_map comp_def)
qed

lemma set_idx: "i \<in> set (idx P ns) \<longleftrightarrow> i < length ns \<and> P (ns ! i)"
  by (auto simp: idx_def)

lemma idx_empty_iff: "idx P ns = [] \<longleftrightarrow> (\<forall>n\<in>set ns. \<not> P n)"
  by (induction ns) auto

lemma length_idx: "length (idx P ns) = length (filter P ns)"
  by (induction ns) simp_all

lemma up_weights_Cons [simp]:
  "up_weights (n # ns) = (if node_up n then unat (ns_weight n) else 0) + up_weights ns"
  by (simp add: up_weights_def comp_def)

lemma weighted_slots_Cons [simp]:
  "weighted_slots (n # ns)
     = (if node_up n then replicate (unat (ns_weight n)) 0 else []) @ map Suc (weighted_slots ns)"
  by (simp add: weighted_slots_def map_concat comp_def)

lemma weighted_slots_Nil [simp]: "weighted_slots [] = []" "up_weights [] = 0"
  by (simp_all add: weighted_slots_def up_weights_def)

lemma length_weighted_slots: "length (weighted_slots ns) = up_weights ns"
  by (induction ns) simp_all

lemma count_avail_settled:
  "settled_all clk ns \<Longrightarrow> count_avail clk ns = (length (ups ns), ns)"
  by (induction ns arbitrary: clk) auto

lemma nth_avail_settled:
  "settled_all clk ns \<Longrightarrow>
   nth_avail clk k ns = ((if k < length (ups ns) then Some (ups ns ! k) else None), ns)"
proof (induction ns arbitrary: clk k)
  case (Cons n ns)
  then show ?case by (cases k) auto
qed simp

lemma nth_healthy_idx:
  "nth_healthy k ns
     = (if k < length (idx is_healthy ns) then Some (idx is_healthy ns ! k) else None)"
proof (induction ns arbitrary: k)
  case (Cons n ns)
  then show ?case by (cases k) auto
qed simp

lemma add_u32_small:
  "unat a + unat b < 2 ^ 32 \<Longrightarrow> add_u32 a b = Val (a + b) \<and> unat (a + b) = unat a + unat b"
  using add_u32_Val [of a b "a + b"] by (simp add: add_u32_def)

lemma sum_weights_settled:
  "settled_all clk ns \<Longrightarrow> unat acc + up_weights ns < 2 ^ 32 \<Longrightarrow>
   \<exists>s. sum_weights clk acc ns = Val (s, ns) \<and> unat s = unat acc + up_weights ns"
proof (induction ns arbitrary: clk acc)
  case (Cons n ns)
  show ?case
  proof (cases "node_up n")
    case True
    with Cons.prems have a: "unat acc + unat (ns_weight n) < 2 ^ 32" by simp
    note add = add_u32_small [OF a]
    from Cons.prems True add have "unat (acc + ns_weight n) + up_weights ns < 2 ^ 32" by simp
    from Cons.IH [OF _ this] Cons.prems(1) obtain s where
      "sum_weights (\<lambda>i. clk (Suc i)) (acc + ns_weight n) ns = Val (s, ns)"
      "unat s = unat (acc + ns_weight n) + up_weights ns" by auto
    with add True Cons.prems(1) show ?thesis by simp
  next
    case False
    with Cons.IH [of "\<lambda>i. clk (Suc i)" acc] Cons.prems show ?thesis by auto
  qed
qed simp

lemma weighted_scan_settled:
  "settled_all clk ns \<Longrightarrow> unat cum + up_weights ns < 2 ^ 32 \<Longrightarrow> unat cum \<le> unat t \<Longrightarrow>
   weighted_scan clk t cum ns
     = Val ((if unat t - unat cum < up_weights ns
             then Some (weighted_slots ns ! (unat t - unat cum)) else None), ns)"
proof (induction ns arbitrary: clk cum)
  case (Cons n ns)
  show ?case
  proof (cases "node_up n")
    case True
    with Cons.prems have a: "unat cum + unat (ns_weight n) < 2 ^ 32" by simp
    note add = add_u32_small [OF a]
    show ?thesis
    proof (cases "unat t < unat (cum + ns_weight n)")
      case lt: True
      then have "unat t - unat cum < unat (ns_weight n)" using add Cons.prems(3) by linarith
      with lt True add Cons.prems show ?thesis
        by (simp add: word_less_nat_alt nth_append)
    next
      case False
      with True add Cons.prems Cons.IH [of "\<lambda>i. clk (Suc i)" "cum + ns_weight n"]
      show ?thesis
        by (auto simp: word_less_nat_alt nth_append length_weighted_slots)
    qed
  next
    case False
    with Cons.IH [of "\<lambda>i. clk (Suc i)" cum] Cons.prems show ?thesis
      by (auto simp: length_weighted_slots)
  qed
qed simp

lemma min_active_settled:
  "settled_all clk ns \<Longrightarrow> snd (min_active clk ns) = ns \<and>
   (case fst (min_active clk ns) of
      None \<Rightarrow> ups ns = []
    | Some (i, k) \<Rightarrow> i \<in> set (ups ns) \<and> k = ns_active (ns ! i) \<and>
        (\<forall>j\<in>set (ups ns). k \<le> ns_active (ns ! j)))"
proof (induction ns arbitrary: clk)
  case (Cons n ns)
  obtain r ns' where m: "min_active (\<lambda>i. clk (Suc i)) ns = (r, ns')" by (cases "min_active (\<lambda>i. clk (Suc i)) ns")
  with Cons.IH [of "\<lambda>i. clk (Suc i)"] Cons.prems have "ns' = ns" by simp
  with Cons m show ?case
    by (cases r) (force split: prod.splits option.splits if_splits)+
qed simp

section \<open>Picking from settled nodes\<close>

lemma pick_degraded_settled:
  "\<forall>p. settled_all (clk p) (up_nodes pool) \<Longrightarrow> ups (up_nodes pool) = [] \<Longrightarrow>
   pick clk ip pool = Val (pick_degraded pool)"
  by (simp add: pick_def count_avail_settled)

lemma pick_round_robin:
  assumes "\<forall>p. settled_all (clk p) (up_nodes pool)" and "ups (up_nodes pool) \<noteq> []"
    and "up_strategy pool = RoundRobin"
  shows "pick clk ip pool
    = Val (Some (ups (up_nodes pool) ! (unat (up_rr_counter pool) mod length (ups (up_nodes pool)))),
           pool\<lparr>up_rr_counter := up_rr_counter pool + 1\<rparr>)"
  using assms by (simp add: pick_def count_avail_settled nth_avail_settled bump_def)

lemma pick_ip_hash:
  assumes "\<forall>p. settled_all (clk p) (up_nodes pool)" and "ups (up_nodes pool) \<noteq> []"
    and "up_strategy pool = IpHash"
  shows "pick clk ip pool
    = Val (Some (ups (up_nodes pool) !
             (unat (simple_hash (unwrap_or ip ''0.0.0.0'')) mod length (ups (up_nodes pool)))), pool)"
  using assms by (simp add: pick_def count_avail_settled nth_avail_settled Let_def)

lemma pick_least_conn:
  assumes "\<forall>p. settled_all (clk p) (up_nodes pool)" and "ups (up_nodes pool) \<noteq> []"
    and "up_strategy pool = LeastConn"
  shows "\<exists>i\<in>set (ups (up_nodes pool)). pick clk ip pool = Val (Some i, pool) \<and>
    (\<forall>j\<in>set (ups (up_nodes pool)). ns_active (up_nodes pool ! i) \<le> ns_active (up_nodes pool ! j))"
proof -
  obtain r ns where m: "min_active (clk 1) (up_nodes pool) = (r, ns)" by (rule prod.exhaust)
  with min_active_settled [of "clk 1" "up_nodes pool"] assms obtain i k where
    r: "r = Some (i, k)" and i: "i \<in> set (ups (up_nodes pool))" and ns: "ns = up_nodes pool"
    and le: "\<forall>j\<in>set (ups (up_nodes pool)). ns_active (up_nodes pool ! i) \<le> ns_active (up_nodes pool ! j)"
    by (cases r) auto
  have "pick clk ip pool = Val (Some i, pool)"
    using assms m r ns by (simp add: pick_def count_avail_settled Let_def)
  with i le show ?thesis by blast
qed

lemma pick_weighted_settled:
  assumes "\<forall>p. settled_all (clk p) (up_nodes pool)" and "ups (up_nodes pool) \<noteq> []"
    and "up_strategy pool = Weighted" and "up_weights (up_nodes pool) < 2 ^ 32"
  shows "pick clk ip pool =
    (if up_weights (up_nodes pool) = 0 then Val (Some (ups (up_nodes pool) ! 0), pool)
     else Val (Some (weighted_slots (up_nodes pool) !
                 (unat (ucast (up_rr_counter pool) :: u32) mod up_weights (up_nodes pool))),
               pool\<lparr>up_rr_counter := up_rr_counter pool + 1\<rparr>))"
proof -
  obtain s where s: "sum_weights (clk 1) 0 (up_nodes pool) = Val (s, up_nodes pool)"
    and u: "unat s = up_weights (up_nodes pool)"
    using sum_weights_settled [of "clk 1" "up_nodes pool" 0] assms by auto
  have z: "(s = 0) = (up_weights (up_nodes pool) = 0)" using u by (metis unat_eq_zero)
  let ?t = "(ucast (up_rr_counter pool) :: u32) mod s"
  have t: "unat ?t = unat (ucast (up_rr_counter pool) :: u32) mod up_weights (up_nodes pool)"
    by (simp add: unat_mod u)
  have w: "weighted_scan (clk 2) ?t 0 (up_nodes pool)
      = Val ((if unat ?t < up_weights (up_nodes pool)
              then Some (weighted_slots (up_nodes pool) ! unat ?t) else None), up_nodes pool)"
    using weighted_scan_settled [of "clk 2" "up_nodes pool" 0 ?t] assms by simp
  from assms s z w t show ?thesis
    by (simp add: pick_def pick_weighted_def count_avail_settled nth_avail_settled bump_def Let_def)
qed

lemma ups_nth_up: "k < length (ups ns) \<Longrightarrow> ups ns ! k < length ns \<and> node_up (ns ! (ups ns ! k))"
  using nth_mem [of k "ups ns"] by (simp add: set_idx)

lemma set_weighted_slots: "set (weighted_slots ns) \<subseteq> set (ups ns)"
  by (auto simp: weighted_slots_def)

lemma pick_degraded_ok:
  assumes "up_nodes pool \<noteq> []"
  shows "\<exists>i pool'. pick_degraded pool = (Some i, pool') \<and> up_nodes pool' = up_nodes pool \<and>
    i < length (up_nodes pool) \<and>
    (if \<exists>n\<in>set (up_nodes pool). is_healthy n then is_healthy (up_nodes pool ! i) else True)"
proof (cases "idx is_healthy (up_nodes pool) = []")
  case True
  then have "filter is_healthy (up_nodes pool) = []" by (simp add: idx_empty_iff filter_empty_conv)
  with assms True show ?thesis by (simp add: pick_degraded_def bump_def idx_empty_iff)
next
  case False
  let ?h = "idx is_healthy (up_nodes pool)"
  let ?k = "unat (up_rr_counter pool) mod length ?h"
  have "?k < length ?h" using False by simp
  moreover from this have "?h ! ?k \<in> set ?h" by (rule nth_mem)
  moreover have "pick_degraded pool = (Some (?h ! ?k), bump (up_nodes pool) pool)"
    using False by (simp add: pick_degraded_def nth_healthy_idx Let_def flip: length_idx)
  ultimately show ?thesis by (auto simp: bump_def set_idx)
qed


definition demo_node :: "string \<Rightarrow> u32 \<Rightarrow> node_state" where
  "demo_node addr weight = node_new ((serde_upstream_node (Tcp addr))\<lparr>un_weight := weight\<rparr>) None 0"

definition demo_pool :: "load_balance_strategy \<Rightarrow> upstream_pool" where
  "demo_pool strategy = (pool_from_config (\<lambda>_. 0) (serde_upstream_config ''app'' []))
     \<lparr>up_nodes := [mark_unhealthy (demo_node ''a:80'' 1), demo_node ''b:80'' 2, demo_node ''c:80'' 3],
      up_strategy := strategy\<rparr>"

lemma demo_node_simps [simp]:
  "ns_breaker (demo_node a w) = None" "is_healthy (demo_node a w)" "ns_weight (demo_node a w) = w"
  "ns_active (demo_node a w) = 0"
  "ns_breaker (mark_unhealthy n) = ns_breaker n" "\<not> is_healthy (mark_unhealthy n)"
  by (simp_all add: demo_node_def node_new_def is_healthy_def mark_unhealthy_def
      serde_upstream_node_def Let_def)

lemma demo_node_up [simp]: "node_up (demo_node a w)" "\<not> node_up (mark_unhealthy n)"
  by (simp_all add: node_up_def)

lemma demo_pool_simps [simp]:
  "up_nodes (demo_pool s)
     = [mark_unhealthy (demo_node ''a:80'' 1), demo_node ''b:80'' 2, demo_node ''c:80'' 3]"
  "up_strategy (demo_pool s) = s" "up_rr_counter (demo_pool s) = 0"
  by (simp_all add: demo_pool_def pool_from_config_def)

lemma demo_pool_settled: "settled_all clk (up_nodes (demo_pool s))"
  by (simp add: settled_def) (simp add: settled_all_def)


section \<open>Fairness\<close>

fun pick_seq :: "nat \<Rightarrow> (nat \<Rightarrow> nat \<Rightarrow> nat \<Rightarrow> u64) \<Rightarrow> string option \<Rightarrow> upstream_pool
    \<Rightarrow> (nat option list \<times> upstream_pool) outcome" where
  "pick_seq 0 clk ip pool = Val ([], pool)"
| "pick_seq (Suc n) clk ip pool =
     bind_outcome (pick (clk 0) ip pool) (\<lambda>(r, pool').
       bind_outcome (pick_seq n (\<lambda>k. clk (Suc k)) ip pool') (\<lambda>(rs, pool''). Val (r # rs, pool'')))"

lemma pick_seq_counter:
  assumes "\<And>k c. pick (clk k) ip (pool\<lparr>up_rr_counter := c\<rparr>)
             = Val (Some (f c), pool\<lparr>up_rr_counter := c + 1\<rparr>)"
  shows "pick_seq n clk ip (pool\<lparr>up_rr_counter := c\<rparr>)
    = Val (map (\<lambda>k. Some (f (c + word_of_nat k))) [0..<n],
           pool\<lparr>up_rr_counter := c + word_of_nat n\<rparr>)"
  using assms
proof (induction n arbitrary: c clk)
  case (Suc n)
  have "[0..<Suc n] = 0 # map Suc [0..<n]" by (simp add: map_Suc_upt upt_conv_Cons del: upt_Suc)
  with Suc.IH [of "\<lambda>k. clk (Suc k)" "c + 1"] Suc.prems show ?case
    by (simp add: comp_def add.assoc del: upt_Suc)
qed simp

lemma window_is_rotation:
  "xs \<noteq> [] \<Longrightarrow> map (\<lambda>k. xs ! ((c + k) mod length xs)) [0..<length xs] = rotate c xs"
  by (rule nth_equalityI) (simp_all add: nth_rotate)

lemma mset_rotate [simp]: "mset (rotate c xs) = mset xs"
  by (simp add: rotate_drop_take flip: mset_append) (metis add.commute append_take_drop_id mset_append)

lemma count_window:
  "xs \<noteq> [] \<Longrightarrow> count_list (map (\<lambda>k. Some (xs ! ((c + k) mod length xs))) [0..<length xs]) (Some i)
     = count_list xs i"
proof -
  assume xs: "xs \<noteq> []"
  have "map (\<lambda>k. Some (xs ! ((c + k) mod length xs))) [0..<length xs] = map Some (rotate c xs)"
    using window_is_rotation [OF xs, of c] by (metis (no_types, lifting) comp_apply map_eq_conv map_map)
  moreover have "count_list (map Some ys) (Some i) = count_list ys i" for ys
    by (induction ys) simp_all
  ultimately show ?thesis by (metis count_mset mset_rotate)
qed

lemma count_idx: "count_list (idx P ns) i = (if i < length ns \<and> P (ns ! i) then 1 else 0)"
proof -
  have "distinct (idx P ns)" by (simp add: idx_def)
  then have "count_list (idx P ns) i = (if i \<in> set (idx P ns) then 1 else 0)"
    by (metis count_mset distinct_count_atmost_1 set_mset_mset)
  then show ?thesis by (simp add: set_idx)
qed

lemma count_weighted_slots:
  "count_list (weighted_slots ns) i
     = (if i < length ns \<and> node_up (ns ! i) then unat (ns_weight (ns ! i)) else 0)"
proof (induction ns arbitrary: i)
  case (Cons n ns)
  have r: "count_list (replicate k (0::nat)) i = (if i = 0 then k else 0)" for k
    by (induction k) auto
  have "count_list (map Suc ys) i = (case i of 0 \<Rightarrow> 0 | Suc j \<Rightarrow> count_list ys j)" for ys
    by (induction ys) (auto split: nat.splits)
  then show ?case using Cons.IH by (auto simp: r nth_Cons split: nat.splits)
qed simp

lemma unat_add_nat:
  "unat c + k < 2 ^ LENGTH('a) \<Longrightarrow> unat (c + word_of_nat k :: 'a::len word) = unat c + k"
  by (simp add: unat_word_ariths unat_of_nat)

lemma ucast_counter:
  assumes "unat (ucast (c :: u64) :: u32) + k < 2 ^ 32"
  shows "unat (ucast (c + word_of_nat k) :: u32) = unat (ucast c :: u32) + k"
proof -
  have "unat (ucast (c + word_of_nat k) :: u32) = (unat c + k) mod 2 ^ 32"
    by (simp add: unsigned_ucast_eq take_bit_eq_mod unat_word_ariths unat_of_nat
        mod_mod_cancel mod_add_right_eq)
  also have "\<dots> = (unat (ucast c :: u32) + k) mod 2 ^ 32"
    by (simp add: unsigned_ucast_eq take_bit_eq_mod mod_add_left_eq)
  finally show ?thesis using assms by simp
qed

lemma window_spec:
  assumes "xs \<noteq> []"
    and "r = Val (map (\<lambda>k. Some (xs ! ((c + k) mod length xs))) [0..<length xs], q)"
  shows "\<exists>js pool'. r = Val (js, pool') \<and> (\<forall>i. count_list js (Some i) = count_list xs i) \<and>
    None \<notin> set js"
  using count_window [OF assms(1), of c] assms(2) by auto

text \<open>
  C16: round robin is fair. Over as many consecutive picks as there are available nodes, starting
  from any counter value that does not wrap meanwhile, every available node is chosen exactly
  once and no other node is chosen.
\<close>

theorem round_robin_fair:
  assumes "\<forall>k p. settled_all (clk k p) (up_nodes pool)" and "up_strategy pool = RoundRobin"
    and "N = length (filter node_up (up_nodes pool))" and "0 < N"
    and "unat (up_rr_counter pool) + N \<le> 2 ^ 64"
  shows "\<exists>js pool'. pick_seq N clk ip pool = Val (js, pool') \<and>
    (\<forall>i. count_list js (Some i)
       = (if i < length (up_nodes pool) \<and> node_up (up_nodes pool ! i) then 1 else 0)) \<and>
    None \<notin> set js"
proof -
  let ?u = "ups (up_nodes pool)" and ?c = "up_rr_counter pool"
  have N: "N = length ?u" using assms(3) by (simp add: length_idx)
  then have ne: "?u \<noteq> []" using assms(4) by auto
  have "pick_seq N clk ip (pool\<lparr>up_rr_counter := ?c\<rparr>)
    = Val (map (\<lambda>k. Some (?u ! (unat (?c + word_of_nat k) mod length ?u))) [0..<N],
           pool\<lparr>up_rr_counter := ?c + word_of_nat N\<rparr>)"
    by (rule pick_seq_counter) (use assms ne in \<open>simp add: pick_round_robin\<close>)
  moreover have "map (\<lambda>k. Some (?u ! (unat (?c + word_of_nat k) mod length ?u))) [0..<N]
    = map (\<lambda>k. Some (?u ! ((unat ?c + k) mod length ?u))) [0..<N]"
    using assms(5) by (intro map_cong) (simp_all add: unat_add_nat)
  ultimately have "pick_seq N clk ip pool = Val (map (\<lambda>k. Some (?u ! ((unat ?c + k) mod length ?u)))
      [0..<length ?u], pool\<lparr>up_rr_counter := ?c + word_of_nat N\<rparr>)" by (simp only: N) simp
  from window_spec [OF ne this] show ?thesis by (simp add: count_idx)
qed

theorem round_robin_fair_witness:
  "\<exists>js pool'. pick_seq 2 (\<lambda>_ _ _. 0) None (demo_pool RoundRobin) = Val (js, pool') \<and>
     count_list js (Some 0) = 0 \<and> count_list js (Some 1) = 1 \<and> count_list js (Some 2) = 1"
proof -
  have "\<forall>(k::nat) (p::nat). settled_all ((\<lambda>_ _ _. 0) k p) (up_nodes (demo_pool RoundRobin))"
    using demo_pool_settled by blast
  from round_robin_fair [OF this, of 2 None] obtain js pool' where
    "pick_seq 2 (\<lambda>_ _ _. 0) None (demo_pool RoundRobin) = Val (js, pool')"
    and c: "\<And>i. count_list js (Some i) = (if i < length (up_nodes (demo_pool RoundRobin)) \<and>
      node_up (up_nodes (demo_pool RoundRobin) ! i) then 1 else 0)"
    by auto
  then show ?thesis using c [of 0] c [of 1] c [of 2] by simp
qed

text \<open>
  The weighted strategy is exact. Over as many consecutive picks as the sum of the weights
  of the available nodes, while the low 32 bits of the counter do not wrap, each available node
  is chosen exactly as many times as its weight says.
\<close>

theorem weighted_exact:
  assumes "\<forall>k p. settled_all (clk k p) (up_nodes pool)" and "up_strategy pool = Weighted"
    and "N = up_weights (up_nodes pool)" and "0 < N"
    and "unat (ucast (up_rr_counter pool) :: u32) + N < 2 ^ 32"
  shows "\<exists>js pool'. pick_seq N clk ip pool = Val (js, pool') \<and>
    (\<forall>i. count_list js (Some i) = (if i < length (up_nodes pool) \<and> node_up (up_nodes pool ! i)
       then unat (ns_weight (up_nodes pool ! i)) else 0)) \<and> None \<notin> set js"
proof -
  let ?s = "weighted_slots (up_nodes pool)" and ?c = "up_rr_counter pool"
  have N: "N = length ?s" using assms(3) by (simp add: length_weighted_slots)
  then have ne: "?s \<noteq> []" using assms(4) by auto
  then have une: "ups (up_nodes pool) \<noteq> []" by (auto simp: weighted_slots_def)
  have nz: "up_weights (up_nodes pool) \<noteq> 0" "up_weights (up_nodes pool) < 2 ^ 32"
    using assms(3-5) by simp_all
  have "pick_seq N clk ip (pool\<lparr>up_rr_counter := ?c\<rparr>)
    = Val (map (\<lambda>k. Some (?s ! (unat (ucast (?c + word_of_nat k) :: u32) mod length ?s))) [0..<N],
           pool\<lparr>up_rr_counter := ?c + word_of_nat N\<rparr>)"
    by (rule pick_seq_counter)
       (use assms une nz in \<open>simp add: pick_weighted_settled length_weighted_slots\<close>)
  moreover have "map (\<lambda>k. Some (?s ! (unat (ucast (?c + word_of_nat k) :: u32) mod length ?s))) [0..<N]
    = map (\<lambda>k. Some (?s ! ((unat (ucast ?c :: u32) + k) mod length ?s))) [0..<N]"
    using assms(5) by (intro map_cong) (simp_all add: ucast_counter)
  ultimately have "pick_seq N clk ip pool
      = Val (map (\<lambda>k. Some (?s ! ((unat (ucast ?c :: u32) + k) mod length ?s))) [0..<length ?s],
             pool\<lparr>up_rr_counter := ?c + word_of_nat N\<rparr>)" by (simp only: N) simp
  from window_spec [OF ne this] show ?thesis by (simp add: count_weighted_slots)
qed

theorem weighted_exact_witness:
  "\<exists>js pool'. pick_seq 5 (\<lambda>_ _ _. 0) None (demo_pool Weighted) = Val (js, pool') \<and>
     count_list js (Some 0) = 0 \<and> count_list js (Some 1) = 2 \<and> count_list js (Some 2) = 3"
proof -
  have "\<forall>(k::nat) (p::nat). settled_all ((\<lambda>_ _ _. 0) k p) (up_nodes (demo_pool Weighted))"
    using demo_pool_settled by blast
  from weighted_exact [OF this, of 5 None] obtain js pool' where
    "pick_seq 5 (\<lambda>_ _ _. 0) None (demo_pool Weighted) = Val (js, pool')"
    and c: "\<And>i. count_list js (Some i) = (if i < length (up_nodes (demo_pool Weighted)) \<and>
      node_up (up_nodes (demo_pool Weighted) ! i)
      then unat (ns_weight (up_nodes (demo_pool Weighted) ! i)) else 0)"
    by auto
  then show ?thesis using c [of 0] c [of 1] c [of 2] by simp
qed

section \<open>Least connections and address hashing\<close>

text \<open>
  The least-connections strategy returns an available node that no available node beats in
  the number of active connections, and changes nothing.
\<close>

theorem least_conn_minimal:
  assumes "\<forall>p. settled_all (clk p) (up_nodes pool)" and "\<exists>n\<in>set (up_nodes pool). node_up n"
    and "up_strategy pool = LeastConn"
  shows "\<exists>i. pick clk ip pool = Val (Some i, pool) \<and> i < length (up_nodes pool) \<and>
    node_up (up_nodes pool ! i) \<and>
    (\<forall>n\<in>set (up_nodes pool). node_up n \<longrightarrow> ns_active (up_nodes pool ! i) \<le> ns_active n)"
proof -
  have "ups (up_nodes pool) \<noteq> []" using assms(2) by (auto simp: idx_empty_iff)
  from pick_least_conn [OF assms(1) this assms(3), of ip] obtain i where
    i: "i < length (up_nodes pool)" "node_up (up_nodes pool ! i)" "pick clk ip pool = Val (Some i, pool)"
    and le: "\<And>j. j < length (up_nodes pool) \<Longrightarrow> node_up (up_nodes pool ! j) \<Longrightarrow>
      ns_active (up_nodes pool ! i) \<le> ns_active (up_nodes pool ! j)"
    by (auto simp: set_idx)
  have "\<forall>n\<in>set (up_nodes pool). node_up n \<longrightarrow> ns_active (up_nodes pool ! i) \<le> ns_active n"
    using le by (auto simp: in_set_conv_nth)
  with i show ?thesis by blast
qed

theorem least_conn_minimal_witness:
  "\<exists>i. pick (\<lambda>_ _. 0) None (demo_pool LeastConn) = Val (Some i, demo_pool LeastConn) \<and>
     node_up (up_nodes (demo_pool LeastConn) ! i)"
proof -
  have "\<forall>p::nat. settled_all ((\<lambda>_ _. 0) p) (up_nodes (demo_pool LeastConn))"
    using demo_pool_settled by blast
  from least_conn_minimal [OF this, of None] show ?thesis by auto
qed

text \<open>
  Address hashing is sticky. Two requests of one client address are sent to the same node
  as long as the same nodes of the group are available, whatever happened to the counters, the
  connection counts and the clocks in between.
\<close>

theorem ip_hash_sticky:
  assumes "\<forall>p. settled_all (clk p) (up_nodes pool)" and "\<forall>p. settled_all (clk' p) (up_nodes pool')"
    and "up_strategy pool = IpHash" and "up_strategy pool' = IpHash"
    and "map node_up (up_nodes pool) = map node_up (up_nodes pool')"
    and "True \<in> set (map node_up (up_nodes pool))"
  shows "\<exists>i. pick clk ip pool = Val (Some i, pool) \<and> pick clk' ip pool' = Val (Some i, pool')"
proof -
  have idx_map: "ups ns = filter (\<lambda>i. map node_up ns ! i) [0..<length (map node_up ns)]" for ns
    unfolding idx_def by (rule filter_cong) simp_all
  then have eq: "ups (up_nodes pool) = ups (up_nodes pool')" by (simp only: assms(5))
  have ne: "ups (up_nodes pool) \<noteq> []" using assms(6) by (auto simp: idx_empty_iff)
  then have ne': "ups (up_nodes pool') \<noteq> []" by (simp add: eq)
  show ?thesis
    using pick_ip_hash [OF assms(1) ne assms(3), of ip]
      pick_ip_hash [OF assms(2) ne' assms(4), of ip] by (simp add: eq)
qed

theorem ip_hash_sticky_witness:
  "\<exists>i. pick (\<lambda>_ _. 0) (Some ''10.0.0.1'') (demo_pool IpHash) = Val (Some i, demo_pool IpHash) \<and>
     pick (\<lambda>_ _. 9) (Some ''10.0.0.1'') ((demo_pool IpHash)\<lparr>up_rr_counter := 7\<rparr>)
       = Val (Some i, (demo_pool IpHash)\<lparr>up_rr_counter := 7\<rparr>)"
proof -
  have "\<forall>p::nat. settled_all ((\<lambda>_ _. 0) p) (up_nodes (demo_pool IpHash))"
    and "\<forall>p::nat. settled_all ((\<lambda>_ _. 9) p) (up_nodes ((demo_pool IpHash)\<lparr>up_rr_counter := 7\<rparr>))"
    using demo_pool_settled by (simp_all del: demo_pool_simps)
  from ip_hash_sticky [OF this, of "Some ''10.0.0.1''"] show ?thesis by simp
qed

section \<open>Recovery of a tripped node\<close>

definition tripped_node :: "node_state \<Rightarrow> u64 \<Rightarrow> bool" where
  "tripped_node n t = (is_healthy n \<and> (case ns_breaker n of None \<Rightarrow> False
     | Some cb \<Rightarrow> cb_state cb = CB_OPEN \<and> fail_timeout cb \<le> saturating_sub t (open_since cb)))"

definition half_opened :: "node_state \<Rightarrow> node_state" where
  "half_opened n = n\<lparr>ns_breaker := map_option (\<lambda>cb. cb\<lparr>cb_state := CB_HALF_OPEN\<rparr>) (ns_breaker n)\<rparr>"

lemma available_tripped: "tripped_node n t \<Longrightarrow> is_available t n = (True, half_opened n)"
  by (auto simp: tripped_node_def is_available_def allow_def half_opened_def cb_states
      split: option.splits)

lemma available_half_opened: "tripped_node n t \<Longrightarrow> is_available t' (half_opened n) = (False, half_opened n)"
  by (auto simp: tripped_node_def is_available_def allow_def half_opened_def is_healthy_def
      cb_states split: option.splits)

lemma half_opened_healthy: "tripped_node n t \<Longrightarrow> is_healthy (half_opened n)"
  by (simp add: tripped_node_def half_opened_def is_healthy_def)

text \<open>
  A group of one node whose breaker has waited out its timeout loses its first request. The
  pass that counts the available nodes is itself admitted as the half-open probe, so the pass
  that should return the node is turned away: the choice is \<^verbatim>\<open>None\<close>, under every strategy, and
  the request is answered with 502. The breaker is left half-open; the next choice returns the
  node through the degraded mode.
\<close>

theorem half_open_probe_lost:
  assumes "up_nodes pool = [n]" and "tripped_node n (clk 0 0)"
  shows "\<exists>pool'. pick clk ip pool = Val (None, pool') \<and> up_nodes pool' = [half_opened n] \<and>
    (\<exists>pool''. pick clk' ip pool' = Val (Some 0, pool''))"
proof -
  note [simp] = available_tripped [OF assms(2)] available_half_opened [OF assms(2)]
    half_opened_healthy [OF assms(2)]
  have "pick clk' ip q = Val (Some 0, bump [half_opened n] q)" if "up_nodes q = [half_opened n]" for q
    using that by (simp add: pick_def pick_degraded_def bump_def)
  moreover have "\<exists>pool'. pick clk ip pool = Val (None, pool') \<and> up_nodes pool' = [half_opened n]"
    using assms(1) by (cases "up_strategy pool") (simp_all add: pick_def pick_weighted_def bump_def Let_def)
  ultimately show ?thesis by blast
qed

theorem half_open_probe_lost_witness:
  "\<exists>pool'. pick (\<lambda>_ _. 100) None ((demo_pool RoundRobin)\<lparr>up_nodes :=
     [(demo_node ''a:80'' 1)\<lparr>ns_breaker := Some ((new_breaker 3 60 30 0)
        \<lparr>cb_state := CB_OPEN, open_since := 10\<rparr>)\<rparr>]\<rparr>) = Val (None, pool')"
proof -
  let ?n = "(demo_node ''a:80'' 1)\<lparr>ns_breaker := Some ((new_breaker 3 60 30 0)
        \<lparr>cb_state := CB_OPEN, open_since := 10\<rparr>)\<rparr>"
  have "is_healthy (n\<lparr>ns_breaker := b\<rparr>) = is_healthy n" for n b by (simp add: is_healthy_def)
  then have "tripped_node ?n ((\<lambda>_ _. 100) (0::nat) (0::nat))"
    by (simp add: tripped_node_def new_breaker_def saturating_sub_def)
  from half_open_probe_lost [of "(demo_pool RoundRobin)\<lparr>up_nodes := [?n]\<rparr>", OF _ this, of None]
  show ?thesis by auto
qed

section \<open>Node health\<close>

text \<open>Everything that happens to a node at run time.\<close>

inductive node_step :: "node_state \<Rightarrow> node_state \<Rightarrow> bool" where
  ask: "is_available t n = (b, n') \<Longrightarrow> node_step n n'"
| success: "node_step n (node_record_success clk n)"
| failure: "node_record_failure clk n = Val n' \<Longrightarrow> node_step n n'"
| probe: "node_step n (health_check_node result n)"
| connect: "node_step n (n\<lparr>ns_active := c\<rparr>)"

inductive node_reach :: "node_state \<Rightarrow> bool" where
  fresh: "node_reach (node_new cfg cb t)"
| step: "node_reach n \<Longrightarrow> node_step n n' \<Longrightarrow> node_reach n'"

definition node_inv :: "node_state \<Rightarrow> bool" where
  "node_inv n = ((ns_healthy n = 0 \<or> ns_healthy n = 1) \<and> (ns_healthy n = 1 \<longrightarrow> ns_fail_count n < 3) \<and>
     (case ns_breaker n of None \<Rightarrow> True | Some cb \<Rightarrow> cb_inv cb))"

lemma node_step_inv: "node_step n n' \<Longrightarrow> node_inv n \<Longrightarrow> node_inv n'"
proof (induction rule: node_step.induct)
  case (ask t n b n')
  then show ?case
    by (auto simp: is_available_def node_inv_def split: if_splits option.splits prod.splits
        dest: allow_inv)
next
  case (success n clk)
  then show ?case
    by (auto simp: node_record_success_def node_inv_def mark_healthy_def is_healthy_def Let_def
        record_success_inv split: option.splits)
next
  case (failure clk n n')
  then obtain c where c: "add_u32 (ns_fail_count n) 1 = Val c" "c = ns_fail_count n + 1"
    by (auto simp: node_record_failure_def add_u32_def split: if_splits)
  with failure show ?case
    by (cases "ns_breaker n"; cases "record_failure clk (the (ns_breaker n))")
       (auto simp: node_record_failure_def node_inv_def mark_unhealthy_def Let_def not_le
         dest: record_failure_inv split: if_splits)
next
  case (probe n result)
  then show ?case
    by (auto simp: health_check_node_def node_inv_def mark_healthy_def mark_unhealthy_def not_le Let_def
        split: probe_result.splits)
qed (simp add: node_inv_def)

text \<open>
  Whatever is asked of a node, recorded on it or probed, in any order: its health flag is 0
  or 1, a node that is still marked healthy has fewer than three consecutive failures, its
  breaker keeps its own invariant, and recording a failure on a healthy node returns.
\<close>

theorem node_health_invariant:
  assumes "node_reach n"
  shows "(ns_healthy n = 0 \<or> ns_healthy n = 1) \<and> (is_healthy n \<longrightarrow> ns_fail_count n < 3) \<and>
    (is_healthy n \<longrightarrow> \<not> panics (node_record_failure clk n))"
proof -
  have inv: "node_inv n" using assms
  proof (induction rule: node_reach.induct)
    case (fresh cfg cb t)
    then show ?case by (cases cb) (simp_all add: node_inv_def node_new_def Let_def cb_inv_new)
  qed (blast intro: node_step_inv)
  moreover have "\<not> panics (node_record_failure clk n)" if h: "is_healthy n"
  proof -
    have "unat (ns_fail_count n) < 3"
      using inv h by (simp add: node_inv_def is_healthy_def word_less_nat_alt)
    then have "unat (ns_fail_count n) + unat (1 :: u32) < 2 ^ 32" by simp
    from add_u32_small [OF this] have a: "add_u32 (ns_fail_count n) 1 = Val (ns_fail_count n + 1)"
      by simp
    show ?thesis
    proof (cases "ns_breaker n")
      case None
      then show ?thesis by (simp add: node_record_failure_def a Let_def mark_unhealthy_def)
    next
      case (Some cb)
      then obtain cb' where "record_failure clk cb = Val cb'"
        using inv record_failure_total [of cb clk] by (auto simp: node_inv_def)
      with Some show ?thesis by (simp add: node_record_failure_def a Let_def mark_unhealthy_def)
    qed
  qed
  ultimately show ?thesis by (simp add: node_inv_def is_healthy_def)
qed

theorem node_health_invariant_witness:
  "node_reach (health_check_node ProbeErr (node_new (serde_upstream_node (Tcp ''a:80'')) None 0)) \<and>
   ns_healthy (health_check_node ProbeErr (node_new (serde_upstream_node (Tcp ''a:80'')) None 0)) = 0"
proof -
  have r: "node_reach (health_check_node ProbeErr (node_new (serde_upstream_node (Tcp ''a:80'')) None 0))"
    by (rule node_reach.step [OF node_reach.fresh node_step.probe])
  with node_health_invariant [OF r, of "\<lambda>_. 0"] show ?thesis
    by (simp add: health_check_node_def mark_unhealthy_def)
qed

end
