(* ===== verification/Vhost.thy ===== *)
theory Vhost
  imports Rewrite Real_Ip Load_Balancer
begin

text \<open>
  Virtual hosts (\<^verbatim>\<open>src/dispatcher/vhost.rs\<close>): the runtime form of a site, the registry with its
  exact, wildcard and fallback entries, lookup, and the registry part of hot reload
  (\<^verbatim>\<open>apply_diff\<close> of \<^verbatim>\<open>src/config/hot_reload.rs\<close>) and of the admin interface
  (\<^verbatim>\<open>apply_config\<close>, \<^verbatim>\<open>rollback\<close> of \<^verbatim>\<open>src/admin_api/handlers/config.rs\<close>).

  A hash map is an association list with distinct keys; its order stands for the unspecified
  order of iteration. An \<^verbatim>\<open>Arc\<close> is a pair of its address and the immutable value it points to.
\<close>

type_synonym 's arc = "nat \<times> 's"

section \<open>Runtime sites\<close>

record ('re, 'l) site_info =
  si_name :: string
  si_locations :: "'re compiled_location list"
  si_force_https :: bool
  si_websocket :: bool
  si_gzip :: "bool option"
  si_gzip_comp_level :: "u32 option"
  si_compress :: site_compress_config
  si_root :: "string option"
  si_canonical_root :: "string option"
  si_index :: "string list"
  si_rewrites :: "'re compiled_rewrite list"
  si_hsts :: "hsts_config option"
  si_hsts_header_value :: "string option"
  si_acme :: bool
  si_fallback :: bool
  si_listen_tls :: "u16 list"
  si_error_pages :: "(u16 \<times> string) list"
  si_upstreams :: "upstream_config list"
  si_upstream_pools :: "string \<rightharpoonup> upstream_pool"
  si_tls :: "tls_config option"
  si_fastcgi :: "fastcgi_config option"
  si_proxy_cache :: "proxy_cache_config option"
  si_real_ip :: "compiled_real_ip option"
  si_access_logger :: "'l option"
  si_proxy_cache_arc :: "nat option"
  si_fcgi_cache_arc :: "nat option"

text \<open>
  What building a site takes from outside: the expression library, \<^verbatim>\<open>canonicalize\<close>, the header
  library's check of a value, \<^verbatim>\<open>str::to_lowercase\<close>, and, for a site allocated at an address, where
  its counters are allocated and the clock its breakers start from.
\<close>

record 're site_env =
  se_rx :: "'re path_regex"
  se_canonicalize :: "string \<Rightarrow> string option"
  se_header_value :: "string \<Rightarrow> string option"
  se_to_lowercase :: "string \<Rightarrow> string"
  se_counters :: "nat \<Rightarrow> nat"
  se_clk :: "nat \<Rightarrow> string \<Rightarrow> nat \<Rightarrow> u64"

definition hsts_value :: "hsts_config \<Rightarrow> string" where
  "hsts_value h =
     ''max-age='' @ dec (unat (hsts_max_age h))
       @ (if hsts_include_sub_domains h then ''; includeSubDomains'' else [])
       @ (if hsts_preload h then ''; preload'' else [])"

definition site_from_config :: "'re site_env \<Rightarrow> nat \<Rightarrow> site_config \<Rightarrow> ('re, 'l) site_info" where
  "site_from_config env addr cfg =
     \<lparr>si_name = site_name cfg,
      si_locations = compile_locations (se_rx env) (se_counters env addr) (effective_locations cfg),
      si_force_https = (force_https cfg \<and> listen_tls cfg \<noteq> []),
      si_websocket = websocket cfg, si_gzip = site_gzip cfg, si_gzip_comp_level = site_gzip_comp_level cfg,
      si_compress = site_compress cfg, si_root = site_root cfg,
      si_canonical_root = Option.bind (site_root cfg) (se_canonicalize env),
      si_index = site_index cfg,
      si_rewrites = filter_map (compiled_rewrite_new (se_rx env)) (site_rewrites cfg),
      si_hsts = hsts cfg,
      si_hsts_header_value =
        (case hsts cfg of
           Some h \<Rightarrow> if 0 < hsts_max_age h then se_header_value env (hsts_value h) else None
         | None \<Rightarrow> None),
      si_acme = (case site_tls cfg of Some t \<Rightarrow> acme t | None \<Rightarrow> False),
      si_fallback = fallback cfg, si_listen_tls = listen_tls cfg, si_error_pages = error_pages cfg,
      si_upstreams = upstreams cfg,
      si_upstream_pools =
        map_of (rev (map (\<lambda>u. (uc_name u, pool_from_config (se_clk env addr (uc_name u)) u)) (upstreams cfg))),
      si_tls = site_tls cfg, si_fastcgi = site_fastcgi cfg, si_proxy_cache = site_proxy_cache cfg,
      si_real_ip = Option.bind (site_real_ip cfg) compile_real_ip,
      si_access_logger = None, si_proxy_cache_arc = None, si_fcgi_cache_arc = None\<rparr>"

section \<open>The registry\<close>

record ('re, 'l) vhost_inner =
  vh_exact :: "(string \<times> ('re, 'l) site_info arc) list"
  vh_wildcard :: "(string \<times> ('re, 'l) site_info arc) list"
  vh_fallback :: "('re, 'l) site_info arc option"

definition default_registry :: "('re, 'l) vhost_inner" where
  "default_registry = \<lparr>vh_exact = [], vh_wildcard = [], vh_fallback = None\<rparr>"

definition retain_others :: "string \<Rightarrow> (string \<times> ('re, 'l) site_info arc) list \<Rightarrow> (string \<times> ('re, 'l) site_info arc) list" where
  "retain_others name = filter (\<lambda>(_, v). si_name (snd v) \<noteq> name)"

fun insert_names ::
  "(string \<Rightarrow> string) \<Rightarrow> 's arc \<Rightarrow> string list \<Rightarrow> (string \<times> 's arc) list \<times> (string \<times> 's arc) list
     \<Rightarrow> (string \<times> 's arc) list \<times> (string \<times> 's arc) list" where
  "insert_names lower info [] (exact, wildcard) = (exact, wildcard)"
| "insert_names lower info (sn # sns) (exact, wildcard) =
     (if starts_with sn ''*.''
      then insert_names lower info sns (exact, AList.update (lower (drop 2 sn)) info wildcard)
      else insert_names lower info sns (AList.update (lower sn) info exact, wildcard))"

definition upsert_site :: "'re site_env \<Rightarrow> nat \<Rightarrow> site_config \<Rightarrow> ('re, 'l) vhost_inner \<Rightarrow> ('re, 'l) vhost_inner" where
  "upsert_site env addr cfg r =
     (let info = (addr, site_from_config env addr cfg);
          (exact, wildcard) = insert_names (se_to_lowercase env) info (server_name cfg)
            (retain_others (site_name cfg) (vh_exact r), retain_others (site_name cfg) (vh_wildcard r))
      in \<lparr>vh_exact = exact, vh_wildcard = wildcard,
          vh_fallback = (if fallback cfg then Some info else vh_fallback r)\<rparr>)"

definition registry_from_config :: "'re site_env \<Rightarrow> nat \<Rightarrow> site_config list \<Rightarrow> ('re, 'l) vhost_inner" where
  "registry_from_config env base sites =
     fold (\<lambda>(i, s). upsert_site env (base + i) s) (enumerate 0 sites) default_registry"

definition inject_site_resources ::
  "nat \<Rightarrow> string \<Rightarrow> 'l option \<Rightarrow> nat option \<Rightarrow> nat option \<Rightarrow> ('re, 'l) vhost_inner \<Rightarrow> ('re, 'l) vhost_inner" where
  "inject_site_resources addr name logger proxy_cache fcgi_cache r =
     (case find (\<lambda>v. si_name (snd v) = name) (map snd (vh_exact r)) of
        None \<Rightarrow> r
      | Some v \<Rightarrow>
          (let new_arc = (addr, (snd v)\<lparr>si_access_logger := logger, si_proxy_cache_arc := proxy_cache,
                                       si_fcgi_cache_arc := fcgi_cache\<rparr>);
               set_all = map (\<lambda>(k, v). (k, if si_name (snd v) = name then new_arc else v))
           in \<lparr>vh_exact = set_all (vh_exact r), vh_wildcard = set_all (vh_wildcard r),
               vh_fallback = (case vh_fallback r of
                   Some f \<Rightarrow> if si_name (snd f) = name then Some new_arc else Some f
                 | None \<Rightarrow> None)\<rparr>))"

definition remove_site :: "string \<Rightarrow> ('re, 'l) vhost_inner \<Rightarrow> ('re, 'l) vhost_inner" where
  "remove_site name r =
     \<lparr>vh_exact = retain_others name (vh_exact r), vh_wildcard = retain_others name (vh_wildcard r),
      vh_fallback = (case vh_fallback r of
          Some f \<Rightarrow> if si_name (snd f) = name then None else Some f
        | None \<Rightarrow> None)\<rparr>"

definition lookup_inner :: "('re, 'l) vhost_inner \<Rightarrow> string \<Rightarrow> ('re, 'l) site_info arc option" where
  "lookup_inner r host =
     (let host_lower = (if list_all (\<lambda>c. \<not> is_ascii_upper c) host then host else ascii_lower host)
      in case map_of (vh_exact r) host_lower of
           Some site \<Rightarrow> Some site
         | None \<Rightarrow>
             (case (case find_idx CHR ''.'' host_lower of
                      Some dot_pos \<Rightarrow> map_of (vh_wildcard r) (drop (dot_pos + 1) host_lower)
                    | None \<Rightarrow> None) of
                Some site \<Rightarrow> Some site
              | None \<Rightarrow> vh_fallback r))"

definition strip_port :: "string \<Rightarrow> string" where
  "strip_port host =
     (case (if starts_with host ''['' then find_idx CHR '']'' host else None) of
        Some e \<Rightarrow> take (Suc e) host
      | None \<Rightarrow> (case rfind_idx CHR '':'' host of Some pos \<Rightarrow> take pos host | None \<Rightarrow> host))"

definition lookup_host :: "('re, 'l) vhost_inner \<Rightarrow> string \<Rightarrow> ('re, 'l) site_info arc option" where
  "lookup_host r host = lookup_inner r (strip_port host)"

definition lookup_by_host :: "('re, 'l) vhost_inner \<Rightarrow> string \<Rightarrow> ('re, 'l) site_info arc option" where
  "lookup_by_host r host = lookup_inner r host"

definition lookup_by_host_strict :: "('re, 'l) vhost_inner \<Rightarrow> string \<Rightarrow> ('re, 'l) site_info arc option" where
  "lookup_by_host_strict r host = lookup_inner r host"

definition site_count :: "('re, 'l) vhost_inner \<Rightarrow> nat" where
  "site_count r = length (remdups (map (\<lambda>(_, v). si_name (snd v)) (vh_exact r)))"

fun dedup_arcs :: "nat list \<Rightarrow> 's arc list \<Rightarrow> 's arc list" where
  "dedup_arcs seen [] = []"
| "dedup_arcs seen (v # vs) =
     (if fst v \<in> set seen then dedup_arcs seen vs else v # dedup_arcs (fst v # seen) vs)"

definition all_sites :: "('re, 'l) vhost_inner \<Rightarrow> ('re, 'l) site_info arc list" where
  "all_sites r = dedup_arcs [] (map snd (vh_exact r))"

section \<open>Reconfiguration at run time\<close>

text \<open>
  The registry part of \<^verbatim>\<open>apply_diff\<close>. The three lists are the names in the order in which the hash
  sets are iterated; \<open>ser\<close> is the TOML serialisation that changes are detected with. Duplicate
  names collapse to the last site, as collecting into a hash map does.
\<close>

definition site_map :: "site_config list \<Rightarrow> string \<rightharpoonup> site_config" where
  "site_map sites = map_of (rev (map (\<lambda>s. (site_name s, s)) sites))"

definition site_changed :: "(site_config \<Rightarrow> string option) \<Rightarrow> site_config \<Rightarrow> site_config \<Rightarrow> bool" where
  "site_changed ser old new = (ser old \<noteq> ser new)"

definition upsert_named ::
  "'re site_env \<Rightarrow> (string \<Rightarrow> nat) \<Rightarrow> (string \<rightharpoonup> site_config) \<Rightarrow> string \<Rightarrow> ('re, 'l) vhost_inner \<Rightarrow> ('re, 'l) vhost_inner" where
  "upsert_named env alloc new_map name r =
     (case new_map name of Some s \<Rightarrow> upsert_site env (alloc name) s r | None \<Rightarrow> r)"

definition update_changed ::
  "'re site_env \<Rightarrow> (string \<Rightarrow> nat) \<Rightarrow> (site_config \<Rightarrow> string option) \<Rightarrow> (string \<rightharpoonup> site_config) \<Rightarrow> (string \<rightharpoonup> site_config)
     \<Rightarrow> string \<Rightarrow> ('re, 'l) vhost_inner \<Rightarrow> ('re, 'l) vhost_inner" where
  "update_changed env alloc ser old_map new_map name r =
     (case (old_map name, new_map name) of
        (Some old_site, Some new_site) \<Rightarrow>
          if site_changed ser old_site new_site then upsert_site env (alloc name) new_site r else r
      | _ \<Rightarrow> r)"

definition apply_diff ::
  "'re site_env \<Rightarrow> (string \<Rightarrow> nat) \<Rightarrow> (site_config \<Rightarrow> string option) \<Rightarrow> string list \<Rightarrow> string list \<Rightarrow> string list
     \<Rightarrow> site_config list \<Rightarrow> site_config list \<Rightarrow> ('re, 'l) vhost_inner \<Rightarrow> ('re, 'l) vhost_inner" where
  "apply_diff env alloc ser removed added common old new r =
     (let old_map = site_map old; new_map = site_map new
      in fold (update_changed env alloc ser old_map new_map) common
           (fold (upsert_named env alloc new_map) added
             (fold remove_site removed r)))"

definition apply_config :: "'re site_env \<Rightarrow> nat \<Rightarrow> site_config list \<Rightarrow> ('re, 'l) vhost_inner \<Rightarrow> ('re, 'l) vhost_inner" where
  "apply_config env base new r =
     (let old_sites = map (\<lambda>v. si_name (snd v)) (all_sites r);
          new_names = map site_name new;
          r1 = fold (\<lambda>name r. if name \<in> set new_names then r else remove_site name r) old_sites r
      in fold (\<lambda>(i, s). upsert_site env (base + i) s) (enumerate 0 new) r1)"

definition rollback :: "'re site_env \<Rightarrow> nat \<Rightarrow> site_config list \<Rightarrow> ('re, 'l) vhost_inner \<Rightarrow> ('re, 'l) vhost_inner" where
  "rollback env base old r = fold (\<lambda>(i, s). upsert_site env (base + i) s) (enumerate 0 old) r"

section \<open>A table of the registry\<close>

text \<open>
  The exact and the wildcard table obey the same laws: inserting a site sets its keys and drops
  its other entries, removing a site drops its entries. What follows from the laws, for a registry
  built at start-up and for one changed by a reload, is proved once for both.
\<close>

definition drop_name :: "string \<Rightarrow> ('re, 'l) site_info arc option \<Rightarrow> ('re, 'l) site_info arc option" where
  "drop_name name m = (case m of Some v \<Rightarrow> if si_name (snd v) = name then None else Some v | None \<Rightarrow> None)"

lemma drop_name_simps [simp]:
  "drop_name name None = None"
  "drop_name name (Some v) = (if si_name (snd v) = name then None else Some v)"
  by (simp_all add: drop_name_def)

definition strip_resources :: "('re, 'l) site_info \<Rightarrow> ('re, 'l) site_info" where
  "strip_resources i = i\<lparr>si_access_logger := None, si_proxy_cache_arc := None, si_fcgi_cache_arc := None\<rparr>"

text \<open>An entry runs a configured site, up to the resources injected at start-up.\<close>

definition runs_config :: "'re site_env \<Rightarrow> site_config \<Rightarrow> ('re, 'l) site_info arc \<Rightarrow> bool" where
  "runs_config env s v = (\<exists>a. strip_resources (snd v) = site_from_config env a s)"

lemma si_from_config [simp]:
  "si_name (site_from_config env a s) = site_name s"
  "si_fallback (site_from_config env a s) = fallback s"
  "si_access_logger (site_from_config env a s) = None"
  "si_proxy_cache_arc (site_from_config env a s) = None"
  "si_fcgi_cache_arc (site_from_config env a s) = None"
  by (simp_all add: site_from_config_def)

lemma runs_config_new [simp]: "runs_config env s (a, site_from_config env a s)"
  by (auto simp: runs_config_def strip_resources_def site_from_config_def)

lemma runs_config_name: "runs_config env s v \<Longrightarrow> si_name (snd v) = site_name s"
proof -
  assume "runs_config env s v"
  then obtain a where "strip_resources (snd v) = site_from_config env a s" by (auto simp: runs_config_def)
  from arg_cong [OF this, of si_name] show ?thesis by (simp add: strip_resources_def)
qed

text \<open>One step of a reload: a name with its new configuration, or with none.\<close>

fun reload_step :: "'re site_env \<Rightarrow> (string \<Rightarrow> nat) \<Rightarrow> string \<times> site_config option \<Rightarrow> ('re, 'l) vhost_inner \<Rightarrow> ('re, 'l) vhost_inner" where
  "reload_step env alloc (n, Some s) r = upsert_site env (alloc n) s r"
| "reload_step env alloc (n, None) r = remove_site n r"

text \<open>A table leads every key to the site of a configuration that claims it, and no other key anywhere.\<close>

definition table_serves ::
  "'re site_env \<Rightarrow> (site_config \<Rightarrow> string set) \<Rightarrow> site_config list \<Rightarrow> (string \<Rightarrow> ('re, 'l) site_info arc option) \<Rightarrow> string \<Rightarrow> bool" where
  "table_serves env keys sites m k =
     (case find (\<lambda>s. k \<in> keys s) sites of
        Some s \<Rightarrow> (\<exists>v. m k = Some v \<and> runs_config env s v)
      | None \<Rightarrow> m k = None)"

definition disjoint_keys :: "(site_config \<Rightarrow> string set) \<Rightarrow> site_config list \<Rightarrow> bool" where
  "disjoint_keys keys sites = (\<forall>s\<in>set sites. \<forall>t\<in>set sites. s \<noteq> t \<longrightarrow> keys s \<inter> keys t = {})"

lemma find_owner:
  assumes "disjoint_keys keys sites" and "s \<in> set sites" and "k \<in> keys s"
  shows "find (\<lambda>s. k \<in> keys s) sites = Some s"
  using assms by (cases "find (\<lambda>s. k \<in> keys s) sites")
    (auto simp: find_None_all disjoint_keys_def dest!: find_SomeD)

locale host_table =
  fixes env :: "'re site_env"
    and sel :: "('re, 'l) vhost_inner \<Rightarrow> string \<Rightarrow> ('re, 'l) site_info arc option"
    and keys :: "site_config \<Rightarrow> string set"
    and wf :: "('re, 'l) vhost_inner \<Rightarrow> bool"
  assumes wf_default: "wf default_registry"
    and wf_upsert: "wf r \<Longrightarrow> wf (upsert_site env a s r)"
    and wf_remove: "wf r \<Longrightarrow> wf (remove_site n r)"
    and sel_default: "sel default_registry k = None"
    and sel_upsert: "wf r \<Longrightarrow> sel (upsert_site env a s r) k
      = (if k \<in> keys s then Some (a, site_from_config env a s) else drop_name (site_name s) (sel r k))"
    and sel_remove: "wf r \<Longrightarrow> sel (remove_site n r) k = drop_name n (sel r k)"
begin

lemma fold_upserts:
  assumes "distinct (map (site_name \<circ> snd) es)"
  shows "wf (fold (\<lambda>(i, s). upsert_site env (base + i) s) es default_registry) \<and>
    sel (fold (\<lambda>(i, s). upsert_site env (base + i) s) es default_registry) k
      = map_option (\<lambda>(i, s). (base + i, site_from_config env (base + i) s)) (find (\<lambda>(i, s). k \<in> keys s) (rev es))"
  using assms
proof (induction es rule: rev_induct)
  case Nil
  then show ?case by (simp add: wf_default sel_default)
next
  case (snoc e es)
  obtain i s where e: "e = (i, s)" by (cases e)
  let ?r = "fold (\<lambda>(i, s). upsert_site env (base + i) s) es default_registry"
  let ?hit = "find (\<lambda>(i, s). k \<in> keys s) (rev es)"
  from snoc have IH: "wf ?r" "sel ?r k = map_option (\<lambda>(i, s). (base + i, site_from_config env (base + i) s)) ?hit"
    and new: "site_name s \<notin> (site_name \<circ> snd) ` set es" by (simp_all add: e)
  have "drop_name (site_name s) (sel ?r k) = sel ?r k"
  proof (cases ?hit)
    case (Some h)
    then have "h \<in> set es" using find_SomeD [OF Some] by simp
    with new Some IH(2) show ?thesis by (cases h) force
  qed (simp add: IH)
  then show ?case using IH by (simp add: e wf_upsert sel_upsert)
qed

text \<open>With disjoint claims the table built at start-up serves the configuration.\<close>

lemma start_serves:
  assumes "distinct (map site_name sites)" and "disjoint_keys keys sites"
  shows "table_serves env keys sites (sel (registry_from_config env base sites)) k"
proof -
  let ?es = "enumerate 0 sites"
  have "distinct (map (site_name \<circ> snd) ?es)" using assms(1) by (simp flip: map_map)
  then have sel: "sel (registry_from_config env base sites) k
      = map_option (\<lambda>(i, s). (base + i, site_from_config env (base + i) s)) (find (\<lambda>(i, s). k \<in> keys s) (rev ?es))"
    by (simp add: registry_from_config_def fold_upserts)
  have "set sites = snd ` set ?es" by (metis list.set_map map_snd_enumerate)
  then have set: "(\<exists>i. (i, s) \<in> set ?es) = (s \<in> set sites)" for s by force
  show ?thesis
  proof (cases "find (\<lambda>(i, s). k \<in> keys s) (rev ?es)")
    case None
    then have "find (\<lambda>s. k \<in> keys s) sites = None" using set by (force simp: find_None_all)
    then show ?thesis using None sel by (simp add: table_serves_def)
  next
    case (Some e)
    then obtain i s where e: "e = (i, s)" "(i, s) \<in> set ?es" "k \<in> keys s" by (auto dest!: find_SomeD)
    then have "find (\<lambda>s. k \<in> keys s) sites = Some s" using set by (intro find_owner [OF assms(2)]) auto
    then show ?thesis using Some sel e(1) by (simp add: table_serves_def)
  qed
qed

lemma wf_reload: "wf r \<Longrightarrow> wf (fold (reload_step env alloc) ops r)"
proof (induction ops arbitrary: r)
  case Nil
  then show ?case by simp
next
  case (Cons x ops)
  have "wf (reload_step env alloc x r)" using Cons.prems
    by (cases x; cases "snd x") (auto intro: wf_upsert wf_remove)
  then show ?case by (simp add: Cons.IH)
qed

definition touches :: "string \<Rightarrow> string \<times> site_config option \<Rightarrow> bool" where
  "touches k = (\<lambda>(n, c). \<exists>s. c = Some s \<and> k \<in> keys s)"

text \<open>A key that no step claims loses its entry exactly if the entry's site is one of the steps.\<close>

lemma reload_untouched:
  assumes "wf r" and "\<forall>x\<in>set ops. \<not> touches k x" and "\<forall>(n, c)\<in>set ops. \<forall>s. c = Some s \<longrightarrow> site_name s = n"
  shows "sel (fold (reload_step env alloc) ops r) k
    = (case sel r k of Some v \<Rightarrow> if si_name (snd v) \<in> fst ` set ops then None else Some v | None \<Rightarrow> None)"
  using assms
proof (induction ops arbitrary: r)
  case Nil
  then show ?case by (simp split: option.splits)
next
  case (Cons x ops)
  obtain n c where x: "x = (n, c)" by (cases x)
  have step: "wf (reload_step env alloc x r)" "sel (reload_step env alloc x r) k = drop_name n (sel r k)"
    using Cons.prems by (cases c; auto simp: x touches_def intro: wf_upsert wf_remove sel_remove simp: sel_upsert)+
  have "sel (fold (reload_step env alloc) (x # ops) r) k
      = (case drop_name n (sel r k) of Some v \<Rightarrow> if si_name (snd v) \<in> fst ` set ops then None else Some v | None \<Rightarrow> None)"
    using Cons.IH [OF step(1)] Cons.prems by (simp add: step(2))
  then show ?case by (auto simp: x split: option.splits)
qed

text \<open>A key that one step claims ends with that step's site.\<close>

lemma reload_touched:
  assumes "wf r" and "(n, Some s) \<in> set ops" and "k \<in> keys s" and "distinct (map fst ops)"
    and only: "\<forall>x\<in>set ops. touches k x \<longrightarrow> x = (n, Some s)"
    and named: "\<forall>(n, c)\<in>set ops. \<forall>s. c = Some s \<longrightarrow> site_name s = n"
  shows "sel (fold (reload_step env alloc) ops r) k = Some (alloc n, site_from_config env (alloc n) s)"
proof -
  obtain pre post where ops: "ops = pre @ (n, Some s) # post" using assms(2) by (auto simp: in_set_conv_decomp)
  let ?r = "fold (reload_step env alloc) pre r"
  have wf: "wf ?r" using assms(1) by (rule wf_reload)
  have notin: "n \<notin> fst ` set post" using assms(4) ops by auto
  then have "\<forall>x\<in>set post. \<not> touches k x" using only ops by force
  moreover have "sel (upsert_site env (alloc n) s ?r) k = Some (alloc n, site_from_config env (alloc n) s)"
    using wf assms(3) by (simp add: sel_upsert)
  moreover have "\<forall>(n, c)\<in>set post. \<forall>s. c = Some s \<longrightarrow> site_name s = n" using named ops by auto
  moreover have "site_name s = n" using named ops by auto
  ultimately show ?thesis
    using reload_untouched [OF wf_upsert [OF wf], of post k alloc] notin by (simp add: ops)
qed

end

section \<open>Hot reload\<close>

text \<open>The iteration lists of \<^verbatim>\<open>apply_diff\<close>: each difference of the name sets, in some order.\<close>

definition diff_lists :: "site_config list \<Rightarrow> site_config list \<Rightarrow> string list \<Rightarrow> string list \<Rightarrow> string list \<Rightarrow> bool" where
  "diff_lists old new removed added common =
     (distinct (removed @ added @ common) \<and>
      set removed = site_name ` set old - site_name ` set new \<and>
      set added = site_name ` set new - site_name ` set old \<and>
      set common = site_name ` set old \<inter> site_name ` set new)"

text \<open>Serialisation tells an old from a new site whenever they differ.\<close>

definition ser_faithful :: "(site_config \<Rightarrow> string option) \<Rightarrow> site_config list \<Rightarrow> site_config list \<Rightarrow> bool" where
  "ser_faithful ser old new = (\<forall>s\<in>set old. \<forall>t\<in>set new. ser s = ser t \<longrightarrow> s = t)"

definition reload_ops ::
  "(site_config \<Rightarrow> string option) \<Rightarrow> site_config list \<Rightarrow> site_config list \<Rightarrow> string list \<Rightarrow> string list \<Rightarrow> string list
     \<Rightarrow> (string \<times> site_config option) list" where
  "reload_ops ser old new removed added common =
     map (\<lambda>n. (n, None)) removed @ map (\<lambda>n. (n, site_map new n)) added
     @ map (\<lambda>n. (n, site_map new n))
         (filter (\<lambda>n. site_changed ser (the (site_map old n)) (the (site_map new n))) common)"

lemma site_map_eq:
  assumes "distinct (map site_name sites)"
  shows "(site_map sites n = Some s) = (s \<in> set sites \<and> site_name s = n)"
proof -
  have "distinct (map fst (rev (map (\<lambda>s. (site_name s, s)) sites)))"
    using assms by (simp add: rev_map [symmetric] comp_def)
  then have "(site_map sites n = Some s) = ((n, s) \<in> set (rev (map (\<lambda>s. (site_name s, s)) sites)))"
    unfolding site_map_def by (rule map_of_eq_Some_iff)
  then show ?thesis by auto
qed

lemma site_map_name: "s \<in> set sites \<Longrightarrow> distinct (map site_name sites) \<Longrightarrow> site_map sites (site_name s) = Some s"
  by (simp add: site_map_eq)

lemma fold_if: "fold (\<lambda>n. if p n then f n else id) xs r = fold f (filter p xs) r"
  by (induction xs arbitrary: r) auto

lemma fold_map_cong:
  "(\<And>x r. x \<in> set xs \<Longrightarrow> f x r = g (h x) r) \<Longrightarrow> fold f xs r = fold g (map h xs) r"
  by (induction xs arbitrary: r) auto

lemma apply_diff_ops:
  assumes new: "distinct (map site_name new)" and old: "distinct (map site_name old)"
    and lists: "diff_lists old new removed added common"
  shows "apply_diff env alloc ser removed added common old new r
    = fold (reload_step env alloc) (reload_ops ser old new removed added common) r"
proof -
  have in_new: "\<exists>s. site_map new n = Some s" if "n \<in> set added \<union> set common" for n
    using that lists site_map_name [OF _ new] by (auto simp: diff_lists_def)
  have in_old: "\<exists>s. site_map old n = Some s" if "n \<in> set common" for n
    using that lists site_map_name [OF _ old] by (auto simp: diff_lists_def)
  have rem: "fold remove_site removed r = fold (reload_step env alloc) (map (\<lambda>n. (n, None)) removed) r" for r
    by (rule fold_map_cong) simp
  have add: "fold (upsert_named env alloc (site_map new)) added r
      = fold (reload_step env alloc) (map (\<lambda>n. (n, site_map new n)) added) r" for r
    using in_new by (intro fold_map_cong) (force simp: upsert_named_def)
  have "fold (update_changed env alloc ser (site_map old) (site_map new)) common r
      = fold (\<lambda>n. if site_changed ser (the (site_map old n)) (the (site_map new n))
                  then reload_step env alloc (n, site_map new n) else id) common r" for r
    using in_old in_new by (intro fold_cong) (force simp: update_changed_def fun_eq_iff)+
  then have upd: "fold (update_changed env alloc ser (site_map old) (site_map new)) common r
      = fold (reload_step env alloc) (map (\<lambda>n. (n, site_map new n))
          (filter (\<lambda>n. site_changed ser (the (site_map old n)) (the (site_map new n))) common)) r" for r
    by (simp add: fold_if fold_map comp_def)
  show ?thesis unfolding apply_diff_def reload_ops_def Let_def rem add upd by simp
qed

text \<open>The steps are the sites of the new configuration that the old one did not have as they are.\<close>

lemma reload_ops_some:
  assumes old: "distinct (map site_name old)" and new: "distinct (map site_name new)"
    and lists: "diff_lists old new removed added common"
    and ser: "ser_faithful ser old new"
  shows "(n, Some s) \<in> set (reload_ops ser old new removed added common)
    \<longleftrightarrow> s \<in> set new \<and> site_name s = n \<and> s \<notin> set old"
proof -
  have "site_changed ser (the (site_map old n)) s \<longleftrightarrow> s \<notin> set old"
    if sn: "s \<in> set new" and n: "site_name s = n" and c: "n \<in> set common" for n
  proof -
    obtain t where t: "t \<in> set old" "site_name t = n" using c lists by (auto simp: diff_lists_def)
    then have "s \<in> set old \<longleftrightarrow> s = t" using n old by (auto simp: distinct_map inj_on_def)
    then show ?thesis using t ser sn site_map_name [OF t(1) old] by (auto simp: site_changed_def ser_faithful_def)
  qed
  moreover have "s \<notin> set old" if "site_name s \<in> set added" using that lists by (auto simp: diff_lists_def)
  moreover have "s \<in> set new \<Longrightarrow> site_name s \<in> set added \<union> set common" using lists by (auto simp: diff_lists_def)
  moreover have "s \<in> set new \<Longrightarrow> the (site_map new (site_name s)) = s" by (simp add: site_map_name [OF _ new])
  ultimately show ?thesis
    unfolding reload_ops_def by (auto simp: image_iff eq_commute [of "Some s"] site_map_eq [OF new])
qed

text \<open>An old site is one of the steps exactly if the new configuration does not have it as it is.\<close>

lemma reload_ops_names:
  assumes old: "distinct (map site_name old)" and new: "distinct (map site_name new)"
    and lists: "diff_lists old new removed added common"
    and ser: "ser_faithful ser old new"
    and s: "s \<in> set old"
  shows "site_name s \<in> fst ` set (reload_ops ser old new removed added common) \<longleftrightarrow> s \<notin> set new"
proof -
  have "site_name s \<notin> set added" using s lists by (auto simp: diff_lists_def)
  moreover have "site_name s \<in> set removed \<Longrightarrow> s \<notin> set new" using lists by (auto simp: diff_lists_def)
  moreover have "site_changed ser s (the (site_map new (site_name s))) \<longleftrightarrow> s \<notin> set new"
    if c: "site_name s \<in> set common"
  proof -
    obtain t where t: "t \<in> set new" "site_name t = site_name s" using c lists by (auto simp: diff_lists_def)
    then have "s \<in> set new \<longleftrightarrow> s = t" using new by (auto simp: distinct_map inj_on_def)
    then show ?thesis using t ser s site_map_name [OF t(1) new] by (auto simp: site_changed_def ser_faithful_def)
  qed
  moreover have "site_name s \<in> set removed \<union> set common" using s lists by (auto simp: diff_lists_def)
  ultimately show ?thesis
    using site_map_name [OF s old] by (auto simp: reload_ops_def image_Un image_image)
qed

context host_table
begin

text \<open>After a reload each key leads to the site that claims it in the new configuration.\<close>

lemma apply_diff_serves:
  assumes wf: "wf r" and old: "distinct (map site_name old)" and new: "distinct (map site_name new)"
    and dold: "disjoint_keys keys old" and dnew: "disjoint_keys keys new"
    and lists: "diff_lists old new removed added common"
    and ser: "ser_faithful ser old new"
    and before: "table_serves env keys old (sel r) k"
  shows "table_serves env keys new (sel (apply_diff env alloc ser removed added common old new r)) k"
proof -
  let ?ops = "reload_ops ser old new removed added common"
  let ?r = "fold (reload_step env alloc) ?ops r"
  note ops_some = reload_ops_some [OF old new lists ser] and names = reload_ops_names [OF old new lists ser]
  have named: "\<forall>(n, c)\<in>set ?ops. \<forall>s. c = Some s \<longrightarrow> site_name s = n" using ops_some by blast
  have dist: "distinct (map fst ?ops)"
    using lists by (auto simp: reload_ops_def diff_lists_def comp_def)
  have "table_serves env keys new (sel ?r) k"
  proof (cases "\<exists>s\<in>set new. k \<in> keys s")
    case True
    then obtain s where s: "s \<in> set new" "k \<in> keys s" by blast
    have only: "x = (site_name s, Some s)" if xin: "x \<in> set ?ops" and tx: "touches k x" for x
    proof -
      obtain n t where x: "x = (n, Some t)" "k \<in> keys t" using tx by (auto simp: touches_def)
      then have "t \<in> set new" "site_name t = n" using xin ops_some by blast+
      moreover have "t = s" using calculation(1) x(2) s dnew unfolding disjoint_keys_def by blast
      ultimately show ?thesis using x by simp
    qed
    have "\<exists>v. sel ?r k = Some v \<and> runs_config env s v"
    proof (cases "s \<in> set old")
      case True
      then obtain v where v: "sel r k = Some v" "runs_config env s v"
        using before find_owner [OF dold True s(2)] by (auto simp: table_serves_def)
      have "\<forall>x\<in>set ?ops. \<not> touches k x" using only ops_some True by blast
      moreover have "si_name (snd v) \<notin> fst ` set ?ops"
        using names [OF True] s(1) runs_config_name [OF v(2)] by simp
      ultimately show ?thesis using reload_untouched [OF wf _ named, of k alloc] v by simp
    next
      case False
      then have "(site_name s, Some s) \<in> set ?ops" using ops_some s(1) by blast
      then show ?thesis
        using reload_touched [OF wf _ s(2) dist _ named, of "site_name s" alloc] only by auto
    qed
    then show ?thesis using find_owner [OF dnew s] by (simp add: table_serves_def)
  next
    case False
    then have none: "find (\<lambda>s. k \<in> keys s) new = None" by (simp add: find_None_all)
    have "\<forall>x\<in>set ?ops. \<not> touches k x" using False ops_some by (auto simp: touches_def)
    note after = reload_untouched [OF wf this named, of alloc]
    have "sel ?r k = None"
    proof (cases "find (\<lambda>s. k \<in> keys s) old")
      case None
      then show ?thesis using before after by (simp add: table_serves_def)
    next
      case (Some t)
      then have t: "t \<in> set old" "k \<in> keys t" using find_SomeD [OF Some] by auto
      then have "site_name t \<in> fst ` set ?ops" using names [OF t(1)] False by blast
      moreover obtain v where "sel r k = Some v" "runs_config env t v"
        using before Some by (auto simp: table_serves_def)
      ultimately show ?thesis using after runs_config_name [of env t v] by simp
    qed
    then show ?thesis using none by (simp add: table_serves_def)
  qed
  then show ?thesis by (simp add: apply_diff_ops [OF new old lists])
qed

end

section \<open>The two tables\<close>

definition exact_keys :: "(string \<Rightarrow> string) \<Rightarrow> site_config \<Rightarrow> string set" where
  "exact_keys lower s = set (map lower (filter (\<lambda>sn. \<not> starts_with sn ''*.'') (server_name s)))"

definition wild_keys :: "(string \<Rightarrow> string) \<Rightarrow> site_config \<Rightarrow> string set" where
  "wild_keys lower s = set (map (\<lambda>sn. lower (drop 2 sn)) (filter (\<lambda>sn. starts_with sn ''*.'') (server_name s)))"

definition distinct_tables :: "('re, 'l) vhost_inner \<Rightarrow> bool" where
  "distinct_tables r = (distinct (map fst (vh_exact r)) \<and> distinct (map fst (vh_wildcard r)))"

lemma insert_names_lookup:
  "map_of (fst (insert_names lower info sns (e, w))) k
     = (if k \<in> set (map lower (filter (\<lambda>sn. \<not> starts_with sn ''*.'') sns)) then Some info else map_of e k)"
  "map_of (snd (insert_names lower info sns (e, w))) k
     = (if k \<in> set (map (\<lambda>sn. lower (drop 2 sn)) (filter (\<lambda>sn. starts_with sn ''*.'') sns)) then Some info else map_of w k)"
  by (induction sns arbitrary: e w) (auto simp: update_conv')

lemma insert_names_distinct:
  "distinct (map fst e) \<Longrightarrow> distinct (map fst w) \<Longrightarrow>
    distinct (map fst (fst (insert_names lower info sns (e, w)))) \<and> distinct (map fst (snd (insert_names lower info sns (e, w))))"
  by (induction sns arbitrary: e w) (auto simp: distinct_update)

lemma map_of_retain:
  "distinct (map fst xs) \<Longrightarrow> map_of (retain_others n xs) k = drop_name n (map_of xs k)"
  by (induction xs) (force simp: retain_others_def drop_name_def dest: map_of_SomeD split: option.splits)+

lemma distinct_retain: "distinct (map fst xs) \<Longrightarrow> distinct (map fst (retain_others n xs))"
  by (auto simp: retain_others_def intro: distinct_map_filter)

lemma upsert_tables:
  "vh_exact (upsert_site env a s r) = fst (insert_names (se_to_lowercase env) (a, site_from_config env a s) (server_name s)
     (retain_others (site_name s) (vh_exact r), retain_others (site_name s) (vh_wildcard r)))"
  "vh_wildcard (upsert_site env a s r) = snd (insert_names (se_to_lowercase env) (a, site_from_config env a s) (server_name s)
     (retain_others (site_name s) (vh_exact r), retain_others (site_name s) (vh_wildcard r)))"
  by (simp_all add: upsert_site_def Let_def split: prod.split)

lemmas table_laws = upsert_tables insert_names_lookup insert_names_distinct map_of_retain distinct_retain
  distinct_tables_def remove_site_def default_registry_def exact_keys_def wild_keys_def

interpretation exact_table: host_table env "\<lambda>r. map_of (vh_exact r)" "exact_keys (se_to_lowercase env)" distinct_tables
  for env :: "'re site_env"
  by unfold_locales (simp_all add: table_laws)

interpretation wild_table: host_table env "\<lambda>r. map_of (vh_wildcard r)" "wild_keys (se_to_lowercase env)" distinct_tables
  for env :: "'re site_env"
  by unfold_locales (simp_all add: table_laws)

section \<open>Which site answers a host\<close>

text \<open>The host name is compared in lower case; a wildcard covers exactly one label.\<close>

definition pick_site :: "(string \<Rightarrow> string) \<Rightarrow> ('e \<Rightarrow> site_config) \<Rightarrow> 'e list \<Rightarrow> string \<Rightarrow> 'e option" where
  "pick_site lower cfg es host =
     (let h = ascii_lower host
      in case find (\<lambda>e. h \<in> exact_keys lower (cfg e)) es of
           Some e \<Rightarrow> Some e
         | None \<Rightarrow>
             (case find_idx CHR ''.'' h of
                Some p \<Rightarrow> find (\<lambda>e. drop (p + 1) h \<in> wild_keys lower (cfg e)) es
              | None \<Rightarrow> None))"

lemma lookup_inner_lower:
  "lookup_inner r host =
     (let h = ascii_lower host
      in case map_of (vh_exact r) h of
           Some site \<Rightarrow> Some site
         | None \<Rightarrow>
             (case (case find_idx CHR ''.'' h of
                      Some p \<Rightarrow> map_of (vh_wildcard r) (drop (p + 1) h)
                    | None \<Rightarrow> None) of
                Some site \<Rightarrow> Some site
              | None \<Rightarrow> vh_fallback r))"
  by (cases "list_all (\<lambda>c. \<not> is_ascii_upper c) host") (simp_all add: lookup_inner_def ascii_lower_fixed)

lemma fallback_fold:
  "vh_fallback (fold (\<lambda>(i, s). upsert_site env (base + i) s) es r)
    = (case find (\<lambda>(i, s). fallback s) (rev es) of
         Some (i, s) \<Rightarrow> Some (base + i, site_from_config env (base + i) s) | None \<Rightarrow> vh_fallback r)"
proof (induction es arbitrary: r rule: rev_induct)
  case (snoc e es)
  then show ?case by (cases e) (simp add: upsert_site_def Let_def split: prod.split)
qed simp

text \<open>
  At start-up, with site names all different, a host is answered by the last configured site
  that lists it exactly, else by the last that has a wildcard for the host without its first
  label, else by the last fallback site, else by none; the comparison ignores ASCII case.
\<close>

theorem vhost_lookup_from_config:
  assumes "distinct (map site_name sites)"
  shows "lookup_inner (registry_from_config env base sites) host
    = map_option (\<lambda>(i, s). (base + i, site_from_config env (base + i) s))
        (case pick_site (se_to_lowercase env) snd (rev (enumerate 0 sites)) host of
           Some e \<Rightarrow> Some e
         | None \<Rightarrow> find (\<lambda>(i, s). fallback s) (rev (enumerate 0 sites)))"
proof -
  let ?es = "enumerate 0 sites"
  have d: "distinct (map (site_name \<circ> snd) ?es)" using assms by (simp flip: map_map)
  have ex: "map_of (vh_exact (registry_from_config env base sites)) k
      = map_option (\<lambda>(i, s). (base + i, site_from_config env (base + i) s))
          (find (\<lambda>(i, s). k \<in> exact_keys (se_to_lowercase env) s) (rev ?es))" for k
    by (simp add: registry_from_config_def exact_table.fold_upserts [OF d])
  have wi: "map_of (vh_wildcard (registry_from_config env base sites)) k
      = map_option (\<lambda>(i, s). (base + i, site_from_config env (base + i) s))
          (find (\<lambda>(i, s). k \<in> wild_keys (se_to_lowercase env) s) (rev ?es))" for k
    by (simp add: registry_from_config_def wild_table.fold_upserts [OF d])
  have fb: "vh_fallback (registry_from_config env base sites)
      = map_option (\<lambda>(i, s). (base + i, site_from_config env (base + i) s)) (find (\<lambda>(i, s). fallback s) (rev ?es))"
    by (auto simp: registry_from_config_def fallback_fold default_registry_def split: option.splits)
  show ?thesis
    unfolding lookup_inner_lower pick_site_def ex wi fb Let_def
    by (auto simp: split_def split: option.splits)
qed

section \<open>The life of a registry\<close>

definition hosts_ok :: "(string \<Rightarrow> string) \<Rightarrow> site_config list \<Rightarrow> bool" where
  "hosts_ok lower sites =
     (distinct (map site_name sites) \<and> disjoint_keys (exact_keys lower) sites \<and> disjoint_keys (wild_keys lower) sites)"

text \<open>
  A registry is built at start-up, has resources injected, and is reloaded any number of times;
  the index says which configuration is in force.
\<close>

inductive running :: "'re site_env \<Rightarrow> site_config list \<Rightarrow> ('re, 'l) vhost_inner \<Rightarrow> bool" for env where
  start: "hosts_ok (se_to_lowercase env) sites \<Longrightarrow> running env sites (registry_from_config env base sites)"
| inject: "running env sites r \<Longrightarrow> running env sites (inject_site_resources addr name logger pc fc r)"
| reload: "running env old r \<Longrightarrow> hosts_ok (se_to_lowercase env) new \<Longrightarrow>
    diff_lists old new removed added common \<Longrightarrow> ser_faithful ser old new \<Longrightarrow>
    running env new (apply_diff env alloc ser removed added common old new r)"

definition registry_serves :: "'re site_env \<Rightarrow> site_config list \<Rightarrow> ('re, 'l) vhost_inner \<Rightarrow> bool" where
  "registry_serves env sites r =
     (distinct_tables r \<and>
      (\<forall>k. table_serves env (exact_keys (se_to_lowercase env)) sites (map_of (vh_exact r)) k) \<and>
      (\<forall>k. table_serves env (wild_keys (se_to_lowercase env)) sites (map_of (vh_wildcard r)) k))"

lemma table_serves_entry:
  assumes "table_serves env keys sites m k" and "m k = Some v"
  obtains s where "s \<in> set sites" and "runs_config env s v"
  using assms by (auto simp: table_serves_def split: option.splits dest: find_SomeD)

lemma table_serves_replace:
  assumes "table_serves env keys sites (map_of xs) k" and "distinct (map site_name sites)"
    and "s0 \<in> set sites" and "runs_config env s0 new" and "site_name s0 = name"
  shows "table_serves env keys sites (map_of (map (\<lambda>(k, v). (k, if si_name (snd v) = name then new else v)) xs)) k"
proof -
  let ?f = "\<lambda>v. if si_name (snd v) = name then new else v"
  have map: "map_of (map (\<lambda>(k, v). (k, ?f v)) xs) k = map_option ?f (map_of xs k)" by (simp add: map_of_map)
  have "runs_config env s (?f v)" if "s \<in> set sites" "runs_config env s v" for s v
    using that assms(2-5) runs_config_name [OF that(2)] by (auto simp: distinct_map inj_on_def)
  note upd = this
  show ?thesis
  proof (cases "find (\<lambda>s. k \<in> keys s) sites")
    case None
    then show ?thesis using assms(1) map by (simp add: table_serves_def)
  next
    case (Some s)
    then obtain v where "map_of xs k = Some v" "runs_config env s v" using assms(1) by (auto simp: table_serves_def)
    moreover have "s \<in> set sites" using find_SomeD [OF Some] by simp
    ultimately show ?thesis using Some map upd [of s v] by (simp add: table_serves_def)
  qed
qed

lemma inject_serves:
  assumes "registry_serves env sites r" and names: "distinct (map site_name sites)"
  shows "registry_serves env sites (inject_site_resources addr name logger pc fc r)"
proof (cases "find (\<lambda>v. si_name (snd v) = name) (map snd (vh_exact r))")
  case None
  then show ?thesis using assms by (simp add: inject_site_resources_def)
next
  case (Some v)
  let ?new = "(addr, (snd v)\<lparr>si_access_logger := logger, si_proxy_cache_arc := pc, si_fcgi_cache_arc := fc\<rparr>)"
  from find_SomeD [OF Some] obtain k where v: "(k, v) \<in> set (vh_exact r)" "si_name (snd v) = name" by auto
  then have "map_of (vh_exact r) k = Some v"
    using assms(1) by (simp add: registry_serves_def distinct_tables_def)
  then obtain s0 where s0: "s0 \<in> set sites" "runs_config env s0 v"
    using assms(1) table_serves_entry by (metis registry_serves_def)
  then have "runs_config env s0 ?new" "site_name s0 = name"
    using v(2) runs_config_name [OF s0(2)] by (auto simp: runs_config_def strip_resources_def)
  note replace = table_serves_replace [OF _ names s0(1) this]
  have "distinct_tables (inject_site_resources addr name logger pc fc r)"
    using assms(1) by (simp add: registry_serves_def inject_site_resources_def Some Let_def distinct_tables_def comp_def split_def)
  then show ?thesis
    using assms(1) replace unfolding registry_serves_def inject_site_resources_def Some
    by (simp only: option.case Let_def vhost_inner.simps) blast
qed

lemma running_serves:
  "running env sites r \<Longrightarrow> hosts_ok (se_to_lowercase env) sites \<and> registry_serves env sites r"
proof (induction rule: running.induct)
  case (start sites base)
  then have "distinct (map (site_name \<circ> snd) (enumerate 0 sites))" by (simp add: hosts_ok_def flip: map_map)
  from exact_table.fold_upserts [OF this] start show ?case
    by (auto simp: hosts_ok_def registry_serves_def registry_from_config_def [symmetric]
        intro: exact_table.start_serves wild_table.start_serves)
next
  case (inject sites r addr name logger pc fc)
  then show ?case by (auto simp: hosts_ok_def intro: inject_serves)
next
  case (reload old r new removed added common ser alloc)
  then have "distinct_tables (apply_diff env alloc ser removed added common old new r)"
    by (simp add: apply_diff_ops hosts_ok_def exact_table.wf_reload registry_serves_def)
  with reload show ?case
    by (auto simp: hosts_ok_def registry_serves_def intro!: exact_table.apply_diff_serves wild_table.apply_diff_serves)
qed

lemma lookup_served:
  assumes "registry_serves env sites r"
  shows "case pick_site (se_to_lowercase env) id sites host of
      Some s \<Rightarrow> s \<in> set sites \<and> (\<exists>v. lookup_inner r host = Some v \<and> runs_config env s v)
    | None \<Rightarrow> lookup_inner r host = vh_fallback r"
proof -
  let ?h = "ascii_lower host" and ?lower = "se_to_lowercase env"
  have ex: "table_serves env (exact_keys ?lower) sites (map_of (vh_exact r)) k" for k
    using assms by (simp add: registry_serves_def)
  have wi: "table_serves env (wild_keys ?lower) sites (map_of (vh_wildcard r)) k" for k
    using assms by (simp add: registry_serves_def)
  show ?thesis
  proof (cases "find (\<lambda>s. ?h \<in> exact_keys ?lower s) sites")
    case (Some s)
    then show ?thesis using ex [of ?h] find_SomeD [OF Some]
      by (auto simp: pick_site_def lookup_inner_lower table_serves_def)
  next
    case None
    then have no: "map_of (vh_exact r) ?h = None" using ex [of ?h] by (simp add: table_serves_def)
    show ?thesis
    proof (cases "find_idx CHR ''.'' ?h")
      case (Some p)
      then show ?thesis using None no wi [of "drop (p + 1) ?h"]
        by (auto simp: pick_site_def lookup_inner_lower table_serves_def split: option.splits dest: find_SomeD)
    qed (use None no in \<open>simp add: pick_site_def lookup_inner_lower\<close>)
  qed
qed

text \<open>
  C6: routing by host survives reconfiguration. Whatever start-up, injection of resources and hot
  reloads have happened, in any order of the hash-set iterations, a host that a site of the
  configuration in force claims, exactly or by wildcard, is answered by that site as configured
  now, and every other host by the fallback entry, provided no two sites of a configuration claim
  the same host and serialisation tells changed sites apart.
\<close>

theorem hot_reload_routes:
  assumes "running env sites r"
  shows "case pick_site (se_to_lowercase env) id sites host of
      Some s \<Rightarrow> s \<in> set sites \<and> (\<exists>v. lookup_inner r host = Some v \<and> runs_config env s v)
    | None \<Rightarrow> lookup_inner r host = vh_fallback r"
  using running_serves [OF assms] by (intro lookup_served) simp

section \<open>What a reload leaves behind\<close>

text \<open>
  A site that stops being the fallback stays the fallback. After a reload in which the only
  change of a site is that its \<^verbatim>\<open>fallback\<close> flag is gone, every host that no site claims is still
  answered by that site, in its old form.
\<close>

theorem stale_fallback_after_reload:
  assumes "fallback s" and "hosts_ok (se_to_lowercase env) [s]" and "ser s \<noteq> ser (s\<lparr>fallback := False\<rparr>)"
    and "pick_site (se_to_lowercase env) id [s\<lparr>fallback := False\<rparr>] host = None"
  shows "\<exists>v. lookup_inner (apply_diff env alloc ser [] [] [site_name s] [s] [s\<lparr>fallback := False\<rparr>]
      (registry_from_config env base [s])) host = Some v \<and> runs_config env s v \<and> si_fallback (snd v)"
proof -
  let ?new = "[s\<lparr>fallback := False\<rparr>]"
  let ?r = "registry_from_config env base [s] :: ('a, 'b) vhost_inner"
  let ?R = "apply_diff env alloc ser [] [] [site_name s] [s] ?new ?r"
  have ok: "hosts_ok (se_to_lowercase env) ?new" by (simp add: hosts_ok_def disjoint_keys_def)
  have "running env [s] ?r" using assms(2) by (rule running.start)
  then have "running env ?new ?R"
    using ok by (rule running.reload) (use assms(3) in \<open>auto simp: diff_lists_def ser_faithful_def\<close>)
  then have "lookup_inner ?R host = vh_fallback ?R"
    using lookup_served [of env ?new ?R host] running_serves [of env ?new ?R] assms(4) by simp
  moreover have "vh_fallback ?R = Some (base, site_from_config env base s)"
    using assms(1) by (simp add: apply_diff_def update_changed_def site_map_def registry_from_config_def upsert_site_def
        Let_def split: prod.split)
  ultimately show ?thesis using assms(1) by simp
qed

text \<open>
  A reload that changes a site turns off its access log and its response caches. Resources are
  injected once at start-up; a changed site is rebuilt without them, so whatever was injected, the
  site that answers its hosts afterwards has no logger and no cache.
\<close>

theorem reload_drops_resources:
  assumes "running env [s] r" and "hosts_ok (se_to_lowercase env) [s']" and "site_name s' = site_name s"
    and "ser s \<noteq> ser s'" and "ascii_lower host \<in> exact_keys (se_to_lowercase env) s'"
  shows "\<exists>v. lookup_inner (apply_diff env alloc ser [] [] [site_name s] [s] [s'] r) host = Some v \<and>
    runs_config env s' v \<and> si_access_logger (snd v) = None \<and> si_proxy_cache_arc (snd v) = None \<and>
    si_fcgi_cache_arc (snd v) = None"
proof -
  let ?R = "apply_diff env alloc ser [] [] [site_name s] [s] [s'] r"
  have "?R = upsert_site env (alloc (site_name s)) s' r"
    using assms(3,4) by (simp add: apply_diff_def update_changed_def site_map_def site_changed_def)
  moreover have "distinct_tables r" using running_serves [OF assms(1)] by (simp add: registry_serves_def)
  ultimately have "map_of (vh_exact ?R) (ascii_lower host) = Some (alloc (site_name s), site_from_config env (alloc (site_name s)) s')"
    using exact_table.sel_upsert [of r env "alloc (site_name s)" s'] assms(5) by simp
  then show ?thesis by (simp add: lookup_inner_lower)
qed

section \<open>Witnesses\<close>

definition demo_site_env :: "string site_env" where
  "demo_site_env = \<lparr>se_rx = demo_rx, se_canonicalize = Some, se_header_value = Some, se_to_lowercase = ascii_lower,
     se_counters = (\<lambda>a. 100 * a), se_clk = (\<lambda>_ _ _. 0)\<rparr>"

abbreviation demo_site :: "string \<Rightarrow> string list \<Rightarrow> site_config" where
  "demo_site name hosts \<equiv> serde_site_config name hosts"

lemma demo_site_simps [simp]:
  "site_name (demo_site n hs) = n" "server_name (demo_site n hs) = hs" "fallback (demo_site n hs) = False"
  by (simp_all add: serde_site_config_def)

lemma keys_eval:
  "(k \<in> exact_keys lower s) = list_ex (\<lambda>sn. \<not> starts_with sn ''*.'' \<and> lower sn = k) (server_name s)"
  "(k \<in> wild_keys lower s) = list_ex (\<lambda>sn. starts_with sn ''*.'' \<and> lower (drop 2 sn) = k) (server_name s)"
  by (auto simp: exact_keys_def wild_keys_def list_ex_iff)

lemmas vhost_eval = pick_site_def keys_eval demo_site_env_def case_eval Let_def

theorem vhost_lookup_from_config_witness:
  "map_option (\<lambda>v. si_name (snd v)) (lookup_inner (registry_from_config demo_site_env 7
      [demo_site ''a'' [''example.com'', ''*.example.com''], demo_site ''b'' [''www.example.com'']]) ''WWW.example.com'')
    = Some ''b'' \<and>
   map_option (\<lambda>v. si_name (snd v)) (lookup_inner (registry_from_config demo_site_env 7
      [demo_site ''a'' [''example.com'', ''*.example.com''], demo_site ''b'' [''www.example.com'']]) ''img.example.com'')
    = Some ''a''"
  by (simp add: vhost_lookup_from_config vhost_eval)

definition demo_ser :: "site_config \<Rightarrow> string option" where
  "demo_ser s = Some ((if fallback s then ''F'' else ''-'') @ site_name s @ concat (server_name s))"

lemma demo_running:
  "running demo_site_env [demo_site ''a'' [''example.com''], demo_site ''b'' [''example.org'']]
     (apply_diff demo_site_env (\<lambda>_. 9) demo_ser [] [''b''] [''a'']
        [demo_site ''a'' [''old.example'']] [demo_site ''a'' [''example.com''], demo_site ''b'' [''example.org'']]
        (registry_from_config demo_site_env 7 [demo_site ''a'' [''old.example'']]))"
proof (rule running.reload)
  show "running demo_site_env [demo_site ''a'' [''old.example'']]
      (registry_from_config demo_site_env 7 [demo_site ''a'' [''old.example'']])"
    by (rule running.start) (simp add: hosts_ok_def disjoint_keys_def)
qed (auto simp: hosts_ok_def disjoint_keys_def diff_lists_def ser_faithful_def demo_ser_def exact_keys_def wild_keys_def
    demo_site_env_def case_eval)

theorem hot_reload_routes_witness:
  "\<exists>v. lookup_inner (apply_diff demo_site_env (\<lambda>_. 9) demo_ser [] [''b''] [''a'']
        [demo_site ''a'' [''old.example'']] [demo_site ''a'' [''example.com''], demo_site ''b'' [''example.org'']]
        (registry_from_config demo_site_env 7 [demo_site ''a'' [''old.example'']])) ''Example.ORG'' = Some v \<and>
     runs_config demo_site_env (demo_site ''b'' [''example.org'']) v"
proof -
  have "pick_site ascii_lower id [demo_site ''a'' [''example.com''], demo_site ''b'' [''example.org'']] ''Example.ORG''
      = Some (demo_site ''b'' [''example.org''])"
    by (simp add: vhost_eval)
  then show ?thesis using hot_reload_routes [OF demo_running, of "''Example.ORG''"] by (simp add: demo_site_env_def)
qed

theorem stale_fallback_after_reload_witness:
  "\<exists>v. lookup_inner (apply_diff demo_site_env (\<lambda>_. 9) demo_ser [] [] [''a'']
        [(demo_site ''a'' [''example.com''])\<lparr>fallback := True\<rparr>] [(demo_site ''a'' [''example.com''])\<lparr>fallback := False\<rparr>]
        (registry_from_config demo_site_env 7 [(demo_site ''a'' [''example.com''])\<lparr>fallback := True\<rparr>])) ''other.org'' = Some v \<and>
     runs_config demo_site_env ((demo_site ''a'' [''example.com''])\<lparr>fallback := True\<rparr>) v \<and> si_fallback (snd v)"
proof -
  have "hosts_ok ascii_lower [(demo_site ''a'' [''example.com''])\<lparr>fallback := True\<rparr>]"
    by (simp add: hosts_ok_def disjoint_keys_def)
  moreover have "pick_site ascii_lower id [(demo_site ''a'' [''example.com''])\<lparr>fallback := False\<rparr>] ''other.org'' = None"
    by (simp add: vhost_eval)
  ultimately show ?thesis
    using stale_fallback_after_reload [of "(demo_site ''a'' [''example.com''])\<lparr>fallback := True\<rparr>" demo_site_env demo_ser "''other.org''"]
    by (simp add: demo_site_env_def demo_ser_def)
qed

theorem reload_drops_resources_witness:
  "\<exists>v. lookup_inner (apply_diff demo_site_env (\<lambda>_. 9) demo_ser [] [] [''a'']
        [demo_site ''a'' [''example.com'']] [demo_site ''a'' [''example.com'', ''example.org'']]
        (inject_site_resources 8 ''a'' (Some ()) (Some 5) None
          (registry_from_config demo_site_env 7 [demo_site ''a'' [''example.com'']]))) ''example.com'' = Some v \<and>
     runs_config demo_site_env (demo_site ''a'' [''example.com'', ''example.org'']) v \<and>
     si_access_logger (snd v) = None \<and> si_proxy_cache_arc (snd v) = None \<and> si_fcgi_cache_arc (snd v) = None"
proof -
  have "running demo_site_env [demo_site ''a'' [''example.com'']]
      (inject_site_resources 8 ''a'' (Some ()) (Some 5) None
        (registry_from_config demo_site_env 7 [demo_site ''a'' [''example.com'']]))"
    by (intro running.inject running.start) (simp add: hosts_ok_def disjoint_keys_def)
  then show ?thesis
    using reload_drops_resources [where env = demo_site_env and s' = "demo_site ''a'' [''example.com'', ''example.org'']"
        and s = "demo_site ''a'' [''example.com'']" and ser = demo_ser and host = "''example.com''" and alloc = "\<lambda>_. 9"]
    by (simp add: hosts_ok_def disjoint_keys_def demo_ser_def vhost_eval)
qed

end
