(* ===== verification/Proxy_Response.thy ===== *)
theory Proxy_Response
  imports Config
begin

text \<open>
  What the reverse proxy does to the headers and the body of an upstream response
  (\<^verbatim>\<open>handler/reverse_proxy/response.rs\<close>, \<^verbatim>\<open>rewrite_body_urls\<close> and \<^verbatim>\<open>append_trailer_headers\<close> of
  \<^verbatim>\<open>conn.rs\<close>, \<^verbatim>\<open>apply_extra_headers\<close> of \<^verbatim>\<open>mod.rs\<close>).

  Strings and bodies are lists of bytes. The header map of the \<^verbatim>\<open>http\<close> crate is not part of the
  program: a response is described by the calls made on its header map, in order, and the
  validation of names and values by the crate is a pair of parameters. So are the regular
  expressions of the \<^verbatim>\<open>regex\<close> crate: \<open>build\<close> compiles a pattern under the size limits of the code.
\<close>

section \<open>Header operations\<close>

datatype header_op = HInsert string string | HAppend string string | HRemove string

record header_api =
  name_from_bytes :: "string \<Rightarrow> string option"
  value_from_str :: "string \<Rightarrow> string option"

definition insert_checked :: "header_api \<Rightarrow> string \<Rightarrow> string \<Rightarrow> header_op list" where
  "insert_checked api k v =
     (case (name_from_bytes api k, value_from_str api v) of
        (Some name, Some val) \<Rightarrow> [HInsert name val]
      | _ \<Rightarrow> [])"

definition append_checked :: "header_api \<Rightarrow> string \<Rightarrow> string \<Rightarrow> header_op list" where
  "append_checked api k v =
     (case (name_from_bytes api k, value_from_str api v) of
        (Some name, Some val) \<Rightarrow> [HAppend name val]
      | _ \<Rightarrow> [])"

section \<open>Hop-by-hop headers\<close>

definition HOP_BY_HOP_SET :: "string list" where
  "HOP_BY_HOP_SET =
     [''connection'', ''keep-alive'', ''proxy-authenticate'', ''proxy-authorization'',
      ''te'', ''trailer'', ''transfer-encoding'', ''upgrade'', ''content-length'',
      ''host'', ''proxy-connection'']"

definition is_hop_by_hop :: "string \<Rightarrow> bool" where
  "is_hop_by_hop name =
     (if 32 < length name then False
      else (let lower = ascii_lower name
            in if utf8_ok lower then lower \<in> set HOP_BY_HOP_SET else False))"

section \<open>Set-Cookie\<close>

fun rewrite_cookie_parts :: "bool \<Rightarrow> string option \<Rightarrow> string list \<Rightarrow> string list outcome" where
  "rewrite_cookie_parts strip_secure new_domain [] = Val []"
| "rewrite_cookie_parts strip_secure new_domain (part # parts) =
     (let trimmed = trim part;
          rest = (\<lambda>here. bind_outcome (rewrite_cookie_parts strip_secure new_domain parts)
                    (\<lambda>ps. Val (here @ ps)))
      in if strip_secure \<and> eq_ignore_case trimmed ''secure'' then rest []
         else (case new_domain of
             None \<Rightarrow> rest [trimmed]
           | Some domain \<Rightarrow>
               if 7 < length trimmed then
                 bind_outcome (slice_to trimmed 7) (\<lambda>pre.
                   if eq_ignore_case pre ''domain='' then rest [''Domain='' @ domain]
                   else rest [trimmed])
               else rest [trimmed]))"

definition rewrite_set_cookie :: "string \<Rightarrow> bool \<Rightarrow> string option \<Rightarrow> string outcome" where
  "rewrite_set_cookie cookie strip_secure new_domain =
     bind_outcome (rewrite_cookie_parts strip_secure new_domain (split_on CHR '';'' cookie))
       (\<lambda>ps. Val (join ''; '' ps))"

section \<open>Response headers\<close>

record rewrite_opts =
  strip_cookie_secure :: bool
  cookie_domain :: "string option"
  redirect_from :: "string option"
  redirect_to :: "string option"

definition response_header :: "header_api \<Rightarrow> rewrite_opts \<Rightarrow> string \<Rightarrow> string \<Rightarrow> header_op list outcome" where
  "response_header api ro k v =
     (if is_hop_by_hop k then Val []
      else if eq_ignore_case k ''location'' \<and> redirect_from ro \<noteq> None \<and> redirect_to ro \<noteq> None then
        Val (insert_checked api k (replace_first (the (redirect_from ro)) (the (redirect_to ro)) v))
      else
        (let is_set_cookie = eq_ignore_case k ''set-cookie''
         in bind_outcome
              (if is_set_cookie \<and> (strip_cookie_secure ro \<or> cookie_domain ro \<noteq> None)
               then rewrite_set_cookie v (strip_cookie_secure ro) (cookie_domain ro)
               else Val v)
              (\<lambda>val_str. Val (if is_set_cookie then append_checked api k val_str
                              else insert_checked api k val_str))))"

fun apply_response_headers ::
  "header_api \<Rightarrow> rewrite_opts \<Rightarrow> (string \<times> string) list \<Rightarrow> header_op list outcome" where
  "apply_response_headers api ro [] = Val []"
| "apply_response_headers api ro ((k, v) # hs) =
     bind_outcome (response_header api ro k v) (\<lambda>ops.
       bind_outcome (apply_response_headers api ro hs) (\<lambda>ops'. Val (ops @ ops')))"

definition append_trailer_headers :: "header_api \<Rightarrow> (string \<times> string) list \<Rightarrow> header_op list" where
  "append_trailer_headers api trailers =
     concat (map (\<lambda>(k, v). if is_hop_by_hop k then [] else append_checked api k v) trailers)"

definition parse_status_code :: "string \<Rightarrow> nat" where
  "parse_status_code status_line =
     (case split_whitespace status_line of
        _ # s # _ \<Rightarrow> unwrap_or (parse_u16 s) 502
      | _ \<Rightarrow> 502)"

section \<open>Regular expressions compiled once\<close>

text \<open>The two global caches of the program share their code: look up, else build and remember.\<close>

type_synonym 're re_cache = "string \<rightharpoonup> 're"

definition sub_filter_regex ::
  "(string \<Rightarrow> 're option) \<Rightarrow> string \<Rightarrow> 're re_cache \<Rightarrow> 're option \<times> 're re_cache" where
  "sub_filter_regex build pattern cache =
     (case cache pattern of
        Some re \<Rightarrow> (Some re, cache)
      | None \<Rightarrow>
          (case build pattern of
             Some re \<Rightarrow> (Some re, cache(pattern \<mapsto> re))
           | None \<Rightarrow> (None, cache)))"

definition cache_rule_regex ::
  "(string \<Rightarrow> 're option) \<Rightarrow> string \<Rightarrow> 're re_cache \<Rightarrow> 're option \<times> 're re_cache" where
  "cache_rule_regex build pattern cache =
     (case cache pattern of
        Some re \<Rightarrow> (Some re, cache)
      | None \<Rightarrow>
          (case build pattern of
             Some re \<Rightarrow> (Some re, cache(pattern \<mapsto> re))
           | None \<Rightarrow> (None, cache)))"

definition coherent :: "(string \<Rightarrow> 're option) \<Rightarrow> 're re_cache \<Rightarrow> bool" where
  "coherent build cache = (\<forall>p re. cache p = Some re \<longrightarrow> build p = Some re)"

text \<open>The contract of such a table: from a coherent one, a query answers as a fresh build would.\<close>

locale regex_table =
  fixes get :: "(string \<Rightarrow> 're option) \<Rightarrow> string \<Rightarrow> 're re_cache \<Rightarrow> 're option \<times> 're re_cache"
  assumes get_build: "coherent build c \<Longrightarrow> fst (get build p c) = build p"
    and get_coherent: "coherent build c \<Longrightarrow> coherent build (snd (get build p c))"
begin

lemma get_pair:
  "coherent build c \<Longrightarrow> \<exists>c'. get build p c = (build p, c') \<and> coherent build c'"
  using get_build get_coherent by (metis prod.collapse)

end

lemma sub_filter_regex_table: "regex_table sub_filter_regex"
  by unfold_locales (auto simp: sub_filter_regex_def coherent_def split: option.splits)

lemma cache_rule_regex_same: "cache_rule_regex = sub_filter_regex"
  by (intro ext) (simp add: cache_rule_regex_def sub_filter_regex_def)

interpretation sub_filter_table: regex_table sub_filter_regex
  by (rule sub_filter_regex_table)

interpretation cache_rule_table: regex_table cache_rule_regex
  unfolding cache_rule_regex_same by (rule sub_filter_regex_table)

section \<open>Bodies and extra headers\<close>

record 're regex_api =
  re_build :: "string \<Rightarrow> 're option"
  re_is_match :: "'re \<Rightarrow> string \<Rightarrow> bool"
  re_replace_all :: "'re \<Rightarrow> string \<Rightarrow> string \<Rightarrow> string"

definition text_content :: "(string \<times> string) list \<Rightarrow> bool" where
  "text_content headers =
     list_ex (\<lambda>(k, v). eq_ignore_case k ''content-type'' \<and>
       (contains_sub v ''html'' \<or> contains_sub v ''json'' \<or>
        contains_sub v ''javascript'' \<or> contains_sub v ''text'')) headers"

definition sub_filter_step ::
  "'re regex_api \<Rightarrow> sub_filter \<Rightarrow> string \<times> 're re_cache \<Rightarrow> string \<times> 're re_cache" where
  "sub_filter_step rx f st =
     (let (result, cache) = st
      in case strip_prefix (sf_pattern f) ''~'' of
           Some pattern \<Rightarrow>
             (case sub_filter_regex (re_build rx) (trim pattern) cache of
                (Some re, c) \<Rightarrow> (re_replace_all rx re result (sf_replacement f), c)
              | (None, c) \<Rightarrow> (result, c))
         | None \<Rightarrow> (str_replace (sf_pattern f) (sf_replacement f) result, cache))"

definition apply_sub_filter ::
  "'re regex_api \<Rightarrow> string \<Rightarrow> (string \<times> string) list \<Rightarrow> sub_filter list \<Rightarrow> 're re_cache
     \<Rightarrow> string \<times> 're re_cache" where
  "apply_sub_filter rx body headers filters cache =
     (if filters = [] then (body, cache)
      else if \<not> text_content headers then (body, cache)
      else if \<not> utf8_ok body then (body, cache)
      else fold (sub_filter_step rx) filters (body, cache))"

definition rewrite_body_urls ::
  "string \<Rightarrow> (string \<times> string) list \<Rightarrow> string option \<Rightarrow> string option \<Rightarrow> string" where
  "rewrite_body_urls bytes headers from to =
     (case (from, to) of
        (Some f, Some t) \<Rightarrow>
          if \<not> text_content headers then bytes
          else if utf8_ok bytes \<and> contains_sub bytes f then str_replace f t bytes
          else bytes
      | _ \<Rightarrow> bytes)"

fun apply_cache_rules ::
  "'re regex_api \<Rightarrow> header_api \<Rightarrow> cache_rule list \<Rightarrow> string \<Rightarrow> 're re_cache
     \<Rightarrow> header_op list \<times> 're re_cache" where
  "apply_cache_rules rx api [] path cache = ([], cache)"
| "apply_cache_rules rx api (rule # rules) path cache =
     (case cache_rule_regex (re_build rx) (cr_pattern rule) cache of
        (Some re, c) \<Rightarrow>
          if re_is_match rx re path
          then ((case value_from_str api (cr_cache_control rule) of
                   Some v \<Rightarrow> [HInsert ''cache-control'' v] | None \<Rightarrow> []), c)
          else apply_cache_rules rx api rules path c
      | (None, c) \<Rightarrow> apply_cache_rules rx api rules path c)"

definition apply_extra_headers ::
  "'re regex_api \<Rightarrow> header_api \<Rightarrow> nat \<Rightarrow> header_override list \<Rightarrow> cache_rule list \<Rightarrow> string \<Rightarrow> string
     \<Rightarrow> string \<Rightarrow> 're re_cache \<Rightarrow> header_op list \<times> 're re_cache" where
  "apply_extra_headers rx api status add_headers cache_rules path remote_addr scheme cache =
     (let (ops, c) = (if 200 \<le> status \<and> status < 300
            then apply_cache_rules rx api cache_rules path cache else ([], cache));
          extra = concat (map (\<lambda>h. insert_checked api (ho_name h)
            (str_replace ''$scheme'' scheme (str_replace ''$remote_addr'' remote_addr (ho_value h))))
            add_headers)
      in (ops @ extra, c))"

section \<open>Properties of the header rewriting\<close>

lemma hop_by_hop_ascii: "k \<in> set HOP_BY_HOP_SET \<Longrightarrow> length k \<le> 32 \<and> list_all (\<lambda>c. cv c < 128) k"
  by (auto simp: HOP_BY_HOP_SET_def)

text \<open>The buffer and the encoding check of the fast path lose nothing.\<close>

lemma is_hop_by_hop_iff: "is_hop_by_hop name = (ascii_lower name \<in> set HOP_BY_HOP_SET)"
proof -
  have "length name = length (ascii_lower name)" by (simp add: ascii_lower_def)
  then show ?thesis
    using hop_by_hop_ascii [of "ascii_lower name"] utf8_ok_ascii [of "ascii_lower name"]
    by (auto simp: is_hop_by_hop_def Let_def)
qed

fun op_name :: "header_op \<Rightarrow> string" where
  "op_name (HInsert n _) = n"
| "op_name (HAppend n _) = n"
| "op_name (HRemove n) = n"

lemma insert_checked_name:
  "x \<in> set (insert_checked api k v) \<Longrightarrow> name_from_bytes api k = Some (op_name x)"
  "x \<in> set (append_checked api k v) \<Longrightarrow> name_from_bytes api k = Some (op_name x)"
  by (auto simp: insert_checked_def append_checked_def split: option.splits)

lemma bind_outcome_Val:
  "(bind_outcome m f = Val y) = (\<exists>x. m = Val x \<and> f x = Val y)"
  by (cases m) auto

lemma response_header_name:
  assumes "response_header api ro k v = Val ops" and "x \<in> set ops"
  shows "name_from_bytes api k = Some (op_name x) \<and> \<not> is_hop_by_hop k"
  using assms
  by (auto simp: response_header_def Let_def bind_outcome_Val dest: insert_checked_name
      split: if_splits)

text \<open>
  A hop-by-hop header of the upstream (\<^verbatim>\<open>Connection\<close>, \<^verbatim>\<open>Transfer-Encoding\<close>, \<^verbatim>\<open>Content-Length\<close> and
  the others) is never passed on to the client, whatever the case of its letters, given that the
  header library keeps names up to ASCII case, in lower case.
\<close>

theorem response_headers_no_hop_by_hop:
  assumes lower: "\<And>k n. name_from_bytes api k = Some n \<Longrightarrow> n = ascii_lower k"
    and ops: "apply_response_headers api ro headers = Val ops" and x: "x \<in> set ops"
  shows "op_name x \<notin> set HOP_BY_HOP_SET"
  using ops x
proof (induction headers arbitrary: ops)
  case (Cons h hs)
  obtain k v where h: "h = (k, v)" by (cases h)
  with Cons.prems obtain ops1 ops2 where r: "response_header api ro k v = Val ops1"
    and a: "apply_response_headers api ro hs = Val ops2" and o: "ops = ops1 @ ops2"
    by (auto simp: bind_outcome_Val)
  show ?case
  proof (cases "x \<in> set ops1")
    case True
    from response_header_name [OF r this] lower show ?thesis by (auto simp: is_hop_by_hop_iff)
  next
    case False
    with Cons.prems(2) o have "x \<in> set ops2" by simp
    with Cons.IH [OF a] show ?thesis .
  qed
qed simp

definition demo_api :: header_api where
  "demo_api = \<lparr>name_from_bytes = (\<lambda>k. Some (ascii_lower k)), value_from_str = Some\<rparr>"

definition demo_opts :: rewrite_opts where
  "demo_opts = \<lparr>strip_cookie_secure = False, cookie_domain = None, redirect_from = None,
                redirect_to = None\<rparr>"

lemma ascii_lower_eval: "ascii_lower ''ETag'' = ''etag''" "ascii_lower ''Connection'' = ''connection''"
  by (simp_all add: case_eval)

theorem response_headers_no_hop_by_hop_witness:
  "apply_response_headers demo_api demo_opts [(''Connection'', ''close''), (''ETag'', ''1'')]
     = Val [HInsert ''etag'' ''1''] \<and> ''etag'' \<notin> set HOP_BY_HOP_SET"
proof -
  have "\<not> is_hop_by_hop ''ETag''" "is_hop_by_hop ''Connection''"
    by (simp_all add: is_hop_by_hop_iff ascii_lower_eval HOP_BY_HOP_SET_def)
  moreover have "\<not> eq_ignore_case ''ETag'' ''location''" "\<not> eq_ignore_case ''ETag'' ''set-cookie''"
    by (simp_all add: case_eval)
  ultimately have a: "apply_response_headers demo_api demo_opts
      [(''Connection'', ''close''), (''ETag'', ''1'')] = Val [HInsert ''etag'' ''1'']"
    by (simp add: response_header_def insert_checked_def demo_api_def ascii_lower_eval Let_def)
  have "op_name (HInsert ''etag'' ''1'') \<notin> set HOP_BY_HOP_SET"
    by (rule response_headers_no_hop_by_hop [OF _ a]) (simp_all add: demo_api_def)
  with a show ?thesis by simp
qed

section \<open>Properties of the cookie rewriting\<close>

definition dropped_part :: "bool \<Rightarrow> string \<Rightarrow> bool" where
  "dropped_part strip_secure p = (strip_secure \<and> eq_ignore_case p ''secure'')"

definition rewrite_part :: "string option \<Rightarrow> string \<Rightarrow> string" where
  "rewrite_part new_domain p =
     (case new_domain of
        Some d \<Rightarrow> if 7 < length p \<and> eq_ignore_case (take 7 p) ''domain='' then ''Domain='' @ d else p
      | None \<Rightarrow> p)"

definition part_slices :: "string \<Rightarrow> bool" where
  "part_slices p = (length p \<le> 7 \<or> is_char_boundary p 7)"

lemma rewrite_cookie_parts_eq:
  "rewrite_cookie_parts strip dm parts =
     (let ps = filter (\<lambda>p. \<not> dropped_part strip p) (map trim parts)
      in if dm = None \<or> list_all part_slices ps then Val (map (rewrite_part dm) ps) else Panic)"
proof (induction parts)
  case (Cons p ps)
  show ?case
  proof (cases "dropped_part strip (trim p)")
    case True
    then show ?thesis using Cons.IH by (auto simp: Let_def dropped_part_def)
  next
    case False
    then show ?thesis using Cons.IH
      by (cases dm)
         (auto simp: Let_def dropped_part_def rewrite_part_def part_slices_def slice_to_def)
  qed
qed (simp add: Let_def)

text \<open>
  Rewriting a Set-Cookie header drops exactly the \<^verbatim>\<open>Secure\<close> attribute when asked to, replaces
  the value of each \<^verbatim>\<open>Domain\<close> attribute when a domain is configured, and keeps every other
  attribute, in order; for a value of ASCII bytes it always returns.
\<close>

theorem set_cookie_rewrite:
  assumes "list_all (\<lambda>p. list_all (\<lambda>c. cv c < 128) (trim p)) (split_on CHR '';'' cookie)"
  shows "rewrite_set_cookie cookie strip dm
    = Val (join ''; '' (map (rewrite_part dm)
        (filter (\<lambda>p. \<not> dropped_part strip p) (map trim (split_on CHR '';'' cookie)))))"
proof -
  have "part_slices p" if a: "list_all (\<lambda>c. cv c < 128) p" for p
  proof (cases "7 < length p")
    case True
    with a have "cv (p ! 7) < 128" by (simp add: list_all_length)
    with True show ?thesis by (simp add: part_slices_def is_char_boundary_def is_cont_byte_def)
  qed (simp add: part_slices_def)
  with assms have "list_all part_slices
      (filter (\<lambda>p. \<not> dropped_part strip p) (map trim (split_on CHR '';'' cookie)))"
    by (auto simp: list_all_iff)
  then show ?thesis by (simp add: rewrite_set_cookie_def rewrite_cookie_parts_eq Let_def)
qed

theorem set_cookie_rewrite_witness:
  "rewrite_set_cookie ''a=b; Domain=x.io; Secure'' True (Some ''y.io'')
     = Val ''a=b; Domain=y.io''"
proof -
  have s: "split_on CHR '';'' ''a=b; Domain=x.io; Secure'' = [''a=b'', '' Domain=x.io'', '' Secure'']"
    by (simp add: split_on_def)
  have t: "trim ''a=b'' = ''a=b''" "trim '' Domain=x.io'' = ''Domain=x.io''" "trim '' Secure'' = ''Secure''"
    by (simp_all add: trim_eval)
  have "rewrite_set_cookie ''a=b; Domain=x.io; Secure'' True (Some ''y.io'')
    = Val (join ''; '' (map (rewrite_part (Some ''y.io''))
        (filter (\<lambda>p. \<not> dropped_part True p) (map trim (split_on CHR '';'' ''a=b; Domain=x.io; Secure'')))))"
    by (rule set_cookie_rewrite) (simp add: s t)
  then show ?thesis
    by (simp add: s t dropped_part_def rewrite_part_def case_eval)
qed

text \<open>
  With a cookie domain configured, an upstream can stop the server. The attribute is cut
  after seven bytes without asking whether that is a character boundary, so the rewrite panics
  exactly when some kept attribute is longer than seven bytes and has a multi-byte character
  across its eighth byte.
\<close>

theorem set_cookie_rewrite_panics_iff:
  "panics (rewrite_set_cookie cookie strip (Some d)) \<longleftrightarrow>
     (\<exists>p\<in>set (map trim (split_on CHR '';'' cookie)). \<not> dropped_part strip p \<and>
        7 < length p \<and> is_cont_byte (p ! 7))"
proof -
  have "\<not> part_slices p \<longleftrightarrow> 7 < length p \<and> is_cont_byte (p ! 7)" for p
    by (auto simp: part_slices_def is_char_boundary_def)
  then show ?thesis
    by (auto simp: rewrite_set_cookie_def rewrite_cookie_parts_eq Let_def list_all_iff)
qed

section \<open>Properties of the body rewriting\<close>

definition sub_filter_pure :: "'re regex_api \<Rightarrow> sub_filter \<Rightarrow> string \<Rightarrow> string" where
  "sub_filter_pure rx f result =
     (case strip_prefix (sf_pattern f) ''~'' of
        Some pattern \<Rightarrow>
          (case re_build rx (trim pattern) of
             Some re \<Rightarrow> re_replace_all rx re result (sf_replacement f)
           | None \<Rightarrow> result)
      | None \<Rightarrow> str_replace (sf_pattern f) (sf_replacement f) result)"

lemma sub_filter_step_pure:
  assumes "coherent (re_build rx) c"
  shows "\<exists>c'. sub_filter_step rx f (s, c) = (sub_filter_pure rx f s, c') \<and> coherent (re_build rx) c'"
proof (cases "strip_prefix (sf_pattern f) ''~''")
  case None
  then show ?thesis using assms by (simp add: sub_filter_step_def sub_filter_pure_def)
next
  case (Some p)
  obtain c' where "sub_filter_regex (re_build rx) (trim p) c = (re_build rx (trim p), c')"
    and "coherent (re_build rx) c'"
    using sub_filter_table.get_pair [OF assms] by blast
  with Some show ?thesis
    by (cases "re_build rx (trim p)") (simp_all add: sub_filter_step_def sub_filter_pure_def)
qed

lemma sub_filter_fold_pure:
  "coherent (re_build rx) c \<Longrightarrow>
   \<exists>c'. fold (sub_filter_step rx) fs (s, c) = (fold (sub_filter_pure rx) fs s, c') \<and>
        coherent (re_build rx) c'"
proof (induction fs arbitrary: s c)
  case (Cons f fs)
  obtain c1 where "sub_filter_step rx f (s, c) = (sub_filter_pure rx f s, c1)"
    and "coherent (re_build rx) c1"
    using sub_filter_step_pure [OF Cons.prems] by blast
  with Cons.IH [of c1 "sub_filter_pure rx f s"] show ?case by simp
qed simp

text \<open>
  The global cache of compiled expressions is invisible: starting from any cache that holds
  only compilations of its keys, the body filter gives the result of applying the configured
  filters one after the other, to text responses of well-formed UTF-8 only, and leaves such a
  cache behind.
\<close>

theorem sub_filter_cache_invisible:
  assumes "coherent (re_build rx) cache"
  shows "fst (apply_sub_filter rx body headers filters cache) =
      (if text_content headers \<and> utf8_ok body then fold (sub_filter_pure rx) filters body else body) \<and>
    coherent (re_build rx) (snd (apply_sub_filter rx body headers filters cache))"
  using sub_filter_fold_pure [OF assms, of filters body] assms
  by (auto simp: apply_sub_filter_def)

theorem sub_filter_cache_invisible_witness:
  "fst (apply_sub_filter \<lparr>re_build = (\<lambda>_. None :: unit option), re_is_match = (\<lambda>_ _. False),
      re_replace_all = (\<lambda>_ s _. s)\<rparr> ''a1'' [(''content-type'', ''text/html'')]
      [\<lparr>sf_pattern = ''1'', sf_replacement = ''2''\<rparr>] Map.empty) = ''a2''"
proof -
  let ?rx = "\<lparr>re_build = (\<lambda>_. None :: unit option), re_is_match = (\<lambda>_ _. False),
      re_replace_all = (\<lambda>_ s _. s)\<rparr>"
  have c: "coherent (re_build ?rx) Map.empty" by (simp add: coherent_def)
  have t: "text_content [(''content-type'', ''text/html'')]"
    by (simp add: text_content_def eq_ignore_case_def)
  show ?thesis
    using conjunct1 [OF sub_filter_cache_invisible [OF c, of "''a1''" "[(''content-type'', ''text/html'')]"
        "[\<lparr>sf_pattern = ''1'', sf_replacement = ''2''\<rparr>]"]] t
    by (simp add: sub_filter_pure_def str_replace_def)
qed

end
