(* ===== verification/Http1_Conn.thy ===== *)
theory Http1_Conn
  imports Retry Proxy_Response
begin

text \<open>
  The HTTP/1.1 connection layer of the reverse proxy (\<^verbatim>\<open>handler/reverse_proxy/conn.rs\<close>): how the
  request is written to the upstream, how the response head and body are read back, and the two
  attempts over pooled and fresh connections.

  What arrives from the upstream is a list of bytes that ends at the end of the stream; reading
  consumes a prefix and the functions return the rest. Timeouts and errors of the transport are
  explicit results where the code branches on them.
\<close>

section \<open>Writing the request\<close>

definition push_sanitized_value :: "string \<Rightarrow> string \<Rightarrow> string" where
  "push_sanitized_value buf val =
     (if \<not> list_ex (\<lambda>b. b = CR \<or> b = LF) val then buf @ val
      else buf @ concat (map (\<lambda>b. if b = CR \<or> b = LF then '' '' else push_byte_char b) val))"

definition push_safe_header :: "string \<Rightarrow> string \<Rightarrow> string \<Rightarrow> string" where
  "push_safe_header buf name value =
     push_sanitized_value (push_sanitized_value buf name @ '': '') value @ CRLF"

record forward_req =
  fr_method :: string
  fr_path :: string
  fr_host :: string
  fr_headers :: "(string \<times> string) list"
  fr_client_ip :: string
  fr_client_proto :: string

definition known_content_length :: "forward_req \<Rightarrow> nat option" where
  "known_content_length r =
     (case find (\<lambda>(k, v). eq_ignore_case k ''content-length'') (fr_headers r) of
        Some (k, v) \<Rightarrow> parse_u64 v
      | None \<Rightarrow> None)"

definition has_expect_continue :: "forward_req \<Rightarrow> bool" where
  "has_expect_continue r =
     list_ex (\<lambda>(k, v). eq_ignore_case k ''expect'' \<and> eq_ignore_case v ''100-continue'') (fr_headers r)"

definition has_body :: "forward_req \<Rightarrow> bool" where
  "has_body r = (fr_method r \<in> {''POST'', ''PUT'', ''PATCH'', ''DELETE''})"

definition use_chunked :: "forward_req \<Rightarrow> bool" where
  "use_chunked r = (has_body r \<and> known_content_length r = None)"

definition skipped_header :: "string \<Rightarrow> bool" where
  "skipped_header k = (eq_ignore_case k ''content-length'' \<or> eq_ignore_case k ''transfer-encoding''
     \<or> eq_ignore_case k ''expect'')"

definition request_head :: "forward_req \<Rightarrow> string" where
  "request_head r =
     (let req = fr_method r @ '' '' @ fr_path r @ '' HTTP/1.1'' @ CRLF @ ''Host: '' @ fr_host r @ CRLF;
          req = foldl (\<lambda>buf (k, v). if skipped_header k then buf else push_safe_header buf k v)
                  req (fr_headers r);
          req = push_sanitized_value (req @ ''X-Real-IP: '') (fr_client_ip r) @ CRLF;
          req = push_sanitized_value (req @ ''X-Forwarded-For: '') (fr_client_ip r) @ CRLF;
          req = push_sanitized_value (req @ ''X-Forwarded-Proto: '') (fr_client_proto r) @ CRLF
                  @ ''Connection: keep-alive'' @ CRLF;
          req = (if has_body r then
                   (let req1 = (if use_chunked r then req @ ''Transfer-Encoding: chunked'' @ CRLF
                                else (case known_content_length r of
                                    Some len \<Rightarrow> req @ ''Content-Length: '' @ dec len @ CRLF
                                  | None \<Rightarrow> req))
                    in if has_expect_continue r then req1 @ ''Expect: 100-continue'' @ CRLF else req1)
                 else req)
      in req @ CRLF)"

text \<open>
  The request body is a sequence of chunks from the client, which may end in an error or a
  timeout. The result is what was written to the upstream, and the error if there was one.
\<close>

datatype body_item = Chunk string | BodyError | BodyTimeout

fun pipe_chunks :: "bool \<Rightarrow> body_item list \<Rightarrow> string \<times> io_error_kind option" where
  "pipe_chunks chunked [] = ([], None)"
| "pipe_chunks chunked (BodyTimeout # items) = ([], Some TimedOut)"
| "pipe_chunks chunked (BodyError # items) = ([], Some BrokenPipe)"
| "pipe_chunks chunked (Chunk bytes # items) =
     (let (out, err) = pipe_chunks chunked items
      in if bytes = [] then (out, err)
         else if chunked then (hex (length bytes) @ CRLF @ bytes @ CRLF @ out, err)
         else (bytes @ out, err))"

definition pipe_request_body :: "body_item list \<Rightarrow> bool \<Rightarrow> string \<times> io_error_kind option" where
  "pipe_request_body body chunked =
     (case pipe_chunks chunked body of
        (out, Some e) \<Rightarrow> (out, Some e)
      | (out, None) \<Rightarrow> (if chunked then (out @ ''0'' @ CRLF @ CRLF, None) else (out, None)))"

section \<open>Reading the response\<close>

text \<open>
  \<^verbatim>\<open>read_line\<close>: up to and with the next line feed, or to the end of the stream. A line that is not
  UTF-8 is an error (\<open>None\<close>); its bytes are consumed.
\<close>

definition read_line :: "string \<Rightarrow> string option \<times> string" where
  "read_line buf =
     (let n = (case find_idx LF buf of Some i \<Rightarrow> Suc i | None \<Rightarrow> length buf);
          line = take n buf
      in ((if utf8_ok line then Some line else None), drop n buf))"

lemma read_line_shorter: "(Some l, rest) = read_line buf \<Longrightarrow> l \<noteq> [] \<Longrightarrow> length rest < length buf"
  by (auto simp: read_line_def Let_def split: option.splits if_splits)

lemma read_line_text_shorter: "(Some l, rest) = read_line buf \<Longrightarrow> trim l \<noteq> [] \<Longrightarrow> length rest < length buf"
  using read_line_shorter [of l rest buf] by (cases l) auto

lemma read_line_long_shorter: "(Some l, rest) = read_line buf \<Longrightarrow> n < length l \<Longrightarrow> length rest < length buf"
  using read_line_shorter [of l rest buf] by (cases l) auto

definition parse_header_line :: "string \<Rightarrow> (string \<times> string) option" where
  "parse_header_line trimmed =
     (case find_idx CHR '':'' trimmed of
        Some colon \<Rightarrow> Some (trim (take colon trimmed), trim (drop (colon + 1) trimmed))
      | None \<Rightarrow> None)"

definition RESP_MAX_HEADERS :: nat where "RESP_MAX_HEADERS = 200"
definition RESP_MAX_LINE_LEN :: nat where "RESP_MAX_LINE_LEN = 16384"
definition BUFFERED_MAX_BODY :: nat where "BUFFERED_MAX_BODY = 268435456"
definition CHUNKED_MAX_BODY :: nat where "CHUNKED_MAX_BODY = 268435456"
definition CHUNKED_MAX_CHUNK :: nat where "CHUNKED_MAX_CHUNK = 67108864"
definition CHUNKED_MAX_TRAILERS :: nat where "CHUNKED_MAX_TRAILERS = 100"

record resp_head =
  rh_content_length :: "nat option"
  rh_chunked :: bool
  rh_conn_close :: bool
  rh_has_trailer :: bool
  rh_headers :: "(string \<times> string) list"

definition record_header :: "string \<Rightarrow> string \<Rightarrow> resp_head \<Rightarrow> resp_head" where
  "record_header k v h =
     h\<lparr>rh_content_length := (if eq_ignore_case k ''content-length'' then parse_u64 v
                             else rh_content_length h),
       rh_chunked := (rh_chunked h \<or> eq_ignore_case k ''transfer-encoding'' \<and>
                        contains_sub (ascii_lower v) ''chunked''),
       rh_has_trailer := (rh_has_trailer h \<or> eq_ignore_case k ''trailer''),
       rh_conn_close := (rh_conn_close h \<or> eq_ignore_case k ''connection'' \<and>
                           contains_sub (ascii_lower v) ''close''),
       rh_headers := rh_headers h @ [(k, v)]\<rparr>"

function read_headers :: "nat \<Rightarrow> resp_head \<Rightarrow> string \<Rightarrow> (resp_head \<times> string) option" where
  "read_headers count h buf =
     (if RESP_MAX_HEADERS \<le> count then Some (h, buf)
      else (case read_line buf of
          (None, rest) \<Rightarrow> None
        | (Some line, rest) \<Rightarrow>
            if RESP_MAX_LINE_LEN < length line then read_headers (Suc count) h rest
            else (let trimmed = trim line
                  in if trimmed = [] then Some (h, rest)
                     else (case parse_header_line trimmed of
                         Some (k, v) \<Rightarrow> read_headers (Suc count) (record_header k v h) rest
                       | None \<Rightarrow> read_headers count h rest))))"
  by pat_completeness auto
termination
  by (relation "measure (\<lambda>(count, h, buf). length buf)") (auto intro: read_line_text_shorter read_line_long_shorter)

declare read_headers.simps [simp del]

definition read_exact_body :: "string \<Rightarrow> nat \<Rightarrow> string \<times> string" where
  "read_exact_body buf len =
     (let capped = min len BUFFERED_MAX_BODY in (take capped buf, drop capped buf))"

text \<open>The body of a response that ends with the connection, block by block as it arrives.\<close>

fun read_eof_body :: "string \<Rightarrow> string list \<Rightarrow> string" where
  "read_eof_body b [] = b"
| "read_eof_body b (block # blocks) =
     (if block = [] then b
      else if BUFFERED_MAX_BODY < length (b @ block) then b @ block
      else read_eof_body (b @ block) blocks)"

definition parse_chunk_size :: "string \<Rightarrow> nat" where
  "parse_chunk_size size_line =
     unwrap_or (parse_uint 16 (2 ^ 64) (hd (split_on CHR '';'' (trim size_line)))) 0"

function read_trailers :: "(string \<times> string) list \<Rightarrow> string \<Rightarrow> (string \<times> string) list \<times> string" where
  "read_trailers trailers buf =
     (if CHUNKED_MAX_TRAILERS \<le> length trailers then (trailers, buf)
      else (case read_line buf of
          (None, rest) \<Rightarrow> (trailers, rest)
        | (Some line, rest) \<Rightarrow>
            if line = [] \<or> trim line = [] then (trailers, rest)
            else (case parse_header_line (trim line) of
                Some kv \<Rightarrow> read_trailers (trailers @ [kv]) rest
              | None \<Rightarrow> read_trailers trailers rest)))"
  by pat_completeness auto
termination
  by (relation "measure (\<lambda>(t, buf). length buf)") (auto intro: read_line_text_shorter read_line_long_shorter)

declare read_trailers.simps [simp del]

function read_chunks :: "bool \<Rightarrow> string \<Rightarrow> string \<Rightarrow> string \<times> (string \<times> string) list \<times> string" where
  "read_chunks collect_trailers body buf =
     (case read_line buf of
        (None, rest) \<Rightarrow> (body, [], rest)
      | (Some size_line, rest) \<Rightarrow>
          if size_line = [] \<or> 64 < length size_line then (body, [], rest)
          else (let chunk_size = parse_chunk_size size_line
                in if chunk_size = 0 then
                     (if collect_trailers
                      then (case read_trailers [] rest of (t, r) \<Rightarrow> (body, t, r))
                      else (body, [], snd (read_line rest)))
                   else if CHUNKED_MAX_CHUNK < chunk_size \<or> CHUNKED_MAX_BODY < length body + chunk_size
                   then (body, [], rest)
                   else read_chunks collect_trailers (body @ take chunk_size rest)
                          (snd (read_line (drop chunk_size rest)))))"
  by pat_completeness auto
termination
proof (relation "measure (\<lambda>(c, body, buf). length buf)"; clarsimp)
  fix buf l rest :: string and k :: nat
  assume "(Some l, rest) = read_line buf" "l \<noteq> []"
  then have "length rest < length buf" by (rule read_line_shorter)
  moreover have "length (snd (read_line x)) \<le> length x" for x by (simp add: read_line_def Let_def)
  ultimately show "length (snd (read_line (drop k rest))) < length buf"
    by (metis diff_le_self le_less_trans length_drop)
qed

declare read_chunks.simps [simp del]

definition read_chunked_body :: "string \<Rightarrow> bool \<Rightarrow> string \<times> (string \<times> string) list \<times> string" where
  "read_chunked_body buf collect_trailers = read_chunks collect_trailers [] buf"

section \<open>One exchange on a connection\<close>

text \<open>
  The transport of one exchange: the result of writing the request head, whether the first and
  the second timed read run into their timeouts, and the bytes the upstream sends.
\<close>

datatype write_result = WriteOk | WriteTimedOut | WriteFailed io_error_kind

record transport =
  tr_head_write :: write_result
  tr_read_timeout1 :: bool
  tr_read_timeout2 :: bool
  tr_stream :: string

record exchange =
  ex_status :: nat
  ex_http10 :: bool
  ex_written :: string
  ex_rest :: string

definition io_of :: "io_error_kind \<Rightarrow> anyhow_error" where
  "io_of e = Other (case e of TimedOut \<Rightarrow> ''timed out'' | _ \<Rightarrow> ''broken pipe'')"

definition send_head_failed :: "nat \<Rightarrow> bool \<Rightarrow> write_result \<Rightarrow> anyhow_error option" where
  "send_head_failed write_timeout allow_retry w =
     (case w of
        WriteOk \<Rightarrow> None
      | WriteTimedOut \<Rightarrow> Some (Proxy (WriteTimeout [] (word_of_nat write_timeout)))
      | WriteFailed e \<Rightarrow>
          Some (if allow_retry then Proxy (WriteTimeout [] (word_of_nat write_timeout))
                else Proxy (from_io [] e WriteCtx)))"

definition send_expect :: "forward_req \<Rightarrow> body_item list \<Rightarrow> transport \<Rightarrow> (anyhow_error \<times> bool) + exchange" where
  "send_expect r body t =
     (case read_line (tr_stream t) of
        (None, rest) \<Rightarrow> Inl (Proxy (TtfbTimeout []), False)
      | (Some status_line, rest) \<Rightarrow>
          if tr_read_timeout1 t then Inl (Proxy (TtfbTimeout []), False)
          else if parse_status_code status_line = 100 then
            (case pipe_request_body body (use_chunked r) of
               (out, Some e) \<Rightarrow> Inl (io_of e, True)
             | (out, None) \<Rightarrow>
                 if tr_read_timeout2 t then Inl (Proxy (TtfbTimeout []), True)
                 else (case read_line (snd (read_line rest)) of
                     (None, rest') \<Rightarrow> Inl (Proxy (from_io [] (OtherKind ''InvalidData'') ReadCtx), True)
                   | (Some line, rest') \<Rightarrow>
                       Inr \<lparr>ex_status = parse_status_code line,
                            ex_http10 = starts_with line ''HTTP/1.0'',
                            ex_written = request_head r @ out, ex_rest = rest'\<rparr>))
          else Inr \<lparr>ex_status = parse_status_code status_line,
                    ex_http10 = starts_with status_line ''HTTP/1.0'',
                    ex_written = request_head r, ex_rest = rest\<rparr>)"

definition send_plain :: "forward_req \<Rightarrow> body_item list \<Rightarrow> transport \<Rightarrow> (anyhow_error \<times> bool) + exchange" where
  "send_plain r body t =
     (case (if has_body r then pipe_request_body body (use_chunked r) else ([], None)) of
        (out, Some e) \<Rightarrow> Inl (io_of e, True)
      | (out, None) \<Rightarrow>
          if tr_read_timeout1 t then Inl (Proxy (TtfbTimeout []), has_body r)
          else (case read_line (tr_stream t) of
              (None, rest) \<Rightarrow>
                Inl (Proxy (from_io [] (OtherKind ''InvalidData'') ReadCtx), has_body r)
            | (Some line, rest) \<Rightarrow>
                if line = [] then Inl (Proxy (ConnReset []), False)
                else Inr \<lparr>ex_status = parse_status_code line,
                          ex_http10 = starts_with line ''HTTP/1.0'',
                          ex_written = request_head r @ out, ex_rest = rest\<rparr>))"

definition send_request ::
  "nat \<Rightarrow> bool \<Rightarrow> forward_req \<Rightarrow> body_item list \<Rightarrow> transport \<Rightarrow> (anyhow_error \<times> bool) + exchange" where
  "send_request write_timeout_secs allow_retry r body t =
     (let write_timeout = (if 0 < write_timeout_secs then write_timeout_secs else 60)
      in case send_head_failed write_timeout allow_retry (tr_head_write t) of
           Some e \<Rightarrow> Inl (e, False)
         | None \<Rightarrow>
             if has_body r \<and> has_expect_continue r then send_expect r body t
             else send_plain r body t)"

text \<open>The buffered response: head, body, body filters, headers, what is offered to the response
  cache (status, upstream headers and filtered body), and whether the connection is given back to
  the pool.\<close>

record proxied =
  px_status :: nat
  px_body :: "string option"
  px_headers :: "header_op list"
  px_store :: "(nat \<times> (string \<times> string) list \<times> string) option"
  px_reuse :: bool
  px_rest :: string

definition status_or_ok :: "nat \<Rightarrow> nat" where
  "status_or_ok code = (if 100 \<le> code \<and> code < 1000 then code else 200)"

definition no_body_status :: "nat \<Rightarrow> bool" where
  "no_body_status s = (s = 304 \<or> s = 204 \<or> s = 205 \<or> 100 \<le> s \<and> s < 200)"

definition read_body :: "(string \<Rightarrow> string list) \<Rightarrow> resp_head \<Rightarrow> string
    \<Rightarrow> string \<times> (string \<times> string) list \<times> bool \<times> string" where
  "read_body blocks h buf =
     (if rh_chunked h then
        (case read_chunked_body buf (rh_has_trailer h) of (b, t, rest) \<Rightarrow> (b, t, rh_conn_close h, rest))
      else (case rh_content_length h of
          Some len \<Rightarrow> (case read_exact_body buf len of (b, rest) \<Rightarrow> (b, [], rh_conn_close h, rest))
        | None \<Rightarrow> (read_eof_body [] (blocks buf), [], True, [])))"

definition buffered_response ::
  "'re regex_api \<Rightarrow> header_api \<Rightarrow> rewrite_opts \<Rightarrow> sub_filter list \<Rightarrow> (string \<Rightarrow> string list)
     \<Rightarrow> 're re_cache \<Rightarrow> exchange \<Rightarrow> (proxied \<times> 're re_cache) outcome option" where
  "buffered_response rx api ro filters blocks cache e =
     (let h0 = \<lparr>rh_content_length = None, rh_chunked = False, rh_conn_close = ex_http10 e,
                rh_has_trailer = False, rh_headers = []\<rparr>;
          s = status_or_ok (ex_status e)
      in case read_headers 0 h0 (ex_rest e) of
           None \<Rightarrow> None
         | Some (h, buf) \<Rightarrow> Some (
             if no_body_status s then
               bind_outcome (apply_response_headers api ro (rh_headers h)) (\<lambda>ops.
                 Val (\<lparr>px_status = s, px_body = None, px_headers = ops, px_store = None,
                       px_reuse = (\<not> rh_conn_close h), px_rest = buf\<rparr>, cache))
             else
               (case read_body blocks h buf of (b, trailers, close, rest) \<Rightarrow>
                  let b1 = rewrite_body_urls b (rh_headers h) (redirect_from ro) (redirect_to ro);
                      (b2, cache') = apply_sub_filter rx b1 (rh_headers h) filters cache
                  in bind_outcome (apply_response_headers api ro (rh_headers h)) (\<lambda>ops.
                       Val (\<lparr>px_status = s, px_body = Some b2,
                             px_headers = ops @ append_trailer_headers api trailers
                               @ (case value_from_str api (dec (length b2)) of
                                    Some v \<Rightarrow> [HInsert ''content-length'' v] | None \<Rightarrow> []),
                             px_store = Some (ex_status e, rh_headers h, b2),
                             px_reuse = (\<not> close), px_rest = rest\<rparr>, cache')))))"

section \<open>The two attempts\<close>

text \<open>
  \<open>idle\<close> says whether the pool has an idle connection for the first attempt, \<open>connect\<close> whether
  opening a connection fails, \<open>send\<close> is the exchange. The bodies handed to the exchange are
  returned beside the result; the default of a taken body is the empty one.
\<close>

fun forward_loop ::
  "bool \<Rightarrow> (nat \<Rightarrow> anyhow_error option) \<Rightarrow> (nat \<Rightarrow> body_item list \<Rightarrow> (anyhow_error \<times> bool) + 'r)
     \<Rightarrow> nat \<Rightarrow> nat \<Rightarrow> body_item list option \<Rightarrow> ((anyhow_error + 'r) \<times> body_item list list) outcome" where
  "forward_loop idle connect send 0 attempt slot = Panic"
| "forward_loop idle connect send (Suc left) attempt slot =
     (case (if attempt = 0 \<and> idle then None else connect attempt) of
        Some e \<Rightarrow> Val (Inl e, [])
      | None \<Rightarrow>
          (let body = unwrap_or slot []
           in case send attempt body of
                Inr resp \<Rightarrow> Val (Inr resp, [body])
              | Inl (e, body_consumed) \<Rightarrow>
                  if attempt = 0 \<and> \<not> body_consumed
                  then bind_outcome (forward_loop idle connect send left (Suc attempt) None)
                         (\<lambda>(res, bodies). Val (res, body # bodies))
                  else Val (Inl e, [body])))"

definition forward_request ::
  "bool \<Rightarrow> (nat \<Rightarrow> anyhow_error option) \<Rightarrow> (nat \<Rightarrow> body_item list \<Rightarrow> (anyhow_error \<times> bool) + 'r)
     \<Rightarrow> body_item list \<Rightarrow> ((anyhow_error + 'r) \<times> body_item list list) outcome" where
  "forward_request idle connect send req_body = forward_loop idle connect send 2 0 (Some req_body)"

section \<open>The request head is line by line what was asked for\<close>

definition no_crlf :: "string \<Rightarrow> bool" where
  "no_crlf s = (CR \<notin> set s \<and> LF \<notin> set s)"

definition sanitize :: "string \<Rightarrow> string" where
  "sanitize s = push_sanitized_value [] s"

text \<open>The lines of the head, one per forwarded header.\<close>

definition head_lines :: "forward_req \<Rightarrow> string list" where
  "head_lines r =
     [fr_method r @ '' '' @ fr_path r @ '' HTTP/1.1'', ''Host: '' @ fr_host r] @
     map (\<lambda>(k, v). sanitize k @ '': '' @ sanitize v)
       (filter (\<lambda>(k, v). \<not> skipped_header k) (fr_headers r)) @
     [''X-Real-IP: '' @ sanitize (fr_client_ip r), ''X-Forwarded-For: '' @ sanitize (fr_client_ip r),
      ''X-Forwarded-Proto: '' @ sanitize (fr_client_proto r), ''Connection: keep-alive''] @
     (if has_body r then
        (case known_content_length r of
           None \<Rightarrow> [''Transfer-Encoding: chunked''] | Some len \<Rightarrow> [''Content-Length: '' @ dec len]) @
        (if has_expect_continue r then [''Expect: 100-continue''] else [])
      else [])"

definition wire :: "string list \<Rightarrow> string" where
  "wire ls = concat (map (\<lambda>l. l @ CRLF) ls)"

lemma wire_append [simp]: "wire (a @ b) = wire a @ wire b" "wire [] = []" "wire (l # ls) = l @ CRLF @ wire ls"
  by (simp_all add: wire_def)

lemma sanitized_append: "push_sanitized_value buf val = buf @ sanitize val"
  by (simp add: push_sanitized_value_def sanitize_def)

lemma high_byte_no_crlf: "128 \<le> (n::nat) \<Longrightarrow> n < 256 \<Longrightarrow> char_of n \<noteq> CR \<and> char_of n \<noteq> LF"
proof -
  assume n: "128 \<le> n" "n < 256"
  then have "cv (char_of n :: char) = n" by simp
  then have "char_of n = CR \<Longrightarrow> n = 13" "char_of n = LF \<Longrightarrow> n = 10" by simp_all
  with n show ?thesis by auto
qed

lemma push_byte_char_no_crlf: "c \<noteq> CR \<Longrightarrow> c \<noteq> LF \<Longrightarrow> no_crlf (push_byte_char c)"
proof (cases "cv c < 128")
  case False
  have "cv c < 256" by simp
  then have "cv c div 64 < 4" by (simp add: less_mult_imp_div_less)
  then have "192 + cv c div 64 < 256" "128 + cv c mod 64 < 256" by (simp_all add: trans_less_add1)
  with high_byte_no_crlf [of "192 + cv c div 64"] high_byte_no_crlf [of "128 + cv c mod 64"] False
  show ?thesis by (auto simp: push_byte_char_def no_crlf_def)
qed (auto simp: push_byte_char_def no_crlf_def)

lemma sanitize_no_crlf: "no_crlf (sanitize s)"
  using push_byte_char_no_crlf
  by (auto simp: sanitize_def push_sanitized_value_def list_ex_iff no_crlf_def)

lemma push_headers_wire:
  "foldl (\<lambda>buf (k, v). if skipped_header k then buf else push_safe_header buf k v) buf hs
     = buf @ wire (map (\<lambda>(k, v). sanitize k @ '': '' @ sanitize v)
         (filter (\<lambda>(k, v). \<not> skipped_header k) hs))"
  by (induction hs arbitrary: buf) (auto simp: push_safe_header_def sanitized_append)

lemma request_head_wire: "request_head r = wire (head_lines r) @ CRLF"
proof -
  have "use_chunked r = (known_content_length r = None)" if "has_body r"
    using that by (simp add: use_chunked_def)
  then show ?thesis
    by (cases "has_body r"; cases "known_content_length r")
       (simp_all add: request_head_def head_lines_def push_headers_wire sanitized_append Let_def)
qed

lemma strip_cr_line [simp]: "no_crlf l \<Longrightarrow> strip_cr (l @ [CR]) = l"
  by (simp add: strip_cr_def char_of_def bit_0)

lemma str_lines_wire: "list_all no_crlf ls \<Longrightarrow> str_lines (wire ls) = ls"
proof -
  have lf: "char_of (10::nat) = LF" by (simp add: char_of_def bit_0)
  assume "list_all no_crlf ls"
  then have s: "split_on LF (wire ls) = map (\<lambda>l. l @ [CR]) ls @ [[]]"
  proof (induction ls)
    case (Cons l ls)
    then have "LF \<notin> set (l @ [CR])" by (auto simp: no_crlf_def)
    from split_on_append [OF this, of "wire ls"] Cons show ?case by simp
  qed simp
  with \<open>list_all no_crlf ls\<close> show ?thesis
    by (simp add: str_lines_def lf Let_def comp_def list_all_iff cong: map_cong)
qed

text \<open>
  C17: header injection is impossible. If the request line and the host have no carriage return
  or line feed, a recipient that reads the request head line by line sees exactly the intended
  lines and then the empty line that ends the head: one line per forwarded header, whatever bytes
  the header names and values, the client address and the protocol hold.
\<close>

theorem request_head_no_injection:
  assumes "no_crlf (fr_method r)" and "no_crlf (fr_path r)" and "no_crlf (fr_host r)"
  shows "str_lines (request_head r) = head_lines r @ [[]]"
proof -
  have d: "no_crlf (dec n)" for n
    using dec_notin [of CR n] dec_notin [of LF n] by (simp add: no_crlf_def is_digit_def)
  have app: "no_crlf (a @ b) = (no_crlf a \<and> no_crlf b)" for a b by (auto simp: no_crlf_def)
  have lit: "no_crlf '' ''" "no_crlf '' HTTP/1.1''" "no_crlf ''Host: ''" "no_crlf '': ''"
    "no_crlf ''X-Real-IP: ''" "no_crlf ''X-Forwarded-For: ''" "no_crlf ''X-Forwarded-Proto: ''"
    "no_crlf ''Connection: keep-alive''" "no_crlf ''Transfer-Encoding: chunked''"
    "no_crlf ''Content-Length: ''" "no_crlf ''Expect: 100-continue''"
    by (simp_all add: no_crlf_def)
  have "list_all no_crlf (head_lines r @ [[]])"
    using assms unfolding head_lines_def
    by (auto simp: list_all_iff app lit d sanitize_no_crlf simp del: append_Cons
        split: option.splits) (simp_all add: no_crlf_def)
  moreover have "request_head r = wire (head_lines r @ [[]])"
    by (simp add: request_head_wire)
  ultimately show ?thesis by (simp only: str_lines_wire)
qed

definition demo_req :: forward_req where
  "demo_req = \<lparr>fr_method = ''GET'', fr_path = ''/'', fr_host = ''h'',
     fr_headers = [(''x'', [CHR ''1'', CR, LF, CHR ''e'', CHR '':'', CHR ''2''])],
     fr_client_ip = ''1.2.3.4'', fr_client_proto = ''http''\<rparr>"

theorem request_head_no_injection_witness:
  "str_lines (request_head demo_req)
     = [''GET / HTTP/1.1'', ''Host: h'', ''x: 1  e:2'', ''X-Real-IP: 1.2.3.4'',
        ''X-Forwarded-For: 1.2.3.4'', ''X-Forwarded-Proto: http'', ''Connection: keep-alive'', []]"
proof -
  have "str_lines (request_head demo_req) = head_lines demo_req @ [[]]"
    by (rule request_head_no_injection) (simp_all add: demo_req_def no_crlf_def)
  moreover have "\<not> skipped_header ''x''" by (simp add: skipped_header_def case_eval)
  moreover have "\<not> has_body demo_req" by (simp add: has_body_def demo_req_def)
  ultimately show ?thesis
    by (simp add: head_lines_def demo_req_def sanitize_def push_sanitized_value_def push_byte_char_def)
qed

section \<open>Chunked bodies\<close>

lemma hex_digit_val: "d < 16 \<Longrightarrow> digit_val 16 (hex_digit d) = Some d"
  by (auto simp: digit_val_def hex_digit_def Let_def)

lemma digits_val_hex: "digits_val 16 0 (hex n) = Some n"
proof (induction n rule: hex.induct)
  case (1 n)
  then show ?case
    by (cases "n < 16") (simp_all add: hex.simps [of n] digits_val_append hex_digit_val)
qed

lemma hex_nonempty [simp]: "hex n \<noteq> []"
  by (subst hex.simps) simp

definition is_hex_char :: "char \<Rightarrow> bool" where
  "is_hex_char c = (48 \<le> cv c \<and> cv c \<le> 57 \<or> 97 \<le> cv c \<and> cv c \<le> 102)"

lemma hex_chars: "list_all is_hex_char (hex n)"
proof (induction n rule: hex.induct)
  case (1 n)
  have "is_hex_char (hex_digit d)" if "d < 16" for d
    using that by (auto simp: is_hex_char_def hex_digit_def)
  with 1 show ?case by (auto simp: hex.simps [of n])
qed

lemma hex_char_graphic: "is_hex_char c \<Longrightarrow> graphic c \<and> c \<noteq> CHR ''+'' \<and> c \<noteq> CHR '';'' \<and> c \<noteq> LF \<and> cv c < 128"
  by (auto simp: is_hex_char_def graphic_def)

lemma trim_graphic_crlf:
  assumes "list_all graphic s" and "s \<noteq> []"
  shows "trim (s @ CRLF) = s"
proof -
  obtain c t where s: "s = c # t" using assms(2) by (cases s) auto
  with assms(1) have "trim_start (s @ CRLF) = s @ CRLF" by simp
  moreover have "trim_rev (LF # CR # rev s) = trim_rev (rev s)"
    by (simp add: trim_rev.simps [of "LF # _"] trim_rev.simps [of "CR # _"] ws_len_rev_def ascii_ws_def)
  moreover have "rev (trim_rev (rev (trim_start s))) = s" using trim_graphic [OF assms(1)] by (simp add: trim_def)
  moreover have "trim_start s = s" using s assms(1) by simp
  ultimately show ?thesis by (simp add: trim_def)
qed

lemma parse_chunk_size_hex:
  assumes "n < 2 ^ 64"
  shows "parse_chunk_size (hex n @ CRLF) = n"
proof -
  have g: "list_all graphic (hex n)" and semi: "CHR '';'' \<notin> set (hex n)"
    using hex_chars [of n] hex_char_graphic by (auto simp: list_all_iff)
  obtain c t where c: "hex n = c # t" by (cases "hex n") auto
  with hex_chars [of n] have "c \<noteq> CHR ''+''" using hex_char_graphic by auto
  with c have "parse_uint 16 (2 ^ 64) (hex n) = Some n"
    using assms digits_val_hex [of n] by (simp add: parse_uint_def)
  with trim_graphic_crlf [OF g] semi show ?thesis
    by (simp add: parse_chunk_size_def unwrap_or_def)
qed

lemma read_line_lf:
  assumes "LF \<notin> set l" and "utf8_ok (l @ [LF])"
  shows "read_line (l @ LF # rest) = (Some (l @ [LF]), rest)"
  using assms by (simp add: read_line_def Let_def)

lemma read_line_crlf: "read_line (CR # LF # rest) = (Some CRLF, rest)"
  using read_line_lf [of "[CR]" rest] by simp

lemma read_line_hex: "read_line (hex n @ CR # LF # rest) = (Some (hex n @ CRLF), rest)"
proof -
  have "list_all (\<lambda>c. cv c < 128 \<and> c \<noteq> LF) (hex n)"
    using hex_chars [of n] hex_char_graphic by (auto simp: list_all_iff)
  then have a: "list_all (\<lambda>c. cv c < 128) ((hex n @ [CR]) @ [LF])" and l: "LF \<notin> set (hex n @ [CR])"
    by (auto simp: list_all_iff)
  from read_line_lf [OF l utf8_ok_ascii [OF a], of rest] show ?thesis by simp
qed

lemma read_chunks_step:
  assumes "data \<noteq> []" and "length data \<le> CHUNKED_MAX_CHUNK" and "length body + length data \<le> CHUNKED_MAX_BODY"
  shows "read_chunks c body (hex (length data) @ CRLF @ data @ CRLF @ rest) = read_chunks c (body @ data) rest"
proof -
  have "length data < 16 ^ Suc 7" using assms(2) by (simp add: CHUNKED_MAX_CHUNK_def)
  then have "length (hex (length data)) \<le> 8" using length_hex by fastforce
  moreover have "parse_chunk_size (hex (length data) @ CRLF) = length data"
    using assms(2) by (intro parse_chunk_size_hex) (simp add: CHUNKED_MAX_CHUNK_def)
  ultimately show ?thesis
    using assms by (subst read_chunks.simps) (simp add: read_line_hex read_line_crlf Let_def)
qed

lemma read_chunks_end: "read_chunks c body (''0'' @ CRLF @ CRLF) = (body, [], [])"
proof -
  have z: "read_line (''0'' @ CRLF @ CRLF) = (Some (''0'' @ CRLF), CRLF)"
    using read_line_hex [of 0 CRLF] by (simp add: hex.simps hex_digit_def char_of_def bit_0)
  have "parse_chunk_size (''0'' @ CRLF) = 0"
    using parse_chunk_size_hex [of 0] by (simp add: hex.simps hex_digit_def char_of_def bit_0)
  moreover have "trim CRLF = []" by (simp add: trim_eval)
  then have "read_trailers [] CRLF = ([], [])"
    using read_line_crlf [of "[]"]
    by (subst read_trailers.simps) (simp add: CHUNKED_MAX_TRAILERS_def)
  ultimately show ?thesis
    using z read_line_crlf [of "[]"] by (subst read_chunks.simps) (simp add: Let_def)
qed

lemma pipe_chunks_ok: "snd (pipe_chunks chunked (map Chunk cs)) = None"
  by (induction cs) (auto simp: Let_def split: prod.splits)

lemma read_piped_chunks:
  assumes "list_all (\<lambda>d. length d \<le> CHUNKED_MAX_CHUNK) cs"
    and "length body + length (concat cs) \<le> CHUNKED_MAX_BODY"
  shows "read_chunks c body (fst (pipe_chunks True (map Chunk cs)) @ ''0'' @ CRLF @ CRLF)
    = (body @ concat cs, [], [])"
  using assms
proof (induction cs arbitrary: body)
  case Nil
  then show ?case using read_chunks_end by simp
next
  case (Cons d ds)
  obtain out err where p: "pipe_chunks True (map Chunk ds) = (out, err)" by (cases "pipe_chunks True (map Chunk ds)")
  show ?case
  proof (cases "d = []")
    case True
    then show ?thesis using Cons p by simp
  next
    case False
    have "read_chunks c body (hex (length d) @ CRLF @ d @ CRLF @ (out @ ''0'' @ CRLF @ CRLF))
      = read_chunks c (body @ d) (out @ ''0'' @ CRLF @ CRLF)"
      using Cons.prems False by (intro read_chunks_step) auto
    with Cons.IH [of "body @ d"] Cons.prems p False show ?thesis by simp
  qed
qed

text \<open>
  C18: the chunked encoding round trip. Whatever chunks a client sends, what the proxy writes to
  an upstream in chunked mode is decoded by its own chunked reader to exactly the concatenation of
  the chunks, with no trailers and nothing left over, within the reader's limits of 64 MiB a chunk
  and 256 MiB a body.
\<close>

theorem chunked_round_trip:
  assumes "list_all (\<lambda>d. length d \<le> CHUNKED_MAX_CHUNK) cs" and "length (concat cs) \<le> CHUNKED_MAX_BODY"
  shows "\<exists>out. pipe_request_body (map Chunk cs) True = (out, None) \<and>
    read_chunked_body out collect_trailers = (concat cs, [], [])"
proof -
  obtain out where "pipe_chunks True (map Chunk cs) = (out, None)"
    using pipe_chunks_ok [of True cs] by (metis prod.collapse)
  with read_piped_chunks [of cs "[]" collect_trailers] assms show ?thesis
    by (simp add: pipe_request_body_def read_chunked_body_def)
qed

theorem chunked_round_trip_witness:
  "\<exists>out. pipe_request_body [Chunk ''abc'', Chunk [], Chunk ''de''] True = (out, None) \<and>
     read_chunked_body out False = (''abcde'', [], [])"
  using chunked_round_trip [of "[''abc'', [], ''de'']" False]
  by (simp add: CHUNKED_MAX_CHUNK_def CHUNKED_MAX_BODY_def)

lemma read_trailers_bound:
  "length t \<le> CHUNKED_MAX_TRAILERS \<Longrightarrow> length (fst (read_trailers t buf)) \<le> CHUNKED_MAX_TRAILERS"
proof (induction t buf rule: read_trailers.induct)
  case (1 t buf)
  show ?case
    using "1.prems" "1.IH"
    by (subst read_trailers.simps) (auto split: option.splits prod.splits)
qed

lemma read_chunks_bound:
  "length body \<le> CHUNKED_MAX_BODY \<Longrightarrow>
   length (fst (read_chunks c body buf)) \<le> CHUNKED_MAX_BODY \<and>
   length (fst (snd (read_chunks c body buf))) \<le> CHUNKED_MAX_TRAILERS"
proof (induction c body buf rule: read_chunks.induct)
  case (1 c body buf)
  obtain l rest where rl: "read_line buf = (l, rest)" by (cases "read_line buf")
  have t: "length (fst (read_trailers [] rest)) \<le> CHUNKED_MAX_TRAILERS" by (rule read_trailers_bound) simp
  show ?case
    using "1.prems" "1.IH" [OF rl [symmetric]] rl t
    by (subst (1 2) read_chunks.simps) (auto simp: Let_def not_less min_def split: option.splits prod.splits)
qed

lemma read_headers_bound:
  "read_headers n h buf = Some (h', rest) \<Longrightarrow> length (rh_headers h) \<le> n \<Longrightarrow> n \<le> RESP_MAX_HEADERS \<Longrightarrow>
   length (rh_headers h') \<le> RESP_MAX_HEADERS"
proof (induction n h buf rule: read_headers.induct)
  case (1 n h buf)
  obtain l r where rl: "read_line buf = (l, r)" by (cases "read_line buf")
  show ?case
    using "1.prems" "1.IH" [OF _ rl [symmetric]] rl
    by (subst (asm) read_headers.simps)
       (auto simp: Let_def record_header_def split: option.splits prod.splits if_splits)
qed



section \<open>The second attempt\<close>

text \<open>
  A request with a body that meets a stale pooled connection reaches the upstream without
  its body. When writing the head on the first connection fails, the request is sent again on a
  fresh one, but its body was already taken out of its slot: whatever the client sent, the second
  exchange gets the empty body, and for a chunked request it writes a complete, empty message.
\<close>

theorem stale_connection_drops_body:
  assumes "connect 1 = None" and "idle \<or> connect 0 = None"
    and "tr_head_write (t 0) \<noteq> WriteOk" and "tr_head_write (t 1) = WriteOk"
    and "use_chunked r" and "\<not> has_expect_continue r"
    and "\<not> tr_read_timeout1 (t 1)" and "tr_stream (t 1) = ''HTTP/1.1 200 OK'' @ CRLF @ rest"
  shows "\<exists>ex. forward_request idle connect (\<lambda>i b. send_request wt (i = 0) r b (t i)) body
      = Val (Inr ex, [body, []]) \<and> ex_status ex = 200 \<and>
    ex_written ex = request_head r @ ''0'' @ CRLF @ CRLF"
proof -
  have "\<exists>e. send_request wt True r body (t 0) = Inl (e, False)"
    using assms(3) by (cases "tr_head_write (t 0)") (simp_all add: send_request_def send_head_failed_def Let_def)
  then obtain e where e: "send_request wt True r body (t 0) = Inl (e, False)" ..
  have "list_all (\<lambda>c. cv c < 128) ((''HTTP/1.1 200 OK'' @ [CR]) @ [LF])" by simp
  then have u: "utf8_ok ((''HTTP/1.1 200 OK'' @ [CR]) @ [LF])" by (rule utf8_ok_ascii)
  have l: "read_line (''HTTP/1.1 200 OK'' @ CRLF @ rest) = (Some (''HTTP/1.1 200 OK'' @ CRLF), rest)"
    using read_line_lf [OF _ u, of rest] by simp
  have st: "parse_status_code (''HTTP/1.1 200 OK'' @ CRLF) = 200"
    by (simp add: parse_status_code_def split_whitespace_def ws_len_def ascii_ws_def ws2_def ws3_def
        parse_eval unwrap_or_def)
  have "has_body r" using assms(5) by (simp add: use_chunked_def)
  then have "\<exists>ex. send_request wt False r [] (t 1) = Inr ex \<and> ex_status ex = 200 \<and>
      ex_written ex = request_head r @ ''0'' @ CRLF @ CRLF"
    using assms l st
    by (simp add: send_request_def send_head_failed_def send_plain_def pipe_request_body_def Let_def)
  then obtain ex where ex: "send_request wt False r [] (t 1) = Inr ex" "ex_status ex = 200"
    "ex_written ex = request_head r @ ''0'' @ CRLF @ CRLF" by blast
  have "(if idle then None else connect 0) = None" using assms(2) by auto
  with e ex assms(1) show ?thesis
    by (simp add: forward_request_def numeral_2_eq_2 unwrap_or_def)
qed

definition demo_post :: forward_req where
  "demo_post = demo_req\<lparr>fr_method := ''POST'', fr_headers := []\<rparr>"

definition demo_transport :: "write_result \<Rightarrow> transport" where
  "demo_transport w = \<lparr>tr_head_write = w, tr_read_timeout1 = False, tr_read_timeout2 = False,
     tr_stream = ''HTTP/1.1 200 OK'' @ CRLF @ CRLF\<rparr>"

theorem stale_connection_drops_body_witness:
  "\<exists>ex. forward_request True (\<lambda>_. None) (\<lambda>i b. send_request 60 (i = 0) demo_post b
        (demo_transport (if i = 0 then WriteFailed BrokenPipe else WriteOk))) [Chunk ''payload'']
      = Val (Inr ex, [[Chunk ''payload''], []]) \<and>
    ex_written ex = request_head demo_post @ ''0'' @ CRLF @ CRLF"
proof -
  let ?t = "\<lambda>i::nat. demo_transport (if i = 0 then WriteFailed BrokenPipe else WriteOk)"
  have "use_chunked demo_post" "\<not> has_expect_continue demo_post"
    by (simp_all add: use_chunked_def has_body_def known_content_length_def has_expect_continue_def
        demo_post_def demo_req_def)
  then show ?thesis
    using stale_connection_drops_body [of "\<lambda>_. None" True ?t demo_post CRLF 60 "[Chunk ''payload'']"]
    by (auto simp: demo_transport_def)
qed

end
