(* ===== verification/Proxy_Flow.thy ===== *)
theory Proxy_Flow
  imports Load_Balancer Http1_Conn
begin

text \<open>
  The reverse-proxy handler (\<^verbatim>\<open>handler/reverse_proxy/mod.rs\<close>): which headers of the client go to the
  upstream, the loop over upstream nodes, and the handler that ties the choice of a node, the
  cache, the three transports and the accounting of active connections together.

  The exchange with a node is a parameter (its HTTP/1.1 form is \<open>forward_request\<close> of
  \<^verbatim>\<open>Http1_Conn\<close>), as are the WebSocket and HTTP/2 transports. The cache is a state of its own, which
  \<open>lookup\<close> consults; \<^verbatim>\<open>Proxy_Handler\<close> puts the response cache in its place and finishes the response.
\<close>

section \<open>The request\<close>

record client_request =
  cl_method :: string
  cl_path_and_query :: "string option"
  cl_uri_path :: string
  cl_authority :: "string option"
  cl_headers :: "(string \<times> string option) list"
  cl_scheme :: "string option"
  cl_is_tls :: bool
  cl_h2_ws :: bool
  cl_ip :: string

text \<open>A header value is \<open>None\<close> when it is not visible ASCII (\<^verbatim>\<open>to_str\<close> fails).\<close>

definition get_header :: "string \<Rightarrow> client_request \<Rightarrow> string option" where
  "get_header name rq =
     (case find (\<lambda>(k, v). eq_ignore_case k name) (cl_headers rq) of
        Some (k, v) \<Rightarrow> v | None \<Rightarrow> None)"

definition proxy_path :: "client_request \<Rightarrow> string" where
  "proxy_path rq =
     (case cl_path_and_query rq of
        Some p \<Rightarrow> if p \<noteq> [] \<and> p \<noteq> ''/'' then p else cl_uri_path rq
      | None \<Rightarrow> cl_uri_path rq)"

definition client_host :: "client_request \<Rightarrow> string" where
  "client_host rq =
     (case cl_authority rq of
        Some a \<Rightarrow> a
      | None \<Rightarrow> unwrap_or (get_header ''host'' rq) [])"

definition is_ws :: "client_request \<Rightarrow> bool" where
  "is_ws rq =
     (cl_h2_ws rq \<or>
      (case get_header ''upgrade'' rq of Some v \<Rightarrow> eq_ignore_case v ''websocket'' | None \<Rightarrow> False))"

definition scheme_str :: "client_request \<Rightarrow> string" where
  "scheme_str rq = (if cl_is_tls rq then ''https'' else unwrap_or (cl_scheme rq) ''http'')"

definition collect_headers :: "client_request \<Rightarrow> (string \<times> string) list" where
  "collect_headers rq =
     filter_map (\<lambda>(name, v).
       let is_ws_header = (is_ws rq \<and> (eq_ignore_case name ''upgrade'' \<or>
             starts_with (ascii_lower name) ''sec-websocket-''))
       in if \<not> is_ws_header \<and> is_hop_by_hop name then None
          else map_option (Pair name) v) (cl_headers rq)"

definition set_header ::
  "client_request \<Rightarrow> string \<Rightarrow> header_override \<Rightarrow> (string \<times> string) list \<Rightarrow> (string \<times> string) list" where
  "set_header rq upstream_host h hs =
     (let val = str_replace ''$request_uri'' (proxy_path rq)
            (str_replace ''$scheme'' (scheme_str rq)
              (str_replace ''$host'' upstream_host
                (str_replace ''$remote_addr'' (cl_ip rq) (ho_value h))))
      in filter (\<lambda>(k, v). \<not> eq_ignore_case k (ho_name h)) hs @ [(ho_name h, val)])"

definition upstream_headers ::
  "client_request \<Rightarrow> string \<Rightarrow> header_override list \<Rightarrow> (string \<times> string) list" where
  "upstream_headers rq upstream_host overrides =
     fold (set_header rq upstream_host) overrides (collect_headers rq)"

definition upstream_request :: "client_request \<Rightarrow> node_state \<Rightarrow> location_config \<Rightarrow> forward_req" where
  "upstream_request rq node loc =
     (let host = unwrap_or (ns_upstream_host node) (client_host rq)
      in \<lparr>fr_method = cl_method rq, fr_path = proxy_path rq, fr_host = host,
          fr_headers = upstream_headers rq host (loc_proxy_set_headers loc),
          fr_client_ip = cl_ip rq, fr_client_proto = scheme_str rq\<rparr>)"

section \<open>The loop over nodes\<close>

definition update_node :: "nat \<Rightarrow> (node_state \<Rightarrow> node_state) \<Rightarrow> upstream_pool \<Rightarrow> upstream_pool" where
  "update_node i f pool = pool\<lparr>up_nodes := (up_nodes pool)[i := f (up_nodes pool ! i)]\<rparr>"

definition add_active :: "nat \<Rightarrow> u32 \<Rightarrow> upstream_pool \<Rightarrow> upstream_pool" where
  "add_active i d = update_node i (\<lambda>n. n\<lparr>ns_active := ns_active n + d\<rparr>)"

definition pool_record_failure :: "(nat \<Rightarrow> u64) \<Rightarrow> nat \<Rightarrow> upstream_pool \<Rightarrow> upstream_pool outcome" where
  "pool_record_failure clk i pool =
     bind_outcome (node_record_failure clk (up_nodes pool ! i)) (\<lambda>n. Val (update_node i (\<lambda>_. n) pool))"

definition pool_record_success :: "(nat \<Rightarrow> u64) \<Rightarrow> nat \<Rightarrow> upstream_pool \<Rightarrow> upstream_pool" where
  "pool_record_success clk i pool = update_node i (node_record_success clk) pool"

text \<open>Clocks, the exchange with a node, the status of a response and the default body.\<close>

record ('b, 'r) proxy_env =
  pe_pick_clk :: "nat \<Rightarrow> nat \<Rightarrow> nat \<Rightarrow> u64"
  pe_record_clk :: "nat \<Rightarrow> nat \<Rightarrow> u64"
  pe_forward :: "nat \<Rightarrow> nat \<Rightarrow> 'b \<Rightarrow> anyhow_error + 'r"
  pe_status :: "'r \<Rightarrow> u16"
  pe_default_body :: 'b

record ('b, 'r) retry_state =
  rs_pool :: upstream_pool
  rs_current :: nat
  rs_body :: "'b option"
  rs_resp :: "'r option"
  rs_calls :: "(nat \<times> 'b) list"

definition max_attempts :: "upstream_pool \<Rightarrow> nat" where
  "max_attempts pool = (if is_off (up_next_upstream_flags pool) then 1 else 1 + unat (up_retry pool))"

definition method_allows_retry :: "string \<Rightarrow> upstream_pool \<Rightarrow> bool" where
  "method_allows_retry meth pool =
     (is_idempotent meth \<or> allows_non_idempotent (up_next_upstream_flags pool))"

definition switch_node ::
  "('b, 'r) proxy_env \<Rightarrow> string \<Rightarrow> nat \<Rightarrow> ('b, 'r) retry_state \<Rightarrow> ('b, 'r) retry_state outcome" where
  "switch_node env ip attempt st =
     bind_outcome (pick (pe_pick_clk env attempt) (Some ip) (rs_pool st)) (\<lambda>(r, pool).
       case r of
         Some i \<Rightarrow> Val (st\<lparr>rs_pool := add_active i 1 (add_active (rs_current st) (- 1) pool),
                          rs_current := i\<rparr>)
       | None \<Rightarrow> Val (st\<lparr>rs_pool := pool\<rparr>))"

fun retry_loop ::
  "('b, 'r) proxy_env \<Rightarrow> string \<Rightarrow> string \<Rightarrow> nat \<Rightarrow> nat \<Rightarrow> ('b, 'r) retry_state
     \<Rightarrow> ('b, 'r) retry_state outcome" where
  "retry_loop env meth ip 0 attempt st = Val st"
| "retry_loop env meth ip (Suc left) attempt st =
     (if 0 < attempt \<and> rs_body st = None then Val st
      else bind_outcome (if 0 < attempt then switch_node env ip attempt st else Val st) (\<lambda>st.
        let body = unwrap_or (rs_body st) (pe_default_body env);
            st = st\<lparr>rs_body := None, rs_calls := rs_calls st @ [(rs_current st, body)]\<rparr>;
            flags = up_next_upstream_flags (rs_pool st);
            allows = method_allows_retry meth (rs_pool st);
            failed = pool_record_failure (pe_record_clk env attempt) (rs_current st) (rs_pool st)
        in case pe_forward env attempt (rs_current st) body of
             Inr r \<Rightarrow>
               if 0 < left \<and> allows \<and> matches_status flags (pe_status env r) then
                 bind_outcome failed (\<lambda>pool. retry_loop env meth ip left (Suc attempt) (st\<lparr>rs_pool := pool\<rparr>))
               else Val (st\<lparr>rs_pool := pool_record_success (pe_record_clk env attempt) (rs_current st)
                                       (rs_pool st), rs_resp := Some r\<rparr>)
           | Inl e \<Rightarrow>
               bind_outcome failed (\<lambda>pool.
                 if allows \<and> should_retry_error e flags
                 then retry_loop env meth ip left (Suc attempt) (st\<lparr>rs_pool := pool\<rparr>)
                 else Val (st\<lparr>rs_pool := pool\<rparr>))))"

definition forward_h1 ::
  "('b, 'r) proxy_env \<Rightarrow> string \<Rightarrow> string \<Rightarrow> nat \<Rightarrow> 'b \<Rightarrow> upstream_pool \<Rightarrow> ('b, 'r) retry_state outcome" where
  "forward_h1 env meth ip i body pool =
     retry_loop env meth ip (max_attempts pool) 0
       \<lparr>rs_pool = pool, rs_current = i, rs_body = Some body, rs_resp = None, rs_calls = []\<rparr>"

section \<open>The handler\<close>

text \<open>\<open>ErrorReply\<close> is an early exit; \<open>FailedReply\<close> the error page after a failed exchange, which goes
  through the rest of the handler like an upstream response.\<close>

datatype 'r reply = ErrorReply nat | CachedReply 'r | UpstreamReply 'r | FailedReply nat

text \<open>\<open>ws\<close> and \<open>h2\<close> are the results of the two other transports for a node. The last component lists
  the HTTP/1.1 exchanges made.\<close>

definition forward_node ::
  "('b, 'r) proxy_env \<Rightarrow> (nat \<Rightarrow> 'r) \<Rightarrow> (nat \<Rightarrow> anyhow_error + 'r) \<Rightarrow> client_request \<Rightarrow> 'b \<Rightarrow> nat
     \<Rightarrow> upstream_pool \<Rightarrow> ('r reply \<times> nat \<times> upstream_pool \<times> (nat \<times> 'b) list) outcome" where
  "forward_node env ws h2 rq body i pool =
     (if is_ws rq then Val (UpstreamReply (ws i), i, pool, [])
      else if ns_http2 (up_nodes pool ! i) then
        (case h2 i of
           Inr r \<Rightarrow> Val (UpstreamReply r, i, pool_record_success (pe_record_clk env 0) i pool, [])
         | Inl e \<Rightarrow> bind_outcome (pool_record_failure (pe_record_clk env 0) i pool)
                     (\<lambda>pool. Val (FailedReply 502, i, pool, [])))
      else
        bind_outcome (forward_h1 env (cl_method rq) (cl_ip rq) i body pool) (\<lambda>st.
          Val ((case rs_resp st of Some r \<Rightarrow> UpstreamReply r | None \<Rightarrow> FailedReply 502),
               rs_current st, rs_pool st, rs_calls st)))"

text \<open>Every HTTP/1.1 exchange that returns a response offers it to the cache.\<close>

fun store_calls :: "('b, 'r) proxy_env \<Rightarrow> ('r \<Rightarrow> 'c \<Rightarrow> 'c) \<Rightarrow> nat \<Rightarrow> (nat \<times> 'b) list \<Rightarrow> 'c \<Rightarrow> 'c" where
  "store_calls env store attempt [] cache = cache"
| "store_calls env store attempt ((i, body) # calls) cache =
     store_calls env store (Suc attempt) calls
       (case pe_forward env attempt i body of Inr r \<Rightarrow> store r cache | Inl e \<Rightarrow> cache)"

definition handle_proxy ::
  "('b, 'r) proxy_env \<Rightarrow> (nat \<Rightarrow> 'r) \<Rightarrow> (nat \<Rightarrow> anyhow_error + 'r) \<Rightarrow> ('c \<Rightarrow> 'r option \<times> 'c) \<Rightarrow> ('r \<Rightarrow> 'c \<Rightarrow> 'c)
     \<Rightarrow> location_config \<Rightarrow> client_request \<Rightarrow> 'b \<Rightarrow> 'c \<Rightarrow> upstream_registry
     \<Rightarrow> ('r reply \<times> 'c \<times> upstream_registry) outcome" where
  "handle_proxy env ws h2 lookup store loc rq body cache pools =
     (case loc_upstream loc of
        None \<Rightarrow> Val (ErrorReply 500, cache, pools)
      | Some name \<Rightarrow>
          (case registry_get name pools of
             None \<Rightarrow> Val (ErrorReply 500, cache, pools)
           | Some pool \<Rightarrow>
               if eq_ignore_case (cl_method rq) ''CONNECT'' \<and> \<not> cl_h2_ws rq
               then Val (ErrorReply 400, cache, pools)
               else bind_outcome (pick (pe_pick_clk env 0) (Some (cl_ip rq)) pool) (\<lambda>(r, pool).
                 case r of
                   None \<Rightarrow> Val (ErrorReply 502, cache, registry_register name pool pools)
                 | Some i \<Rightarrow>
                     (case lookup cache of
                        (Some resp, cache) \<Rightarrow> Val (CachedReply resp, cache, registry_register name pool pools)
                      | (None, cache) \<Rightarrow>
                          bind_outcome (forward_node env ws h2 rq body i (add_active i 1 pool))
                            (\<lambda>(resp, j, pool, calls).
                               Val (resp, store_calls env store 0 calls cache,
                                    registry_register name (add_active j (- 1) pool) pools))))))"

section \<open>Upstream retries\<close>

lemma retry_loop_no_body:
  "rs_body st = None \<Longrightarrow> 0 < attempt \<Longrightarrow> retry_loop env meth ip left attempt st = Val st"
  by (cases left) simp_all

text \<open>
  The configured retries never happen. Whatever the group's \<^verbatim>\<open>retry\<close> count and conditions, the
  request is sent to the first chosen node and to no other: its body is taken before the first
  attempt, and every later attempt gives up because there is no body, for requests without one
  too. When retries are configured, an upstream response with a retryable status is therefore
  lost: the client gets the proxy's own 502 in its place.
\<close>

theorem upstream_retry_never_happens:
  assumes "forward_h1 env meth ip i body pool = Val st"
  shows "rs_calls st = [(i, body)] \<and> rs_current st = i \<and>
    rs_resp st = (case pe_forward env 0 i body of
        Inl e \<Rightarrow> None
      | Inr r \<Rightarrow>
          if 0 < up_retry pool \<and> \<not> is_off (up_next_upstream_flags pool) \<and> method_allows_retry meth pool \<and>
             matches_status (up_next_upstream_flags pool) (pe_status env r)
          then None else Some r)"
proof -
  define left where "left = (if is_off (up_next_upstream_flags pool) then 0 else unat (up_retry pool))"
  have l: "max_attempts pool = Suc left" by (simp add: left_def max_attempts_def)
  have lp: "(0 < left) = (0 < up_retry pool \<and> \<not> is_off (up_next_upstream_flags pool))"
    by (simp add: left_def unat_gt_0 word_gt_0)
  show ?thesis
    using assms
    by (auto simp: forward_h1_def l lp Let_def bind_outcome_Val retry_loop_no_body unwrap_or_def
        split: sum.splits if_splits)
qed

definition demo_env :: "(unit, u16) proxy_env" where
  "demo_env = \<lparr>pe_pick_clk = (\<lambda>_ _ _. 0), pe_record_clk = (\<lambda>_ _. 0), pe_forward = (\<lambda>_ _ _. Inr 503),
     pe_status = (\<lambda>r. r), pe_default_body = ()\<rparr>"

theorem upstream_retry_never_happens_witness:
  "\<exists>st. forward_h1 demo_env ''GET'' ''1.2.3.4'' 1 () ((demo_pool RoundRobin)\<lparr>up_retry := 2,
       up_next_upstream_flags := compile_flags [Http503]\<rparr>) = Val st \<and>
     rs_calls st = [(1, ())] \<and> rs_resp st = None"
proof -
  let ?p = "(demo_pool RoundRobin)\<lparr>up_retry := 2, up_next_upstream_flags := compile_flags [Http503]\<rparr>"
  have f: "compile_flags [Http503] = 8" by (simp add: compile_flags_def HTTP_503_def)
  have on: "\<not> is_off (compile_flags [Http503])" and mt: "matches_status (compile_flags [Http503]) 503"
    by (simp_all add: f is_off_def matches_status_def contains_flag_def HTTP_503_def)
  have al: "method_allows_retry ''GET'' q" for q by (simp add: method_allows_retry_def is_idempotent_def)
  have "ns_fail_count (demo_node ''b:80'' 2) = 0"
    by (simp add: demo_node_def node_new_def Let_def)
  then have "\<exists>n. node_record_failure (\<lambda>_. 0) (demo_node ''b:80'' 2) = Val n"
    by (simp add: node_record_failure_def add_u32_def mark_unhealthy_def Let_def)
  then obtain n where "node_record_failure (\<lambda>_. 0) (demo_node ''b:80'' 2) = Val n" ..
  then have r: "\<exists>st. forward_h1 demo_env ''GET'' ''1.2.3.4'' 1 () ?p = Val st"
    by (simp add: forward_h1_def max_attempts_def on mt al demo_env_def numeral_2_eq_2
        pool_record_failure_def retry_loop_no_body Let_def)
  then obtain st where st: "forward_h1 demo_env ''GET'' ''1.2.3.4'' 1 () ?p = Val st" ..
  from upstream_retry_never_happens [OF st] have "rs_calls st = [(1, ())] \<and> rs_resp st = None"
    by (simp add: demo_env_def on mt al)
  with st show ?thesis by blast
qed

section \<open>Accounting of active connections\<close>

abbreviation actives :: "upstream_pool \<Rightarrow> u32 list" where
  "actives pool \<equiv> map ns_active (up_nodes pool)"

lemma is_available_active: "is_available t n = (b, n') \<Longrightarrow> ns_active n' = ns_active n"
  by (auto simp: is_available_def split: if_splits option.splits prod.splits)

lemma count_avail_active: "count_avail clk ns = (c, ns') \<Longrightarrow> map ns_active ns' = map ns_active ns"
  by (induction ns arbitrary: clk c ns')
     (auto simp: Let_def split: prod.splits dest: is_available_active)

lemma nth_avail_active:
  "nth_avail clk k ns = (r, ns') \<Longrightarrow>
   map ns_active ns' = map ns_active ns \<and> (\<forall>i. r = Some i \<longrightarrow> i < length ns)"
proof (induction ns arbitrary: clk k r ns')
  case (Cons n ns)
  obtain a n' where a: "is_available (clk 0) n = (a, n')" by (cases "is_available (clk 0) n")
  obtain r1 ns1 where r1: "nth_avail (\<lambda>i. clk (Suc i)) (if a then k - 1 else k) ns = (r1, ns1)"
    by (cases "nth_avail (\<lambda>i. clk (Suc i)) (if a then k - 1 else k) ns")
  show ?case
    using Cons.prems a r1 Cons.IH [OF r1] is_available_active [OF a]
    by (auto split: if_splits)
qed simp

lemma last_avail_active:
  "last_avail clk ns = (r, ns') \<Longrightarrow>
   map ns_active ns' = map ns_active ns \<and> (\<forall>i. r = Some i \<longrightarrow> i < length ns)"
proof (induction ns arbitrary: clk r ns')
  case (Cons n ns)
  obtain a n' where a: "is_available (clk 0) n = (a, n')" by (cases "is_available (clk 0) n")
  obtain r1 ns1 where r1: "last_avail (\<lambda>i. clk (Suc i)) ns = (r1, ns1)"
    by (cases "last_avail (\<lambda>i. clk (Suc i)) ns")
  show ?case
    using Cons.prems a r1 Cons.IH [OF r1] is_available_active [OF a]
    by (auto split: if_splits option.splits)
qed simp

lemma sum_weights_active:
  "sum_weights clk acc ns = Val (s, ns') \<Longrightarrow> map ns_active ns' = map ns_active ns"
proof (induction ns arbitrary: clk acc s ns')
  case (Cons n ns)
  obtain a n' where a: "is_available (clk 0) n = (a, n')" by (cases "is_available (clk 0) n")
  show ?case
    using Cons.prems a is_available_active [OF a] by (auto simp: bind_outcome_Val dest: Cons.IH)
qed simp

lemma weighted_scan_active:
  "weighted_scan clk t cum ns = Val (r, ns') \<Longrightarrow>
   map ns_active ns' = map ns_active ns \<and> (\<forall>i. r = Some i \<longrightarrow> i < length ns)"
proof (induction ns arbitrary: clk cum r ns')
  case (Cons n ns)
  obtain a n' where a: "is_available (clk 0) n = (a, n')" by (cases "is_available (clk 0) n")
  show ?case
    using Cons.prems a is_available_active [OF a]
    by (auto simp: bind_outcome_Val Let_def split: if_splits dest: Cons.IH)
qed simp

lemma min_active_active:
  "min_active clk ns = (r, ns') \<Longrightarrow>
   map ns_active ns' = map ns_active ns \<and> (\<forall>i k. r = Some (i, k) \<longrightarrow> i < length ns)"
proof (induction ns arbitrary: clk r ns')
  case (Cons n ns)
  obtain a n' where a: "is_available (clk 0) n = (a, n')" by (cases "is_available (clk 0) n")
  obtain r1 ns1 where r1: "min_active (\<lambda>i. clk (Suc i)) ns = (r1, ns1)"
    by (cases "min_active (\<lambda>i. clk (Suc i)) ns")
  show ?case
    using Cons.prems a r1 Cons.IH [OF r1] is_available_active [OF a]
    by (auto simp: Let_def split: if_splits option.splits)
qed simp

lemma pick_degraded_active:
  "pick_degraded pool = (r, pool') \<Longrightarrow>
   actives pool' = actives pool \<and> (\<forall>i. r = Some i \<longrightarrow> i < length (up_nodes pool))"
  using pick_degraded_ok [of pool] by (cases "up_nodes pool = []") (auto simp: pick_degraded_def bump_def)

lemma pick_weighted_active:
  assumes "pick_weighted clk pool = Val (r, pool')"
  shows "actives pool' = actives pool \<and> (\<forall>i. r = Some i \<longrightarrow> i < length (up_nodes pool))"
proof -
  from assms obtain s ns where s: "sum_weights (clk 1) 0 (up_nodes pool) = Val (s, ns)"
    by (auto simp: pick_weighted_def bind_outcome_Val)
  have m: "map ns_active ns = actives pool" using sum_weights_active [OF s] .
  then have len: "length ns = length (up_nodes pool)" by (metis length_map)
  show ?thesis
    using assms s m len
    by (auto simp: pick_weighted_def bind_outcome_Val bump_def
        split: if_splits prod.splits option.splits
        dest!: nth_avail_active last_avail_active weighted_scan_active) (metis length_map)+
qed

lemma pick_active:
  assumes "pick clk ip pool = Val (r, pool')"
  shows "actives pool' = actives pool \<and> (\<forall>i. r = Some i \<longrightarrow> i < length (up_nodes pool))"
proof -
  obtain c ns where c: "count_avail (clk 0) (up_nodes pool) = (c, ns)"
    by (cases "count_avail (clk 0) (up_nodes pool)")
  have m: "map ns_active ns = actives pool" using count_avail_active [OF c] .
  then have len: "length ns = length (up_nodes pool)" by (metis length_map)
  let ?p = "pool\<lparr>up_nodes := ns\<rparr>"
  have p: "actives ?p = actives pool" "length (up_nodes ?p) = length (up_nodes pool)"
    using m len by simp_all
  consider "pick_degraded ?p = (r, pool')" | "pick_weighted clk ?p = Val (r, pool')"
    | k ns' where "nth_avail (clk 1) k ns = (r, ns')" "up_nodes pool' = ns'"
    | r' ns' where "min_active (clk 1) ns = (r', ns')" "r = map_option fst r'" "up_nodes pool' = ns'"
    using assms c
    by (auto simp: pick_def bump_def Let_def split: if_splits load_balance_strategy.splits prod.splits)
  then show ?thesis
  proof cases
    case 1
    then show ?thesis using pick_degraded_active [of ?p] p by simp
  next
    case 2
    then show ?thesis using pick_weighted_active [of clk ?p] p by simp
  next
    case 3
    then show ?thesis using nth_avail_active [OF 3(1)] m len by simp
  next
    case 4
    then show ?thesis using min_active_active [OF 4(1)] m len by auto
  qed
qed

lemma actives_update_node:
  "i < length (up_nodes pool) \<Longrightarrow>
   actives (update_node i f pool) = (actives pool)[i := ns_active (f (up_nodes pool ! i))]"
  by (simp add: update_node_def map_update)

lemma actives_add:
  "i < length (up_nodes pool) \<Longrightarrow> actives (add_active i d pool) = (actives pool)[i := actives pool ! i + d]"
  by (simp add: add_active_def actives_update_node)

lemma actives_success:
  "i < length (up_nodes pool) \<Longrightarrow> actives (pool_record_success clk i pool) = actives pool"
  by (simp add: pool_record_success_def actives_update_node node_record_success_def mark_healthy_def Let_def
      list_update_same_conv)

lemma node_failure_active: "node_record_failure clk n = Val n' \<Longrightarrow> ns_active n' = ns_active n"
  by (auto simp: node_record_failure_def bind_outcome_Val mark_unhealthy_def Let_def
      split: option.splits if_splits)

lemma actives_failure:
  "i < length (up_nodes pool) \<Longrightarrow> pool_record_failure clk i pool = Val pool' \<Longrightarrow> actives pool' = actives pool"
  by (auto simp: pool_record_failure_def bind_outcome_Val actives_update_node list_update_same_conv
      dest: node_failure_active)

text \<open>The counters are those of before, one more at the current node.\<close>

definition charged :: "u32 list \<Rightarrow> nat \<Rightarrow> upstream_pool \<Rightarrow> bool" where
  "charged base i pool = (i < length base \<and> actives pool = base[i := base ! i + 1])"

lemma charged_length: "charged base i pool \<Longrightarrow> length (up_nodes pool) = length base \<and> i < length (up_nodes pool)"
  by (auto simp: charged_def) (metis length_list_update length_map)+

lemma charged_same: "charged base i pool \<Longrightarrow> actives pool' = actives pool \<Longrightarrow> charged base i pool'"
  by (simp add: charged_def)

lemma charged_success: "charged base i pool \<Longrightarrow> charged base i (pool_record_success clk i pool)"
  by (metis actives_success charged_length charged_same)

lemma charged_failure:
  "charged base i pool \<Longrightarrow> pool_record_failure clk i pool = Val pool' \<Longrightarrow> charged base i pool'"
  by (metis actives_failure charged_length charged_same)

lemma uncharge: "charged base i pool \<Longrightarrow> actives (add_active i (- 1) pool) = base"
  using charged_length [of base i pool] by (simp add: charged_def actives_add)

lemma charge: "actives pool = base \<Longrightarrow> i < length base \<Longrightarrow> charged base i (add_active i 1 pool)"
  by (auto simp: charged_def actives_add)

lemma switch_node_charged:
  assumes "switch_node env ip attempt st = Val st'" and "charged base (rs_current st) (rs_pool st)"
  shows "charged base (rs_current st') (rs_pool st')"
proof -
  from assms(1) obtain r pool where p: "pick (pe_pick_clk env attempt) (Some ip) (rs_pool st) = Val (r, pool)"
    and st': "st' = (case r of Some i \<Rightarrow> st\<lparr>rs_pool := add_active i 1 (add_active (rs_current st) (- 1) pool),
        rs_current := i\<rparr> | None \<Rightarrow> st\<lparr>rs_pool := pool\<rparr>)"
    by (auto simp: switch_node_def bind_outcome_Val split: option.splits)
  note a = pick_active [OF p]
  have c: "charged base (rs_current st) pool" using a assms(2) charged_same by blast
  show ?thesis
  proof (cases r)
    case None
    then show ?thesis using st' c by simp
  next
    case (Some i)
    have "i < length base" using a Some charged_length [OF assms(2)] by simp
    with charge [OF uncharge [OF c]] show ?thesis using st' Some by simp
  qed
qed

lemma retry_loop_charged:
  "retry_loop env meth ip left attempt st = Val st' \<Longrightarrow> charged base (rs_current st) (rs_pool st) \<Longrightarrow>
   charged base (rs_current st') (rs_pool st')"
proof (induction left arbitrary: attempt st)
  case (Suc left)
  show ?case
  proof (cases "0 < attempt \<and> rs_body st = None")
    case True
    then show ?thesis using Suc.prems by simp
  next
    case False
    with Suc.prems(1) obtain st1 where
      s1: "(if 0 < attempt then switch_node env ip attempt st else Val st) = Val st1"
      by (auto simp: bind_outcome_Val split: if_splits)
    then have c: "charged base (rs_current st1) (rs_pool st1)"
      using Suc.prems(2) by (auto split: if_splits dest: switch_node_charged)
    note f = charged_failure [OF c] and g = charged_success [OF c]
    show ?thesis
      using Suc.prems(1) False s1 f g
      by (auto simp: bind_outcome_Val Let_def split: sum.splits if_splits intro: Suc.IH)
  qed
qed simp

lemma forward_node_charged:
  assumes "forward_node env ws h2 rq body i pool = Val (resp, j, pool', calls)" and "charged base i pool"
  shows "charged base j pool'"
  using assms charged_failure [OF assms(2)] charged_success [OF assms(2)]
    retry_loop_charged [of env "cl_method rq" "cl_ip rq" "max_attempts pool" 0
      "\<lparr>rs_pool = pool, rs_current = i, rs_body = Some body, rs_resp = None, rs_calls = []\<rparr>" _ base]
  by (auto simp: forward_node_def forward_h1_def bind_outcome_Val split: if_splits sum.splits)

text \<open>
  C20: the number of active connections of every node, which the least-connections strategy
  relies on, is balanced: after a request has been handled, on every path (no node, cache hit,
  WebSocket, HTTP/2, HTTP/1.1 with any number of attempts and node changes, errors), each counter
  is what it was before.
\<close>

theorem active_connections_balanced:
  assumes "handle_proxy env ws h2 lookup store loc rq body cache pools = Val (reply, cache', pools')"
  shows "map_option actives (pools' name) = map_option actives (pools name)"
proof (cases "loc_upstream loc")
  case None
  then show ?thesis using assms by (simp add: handle_proxy_def)
next
  case (Some up)
  show ?thesis
  proof (cases "pools' = pools")
    case False
    obtain l c where lk: "lookup cache = (l, c)" by fastforce
    with assms Some False obtain pool r pool1 where p: "pools up = Some pool"
      and pk: "pick (pe_pick_clk env 0) (Some (cl_ip rq)) pool = Val (r, pool1)"
      by (auto simp: handle_proxy_def registry_get_def bind_outcome_Val split: option.splits if_splits)
    have a: "actives pool1 = actives pool" using pick_active [OF pk] by simp
    consider (same) "pools' = pools(up \<mapsto> pool1)"
      | (sent) i j pool2 resp calls where "r = Some i" "pools' = pools(up \<mapsto> add_active j (- 1) pool2)"
          "forward_node env ws h2 rq body i (add_active i 1 pool1) = Val (resp, j, pool2, calls)"
      using assms Some p pk False
      by (auto simp: handle_proxy_def registry_get_def registry_register_def bind_outcome_Val lk
          split: option.splits if_splits)
    then show ?thesis
    proof cases
      case same
      then show ?thesis using p a by simp
    next
      case sent
      have "i < length (actives pool)" using pick_active [OF pk] sent(1) by simp
      from charge [OF a this] have "charged (actives pool) j pool2"
        using forward_node_charged [OF sent(3)] by blast
      then have "actives (add_active j (- 1) pool2) = actives pool" by (rule uncharge)
      with sent(2) p show ?thesis by simp
    qed
  qed simp
qed

definition demo_client :: client_request where
  "demo_client = \<lparr>cl_method = ''POST'', cl_path_and_query = Some ''/up'', cl_uri_path = ''/up'',
     cl_authority = None, cl_headers = [(''host'', Some ''h''), (''content-length'', Some ''5'')],
     cl_scheme = None, cl_is_tls = False, cl_h2_ws = True, cl_ip = ''1.2.3.4''\<rparr>"

definition demo_loc :: location_config where
  "demo_loc = default_location_config\<lparr>loc_handler := ReverseProxy, loc_upstream := Some ''app''\<rparr>"

theorem active_connections_balanced_witness:
  "\<exists>reply pools'. handle_proxy demo_env (\<lambda>_. 101) (\<lambda>_. Inr 200) (Pair None) (\<lambda>_ c. c) demo_loc demo_client () ()
       [''app'' \<mapsto> demo_pool RoundRobin] = Val (reply, (), pools') \<and>
     map_option actives (pools' ''app'') = Some [0, 0, 0]"
proof -
  have "\<forall>p::nat. settled_all ((\<lambda>_ _. 0) p) (up_nodes (demo_pool RoundRobin))" using demo_pool_settled by blast
  from pick_round_robin [OF this, of "Some ''1.2.3.4''"] have
    pk: "\<exists>i pool. pick (\<lambda>_ _. 0) (Some ''1.2.3.4'') (demo_pool RoundRobin) = Val (Some i, pool)" by simp
  have ws: "is_ws demo_client" "cl_h2_ws demo_client" "cl_ip demo_client = ''1.2.3.4''"
    by (simp_all add: is_ws_def demo_client_def)
  have env: "pe_pick_clk demo_env 0 = (\<lambda>_ _. 0)" by (simp add: demo_env_def)
  have up: "loc_upstream demo_loc = Some ''app''" by (simp add: demo_loc_def)
  have "\<exists>reply pools'. handle_proxy demo_env (\<lambda>_. 101) (\<lambda>_. Inr 200) (Pair None) (\<lambda>_ c. c) demo_loc demo_client () ()
      [''app'' \<mapsto> demo_pool RoundRobin] = Val (reply, (), pools')"
    using pk by (auto simp: handle_proxy_def registry_get_def forward_node_def ws env up)
  then obtain reply pools' where
    h: "handle_proxy demo_env (\<lambda>_. 101) (\<lambda>_. Inr 200) (Pair None) (\<lambda>_ c. c) demo_loc demo_client () ()
      [''app'' \<mapsto> demo_pool RoundRobin] = Val (reply, (), pools')" by blast
  have "ns_active (mark_unhealthy n) = ns_active n" for n by (simp add: mark_unhealthy_def)
  with active_connections_balanced [OF h, of "''app''"] h show ?thesis by auto
qed

section \<open>Framing of the upstream request\<close>

lemma lower_content_length: "ascii_lower ''content-length'' = ''content-length''"
  by (simp add: ascii_lower_def lower_char_def is_ascii_upper_def)

lemma collected_not_content_length:
  assumes "(k, v) \<in> set (collect_headers rq)"
  shows "\<not> eq_ignore_case k ''content-length''"
proof
  assume "eq_ignore_case k ''content-length''"
  then have l: "ascii_lower k = ''content-length''" by (simp add: eq_ignore_case_def lower_content_length)
  then have h: "is_hop_by_hop k" by (simp add: is_hop_by_hop_iff HOP_BY_HOP_SET_def)
  have "\<not> eq_ignore_case k ''upgrade''" "\<not> starts_with (ascii_lower k) ''sec-websocket-''"
    using l by (simp_all add: eq_ignore_case_def ascii_lower_def lower_char_def is_ascii_upper_def)
  with assms h show False
    by (auto simp: collect_headers_def filter_map_map_filter Let_def split: if_splits)
qed

lemma set_headers_not_content_length:
  assumes "\<forall>h\<in>set hs. \<not> eq_ignore_case (ho_name h) ''content-length''"
    and "\<forall>(k, v)\<in>set acc. \<not> eq_ignore_case k ''content-length''"
  shows "\<forall>(k, v)\<in>set (fold (set_header rq host) hs acc). \<not> eq_ignore_case k ''content-length''"
  using assms
proof (induction hs arbitrary: acc)
  case (Cons h hs)
  then have "\<forall>(k, v)\<in>set (set_header rq host h acc). \<not> eq_ignore_case k ''content-length''"
    by (auto simp: set_header_def Let_def)
  with Cons show ?case by simp
qed simp

text \<open>
  The client's Content-Length never reaches an HTTP/1.1 upstream. It counts as hop-by-hop, so
  it is dropped while the headers are collected, and the connection layer, which looks for it
  among them, always takes the length as unknown: every request with a body is sent chunked,
  unless the location sets a Content-Length header itself.
\<close>

theorem content_length_never_forwarded:
  assumes "\<forall>h\<in>set (loc_proxy_set_headers loc). \<not> eq_ignore_case (ho_name h) ''content-length''"
  shows "known_content_length (upstream_request rq node loc) = None \<and>
    use_chunked (upstream_request rq node loc) = has_body (upstream_request rq node loc)"
proof -
  let ?host = "unwrap_or (ns_upstream_host node) (client_host rq)"
  have "\<forall>(k, v)\<in>set (upstream_headers rq ?host (loc_proxy_set_headers loc)).
      \<not> eq_ignore_case k ''content-length''"
    unfolding upstream_headers_def
    by (rule set_headers_not_content_length [OF assms]) (auto dest: collected_not_content_length)
  then have "find (\<lambda>(k, v). eq_ignore_case k ''content-length'')
      (upstream_headers rq ?host (loc_proxy_set_headers loc)) = None"
    by (auto simp: find_None_all)
  then show ?thesis
    by (simp add: known_content_length_def upstream_request_def use_chunked_def Let_def)
qed

theorem content_length_never_forwarded_witness:
  "use_chunked (upstream_request demo_client (demo_node ''b:80'' 2) demo_loc)"
proof -
  have "\<forall>h\<in>set (loc_proxy_set_headers demo_loc). \<not> eq_ignore_case (ho_name h) ''content-length''"
    by (simp add: demo_loc_def default_location_config_def)
  from content_length_never_forwarded [OF this, of demo_client "demo_node ''b:80'' 2"] show ?thesis
    by (simp add: has_body_def upstream_request_def demo_client_def Let_def)
qed

end
