(* ===== verification/Codec.thy ===== *)
theory Codec
  imports Rust_Prelude
begin

text \<open>
  The interface of the wire formats: an encoder, and a decoder that reads a value off the front of
  a buffer and says how many bytes it took. A format that keeps the law is injective and
  prefix-free, and a sequence of encoded values decodes to itself.
\<close>

locale prefix_codec =
  fixes valid :: "'a \<Rightarrow> bool"
    and enc :: "'a \<Rightarrow> 'b list"
    and dec_at :: "'b list \<Rightarrow> ('a \<times> nat) option"
  assumes dec_enc: "valid x \<Longrightarrow> dec_at (enc x @ rest) = Some (x, length (enc x))"
begin

lemma enc_unique:
  assumes "valid x" and "valid y" and "enc x @ r = enc y @ s"
  shows "x = y \<and> r = s"
proof -
  have "Some (x, length (enc x)) = Some (y, length (enc y))"
    using dec_enc [OF assms(1), of r] dec_enc [OF assms(2), of s] assms(3) by simp
  with assms(3) show ?thesis by simp
qed

fun dec_many :: "nat \<Rightarrow> 'b list \<Rightarrow> ('a list \<times> 'b list) option" where
  "dec_many 0 buf = Some ([], buf)"
| "dec_many (Suc n) buf =
     (case dec_at buf of
        None \<Rightarrow> None
      | Some (x, k) \<Rightarrow> map_option (\<lambda>(xs, r). (x # xs, r)) (dec_many n (drop k buf)))"

lemma dec_many_concat:
  "list_all valid xs \<Longrightarrow> dec_many (length xs) (concat (map enc xs) @ rest) = Some (xs, rest)"
  by (induction xs) (simp_all add: dec_enc)

end

end
