(* ===== verification/Proxy_Protocol.thy ===== *)
theory Proxy_Protocol
  imports Ip_Addr Codec
begin

text \<open>
  The PROXY protocol, versions 1 and 2 (\<^verbatim>\<open>handler/reverse_proxy/proxy_protocol.rs\<close>): the encoders
  that put the client's address in front of an upstream connection, and the parser for inbound
  connections. A buffer is a list of bytes; an encoder's fixed array and the length it returns are
  the list of the bytes written, and writing past the array is a panic.
\<close>

unbundle bit_operations_syntax

section \<open>Constants and results\<close>

definition V2_SIGNATURE :: "u8 list" where
  "V2_SIGNATURE = [0x0D, 0x0A, 0x0D, 0x0A, 0x00, 0x0D, 0x0A, 0x51, 0x55, 0x49, 0x54, 0x0A]"

definition V2_VERSION_COMMAND_PROXY :: u8 where "V2_VERSION_COMMAND_PROXY = 0x21"
definition V2_VERSION_COMMAND_LOCAL :: u8 where "V2_VERSION_COMMAND_LOCAL = 0x20"
definition V2_AF_INET_STREAM :: u8 where "V2_AF_INET_STREAM = 0x11"
definition V2_AF_INET6_STREAM :: u8 where "V2_AF_INET6_STREAM = 0x21"
definition V1_MAX_HEADER_LEN :: nat where "V1_MAX_HEADER_LEN = 108"

lemmas v2_consts = V2_VERSION_COMMAND_PROXY_def V2_VERSION_COMMAND_LOCAL_def
  V2_AF_INET_STREAM_def V2_AF_INET6_STREAM_def

datatype proxy_header = ProxyAddr socket_addr socket_addr | Local

datatype parse_error = Incomplete | Invalid string

fun src_addr :: "proxy_header \<Rightarrow> socket_addr option" where
  "src_addr (ProxyAddr src dst) = Some src"
| "src_addr Local = None"

definition src_ip_str :: "proxy_header \<Rightarrow> string option" where
  "src_ip_str h = map_option (\<lambda>a. show_ip (sa_ip a)) (src_addr h)"

section \<open>Encoders\<close>

definition digit_byte :: "nat \<Rightarrow> u8" where
  "digit_byte d = word_of_nat (48 + d)"

definition write_u8 :: "u8 \<Rightarrow> u8 list" where
  "write_u8 val =
     (let v = unat val
      in if 100 \<le> v then map digit_byte [v div 100, v div 10 mod 10, v mod 10]
         else if 10 \<le> v then map digit_byte [v div 10, v mod 10]
         else [digit_byte v])"

definition write_u16 :: "u16 \<Rightarrow> u8 list" where
  "write_u16 val =
     (let v = unat val
      in if 10000 \<le> v then
           map digit_byte [v div 10000, v div 1000 mod 10, v div 100 mod 10, v div 10 mod 10, v mod 10]
         else if 1000 \<le> v then
           map digit_byte [v div 1000, v div 100 mod 10, v div 10 mod 10, v mod 10]
         else if 100 \<le> v then map digit_byte [v div 100, v div 10 mod 10, v mod 10]
         else if 10 \<le> v then map digit_byte [v div 10, v mod 10]
         else [digit_byte v])"

fun write_octets :: "nat \<Rightarrow> u8 list \<Rightarrow> u8 list" where
  "write_octets i [] = []"
| "write_octets i (x # xs) = (if 0 < i then str_bytes ''.'' else []) @ write_u8 x @ write_octets (Suc i) xs"

fun write_ip :: "ip_addr \<Rightarrow> u8 list" where
  "write_ip (V4 v4) = write_octets 0 (to_be_bytes 4 v4)"
| "write_ip (V6 v6) = str_bytes (show_ipv6 v6)"

definition in_array :: "nat \<Rightarrow> u8 list \<Rightarrow> u8 list outcome" where
  "in_array n bs = (if length bs \<le> n then Val bs else Panic)"

definition encode_v1 :: "socket_addr \<Rightarrow> socket_addr \<Rightarrow> u8 list outcome" where
  "encode_v1 src dst =
     (let line = (\<lambda>proto. str_bytes ''PROXY '' @ str_bytes proto @ write_ip (sa_ip src) @ str_bytes '' '' @
                    write_ip (sa_ip dst) @ str_bytes '' '' @ write_u16 (sa_port src) @ str_bytes '' '' @
                    write_u16 (sa_port dst) @ [0x0D, 0x0A])
      in case (sa_ip src, sa_ip dst) of
           (V4 _, V4 _) \<Rightarrow> in_array V1_MAX_HEADER_LEN (line ''TCP4 '')
         | (V6 _, V6 _) \<Rightarrow> in_array V1_MAX_HEADER_LEN (line ''TCP6 '')
         | _ \<Rightarrow> in_array V1_MAX_HEADER_LEN (str_bytes ''PROXY '' @ str_bytes ''UNKNOWN'' @ [0x0D, 0x0A]))"

definition encode_v2 :: "socket_addr \<Rightarrow> socket_addr \<Rightarrow> u8 list" where
  "encode_v2 src dst =
     (case (sa_ip src, sa_ip dst) of
        (V4 src_ip, V4 dst_ip) \<Rightarrow>
          V2_SIGNATURE @ [V2_VERSION_COMMAND_PROXY, V2_AF_INET_STREAM, 0, 12] @
          to_be_bytes 4 src_ip @ to_be_bytes 4 dst_ip @
          to_be_bytes 2 (sa_port src) @ to_be_bytes 2 (sa_port dst)
      | (V6 src_ip, V6 dst_ip) \<Rightarrow>
          V2_SIGNATURE @ [V2_VERSION_COMMAND_PROXY, V2_AF_INET6_STREAM, 0, 36] @
          to_be_bytes 16 src_ip @ to_be_bytes 16 dst_ip @
          to_be_bytes 2 (sa_port src) @ to_be_bytes 2 (sa_port dst)
      | _ \<Rightarrow> V2_SIGNATURE @ [V2_VERSION_COMMAND_LOCAL, 0, 0, 0])"

section \<open>Parser\<close>

definition slice :: "nat \<Rightarrow> nat \<Rightarrow> 'a list \<Rightarrow> 'a list" where
  "slice a b xs = take (b - a) (drop a xs)"

definition parse_v2 :: "u8 list \<Rightarrow> parse_error + proxy_header \<times> nat" where
  "parse_v2 buf =
     (if length buf < 16 then Inl Incomplete
      else
        (let ver_cmd = buf ! 12;
             version = unat ver_cmd div 16;
             command = unat ver_cmd mod 16;
             addr_family = unat (buf ! 13) div 16;
             addr_len = unat (from_be_bytes (slice 14 16 buf) :: u16);
             total_len = 16 + addr_len
         in if version \<noteq> 2 then Inl (Invalid ''version'')
            else if length buf < total_len then Inl Incomplete
            else if command = 0 then Inr (Local, total_len)
            else if command \<noteq> 1 then Inl (Invalid ''command'')
            else if addr_family = 1 then
              (if addr_len < 12 then Inl (Invalid ''ipv4 length'')
               else Inr (ProxyAddr
                 \<lparr>sa_ip = V4 (from_be_bytes (slice 16 20 buf)), sa_port = from_be_bytes (slice 24 26 buf)\<rparr>
                 \<lparr>sa_ip = V4 (from_be_bytes (slice 20 24 buf)), sa_port = from_be_bytes (slice 26 28 buf)\<rparr>,
                 total_len))
            else if addr_family = 2 then
              (if addr_len < 36 then Inl (Invalid ''ipv6 length'')
               else Inr (ProxyAddr
                 \<lparr>sa_ip = V6 (from_be_bytes (slice 16 32 buf)), sa_port = from_be_bytes (slice 48 50 buf)\<rparr>
                 \<lparr>sa_ip = V6 (from_be_bytes (slice 32 48 buf)), sa_port = from_be_bytes (slice 50 52 buf)\<rparr>,
                 total_len))
            else Inr (Local, total_len)))"

definition parse_v1 :: "u8 list \<Rightarrow> parse_error + proxy_header \<times> nat" where
  "parse_v1 buf =
     (case find_pair 0x0D 0x0A buf of
        None \<Rightarrow> Inl (if length buf < V1_MAX_HEADER_LEN then Incomplete else Invalid ''too long'')
      | Some header_end \<Rightarrow>
          (let line = bytes_str (slice 6 header_end buf)
           in if \<not> utf8_ok line then Inl (Invalid ''utf-8'')
              else if starts_with line ''UNKNOWN'' then Inr (Local, header_end + 2)
              else (case splitn 5 CHR '' '' line of
                  [proto, src, dst, sport, dport] \<Rightarrow>
                    (case parse_ip src of
                       None \<Rightarrow> Inl (Invalid ''source ip'')
                     | Some src_ip \<Rightarrow>
                         (case parse_ip dst of
                            None \<Rightarrow> Inl (Invalid ''destination ip'')
                          | Some dst_ip \<Rightarrow>
                              (case parse_u16 sport of
                                 None \<Rightarrow> Inl (Invalid ''source port'')
                               | Some src_port \<Rightarrow>
                                   (case parse_u16 dport of
                                      None \<Rightarrow> Inl (Invalid ''destination port'')
                                    | Some dst_port \<Rightarrow> Inr (ProxyAddr
                                        \<lparr>sa_ip = src_ip, sa_port = word_of_nat src_port\<rparr>
                                        \<lparr>sa_ip = dst_ip, sa_port = word_of_nat dst_port\<rparr>,
                                        header_end + 2)))))
                | _ \<Rightarrow> Inl (Invalid ''fields''))))"

definition parse_proxy :: "u8 list \<Rightarrow> parse_error + proxy_header \<times> nat" where
  "parse_proxy buf =
     (if length buf < 8 then Inl Incomplete
      else if 16 \<le> length buf \<and> take 12 buf = V2_SIGNATURE then parse_v2 buf
      else if length buf < 16 \<and> 12 \<le> length buf \<and> take 12 buf = V2_SIGNATURE then Inl Incomplete
      else if length buf < 12 \<and> starts_with V2_SIGNATURE buf then Inl Incomplete
      else if starts_with buf (str_bytes ''PROXY '') then parse_v1 buf
      else Inl (Invalid ''format''))"

section \<open>Version 2\<close>

definition same_family :: "socket_addr \<times> socket_addr \<Rightarrow> bool" where
  "same_family = (\<lambda>(src, dst). is_ipv4 (sa_ip src) = is_ipv4 (sa_ip dst))"

definition parse_addrs :: "u8 list \<Rightarrow> ((socket_addr \<times> socket_addr) \<times> nat) option" where
  "parse_addrs buf = (case parse_proxy buf of Inr (ProxyAddr src dst, n) \<Rightarrow> Some ((src, dst), n) | _ \<Rightarrow> None)"

lemma length_signature [simp]: "length V2_SIGNATURE = 12"
  by (simp add: V2_SIGNATURE_def)

lemma slice_append_left: "slice (length a) (length a + length b) (a @ b @ c) = b"
  by (simp add: slice_def)

lemma slice_mid:
  "length a = i \<Longrightarrow> length b = j - i \<Longrightarrow> i \<le> j \<Longrightarrow> slice i j (a @ b @ c) = b"
  by (simp add: slice_def)

lemma parse_v2_bytes:
  assumes "length a1 = 4" "length a2 = 4" "length p1 = 2" "length p2 = 2"
  shows "parse_v2 (V2_SIGNATURE @ [0x21, 0x11, 0, 12] @ a1 @ a2 @ p1 @ p2 @ rest) = Inr (ProxyAddr
    \<lparr>sa_ip = V4 (from_be_bytes a1), sa_port = from_be_bytes p1\<rparr>
    \<lparr>sa_ip = V4 (from_be_bytes a2), sa_port = from_be_bytes p2\<rparr>, 28)"
proof -
  let ?h = "V2_SIGNATURE @ [0x21, 0x11, 0, 12 :: u8]"
  let ?b = "?h @ a1 @ a2 @ p1 @ p2 @ rest"
  have s: "slice 16 20 ?b = a1" "slice 20 24 ?b = a2" "slice 24 26 ?b = p1" "slice 26 28 ?b = p2"
    using assms slice_mid [of ?h 16 a1 20] slice_mid [of "?h @ a1" 20 a2 24]
      slice_mid [of "?h @ a1 @ a2" 24 p1 26] slice_mid [of "?h @ a1 @ a2 @ p1" 26 p2 28]
    by simp_all
  have "slice 14 16 ?b = [0, 12]" "?b ! 12 = 0x21" "?b ! 13 = 0x11"
    by (simp_all add: slice_def nth_append)
  with s assms show ?thesis
    by (simp add: parse_v2_def Let_def from_be_bytes_def)
qed

lemma parse_v2_bytes6:
  assumes "length a1 = 16" "length a2 = 16" "length p1 = 2" "length p2 = 2"
  shows "parse_v2 (V2_SIGNATURE @ [0x21, 0x21, 0, 36] @ a1 @ a2 @ p1 @ p2 @ rest) = Inr (ProxyAddr
    \<lparr>sa_ip = V6 (from_be_bytes a1), sa_port = from_be_bytes p1\<rparr>
    \<lparr>sa_ip = V6 (from_be_bytes a2), sa_port = from_be_bytes p2\<rparr>, 52)"
proof -
  let ?h = "V2_SIGNATURE @ [0x21, 0x21, 0, 36 :: u8]"
  let ?b = "?h @ a1 @ a2 @ p1 @ p2 @ rest"
  have s: "slice 16 32 ?b = a1" "slice 32 48 ?b = a2" "slice 48 50 ?b = p1" "slice 50 52 ?b = p2"
    using assms slice_mid [of ?h 16 a1 32] slice_mid [of "?h @ a1" 32 a2 48]
      slice_mid [of "?h @ a1 @ a2" 48 p1 50] slice_mid [of "?h @ a1 @ a2 @ p1" 50 p2 52]
    by simp_all
  have "slice 14 16 ?b = [0, 36]" "?b ! 12 = 0x21" "?b ! 13 = 0x21"
    by (simp_all add: slice_def nth_append)
  with s assms show ?thesis
    by (simp add: parse_v2_def Let_def from_be_bytes_def)
qed

lemma parse_proxy_v2: "4 \<le> length b \<Longrightarrow> parse_proxy (V2_SIGNATURE @ b) = parse_v2 (V2_SIGNATURE @ b)"
  by (simp add: parse_proxy_def)

lemma parse_encode_v2:
  "parse_proxy (encode_v2 src dst @ rest) =
     Inr (if same_family (src, dst) then ProxyAddr src dst else Local, length (encode_v2 src dst))"
proof (cases "sa_ip src"; cases "sa_ip dst")
  fix a b assume ab: "sa_ip src = V4 a" "sa_ip dst = V4 b"
  have "parse_proxy (encode_v2 src dst @ rest) = parse_v2 (V2_SIGNATURE @ [0x21, 0x11, 0, 12] @
      to_be_bytes 4 a @ to_be_bytes 4 b @ to_be_bytes 2 (sa_port src) @ to_be_bytes 2 (sa_port dst) @ rest)"
    using ab by (simp add: encode_v2_def v2_consts parse_proxy_v2)
  also have "\<dots> = Inr (ProxyAddr
      \<lparr>sa_ip = V4 (from_be_bytes (to_be_bytes 4 a)), sa_port = from_be_bytes (to_be_bytes 2 (sa_port src))\<rparr>
      \<lparr>sa_ip = V4 (from_be_bytes (to_be_bytes 4 b)), sa_port = from_be_bytes (to_be_bytes 2 (sa_port dst))\<rparr>, 28)"
    by (rule parse_v2_bytes) simp_all
  finally show ?thesis
    using ab by (cases src; cases dst) (simp add: encode_v2_def same_family_def)
next
  fix a b assume ab: "sa_ip src = V6 a" "sa_ip dst = V6 b"
  have "parse_proxy (encode_v2 src dst @ rest) = parse_v2 (V2_SIGNATURE @ [0x21, 0x21, 0, 36] @
      to_be_bytes 16 a @ to_be_bytes 16 b @ to_be_bytes 2 (sa_port src) @ to_be_bytes 2 (sa_port dst) @ rest)"
    using ab by (simp add: encode_v2_def v2_consts parse_proxy_v2)
  also have "\<dots> = Inr (ProxyAddr
      \<lparr>sa_ip = V6 (from_be_bytes (to_be_bytes 16 a)), sa_port = from_be_bytes (to_be_bytes 2 (sa_port src))\<rparr>
      \<lparr>sa_ip = V6 (from_be_bytes (to_be_bytes 16 b)), sa_port = from_be_bytes (to_be_bytes 2 (sa_port dst))\<rparr>, 52)"
    by (rule parse_v2_bytes6) simp_all
  finally show ?thesis
    using ab by (cases src; cases dst) (simp add: encode_v2_def same_family_def)
qed (simp_all add: encode_v2_def v2_consts parse_proxy_v2 parse_v2_def Let_def slice_def
      same_family_def from_be_bytes_def nth_append)

interpretation v2: prefix_codec same_family "\<lambda>(src, dst). encode_v2 src dst" parse_addrs
  by unfold_locales (auto simp: parse_addrs_def parse_encode_v2)

text \<open>
  C21: version 2 round trip. Parsing what the encoder writes, in front of any further bytes, gives
  back both addresses and ports exactly and consumes exactly the header, for IPv4 and IPv6; for
  addresses of different families it gives the LOCAL header, again consuming exactly what was
  written. Two headers with addresses are never prefixes of each other's streams.
\<close>

theorem proxy_v2_round_trip:
  "parse_proxy (encode_v2 src dst @ rest) =
     Inr (if is_ipv4 (sa_ip src) = is_ipv4 (sa_ip dst) then ProxyAddr src dst else Local,
          length (encode_v2 src dst)) \<and>
   (same_family (src, dst) \<and> same_family (src', dst') \<and>
      encode_v2 src dst @ rest = encode_v2 src' dst' @ rest' \<longrightarrow>
    src = src' \<and> dst = dst' \<and> rest = rest')"
  using v2.enc_unique [of "(src, dst)" "(src', dst')" rest rest']
  by (simp add: parse_encode_v2 same_family_def)

theorem proxy_v2_round_trip_witness:
  "parse_proxy (encode_v2 \<lparr>sa_ip = V4 0x0A000001, sa_port = 1234\<rparr> \<lparr>sa_ip = V4 0x0A000002, sa_port = 443\<rparr> @ [7])
     = Inr (ProxyAddr \<lparr>sa_ip = V4 0x0A000001, sa_port = 1234\<rparr> \<lparr>sa_ip = V4 0x0A000002, sa_port = 443\<rparr>, 28)"
  using proxy_v2_round_trip [of "\<lparr>sa_ip = V4 0x0A000001, sa_port = 1234\<rparr>"
      "\<lparr>sa_ip = V4 0x0A000002, sa_port = 443\<rparr>" "[7]"]
  by (simp add: encode_v2_def)

section \<open>Version 1\<close>

lemma byte_digit: "d < 10 \<Longrightarrow> digit_byte d = byte_of_char (digit_char d)"
  by (simp add: digit_byte_def byte_of_char_def cv_digit_char)

lemma dec_unfold: "10 \<le> n \<Longrightarrow> dec n = dec (n div 10) @ [digit_char (n mod 10)]"
  and dec_small: "n < 10 \<Longrightarrow> dec n = [digit_char n]"
  by (simp_all add: dec.simps [of n])

lemma write_u8_dec: "write_u8 v = str_bytes (dec (unat v))"
proof -
  have b: "unat v < 2 ^ LENGTH(8)" by (rule unsigned_less)
  show ?thesis
  proof (cases "100 \<le> unat v")
    case True
    with b show ?thesis
      by (simp add: write_u8_def Let_def dec_unfold dec_small str_bytes_def byte_digit div_mult2_eq [symmetric])
  next
    case False
    then show ?thesis
      by (cases "10 \<le> unat v")
         (simp_all add: write_u8_def Let_def dec_unfold dec_small str_bytes_def byte_digit)
  qed
qed

lemma write_u16_dec: "write_u16 v = str_bytes (dec (unat v))"
proof -
  have b: "unat v < 2 ^ LENGTH(16)" by (rule unsigned_less)
  consider "10000 \<le> unat v" | "1000 \<le> unat v" "unat v < 10000" | "100 \<le> unat v" "unat v < 1000"
    | "10 \<le> unat v" "unat v < 100" | "unat v < 10" by linarith
  then show ?thesis
    using b by cases (simp_all add: write_u16_def Let_def dec_unfold dec_small str_bytes_def byte_digit
        div_mult2_eq [symmetric])
qed

lemma write_octets_join:
  "write_octets i xs = (if 0 < i \<and> xs \<noteq> [] then str_bytes ''.'' else []) @
     str_bytes (join ''.'' (map (dec \<circ> unat) xs))"
proof (induction xs arbitrary: i)
  case (Cons x xs)
  then show ?case by (cases xs) (simp_all add: write_u8_dec, simp_all add: str_bytes_def)
qed (simp add: str_bytes_def)

lemma write_ip_show: "write_ip ip = str_bytes (show_ip ip)"
  by (cases ip) (simp_all add: show_ipv4_def write_octets_join)

lemma length_join:
  "\<forall>x\<in>set xs. length x \<le> k \<Longrightarrow> xs \<noteq> [] \<Longrightarrow>
   length (join sep xs) + length sep \<le> length xs * (k + length sep)"
  by (induction sep xs rule: join.induct) auto

lemma length_show_ipv4: "length (show_ipv4 a) \<le> 15"
proof -
  have "length (dec (unat b)) \<le> 3" for b :: u8
  proof -
    have "unat b < 2 ^ LENGTH(8)" by (rule unsigned_less)
    then show ?thesis using length_dec_le [of "unat b" 2] by simp
  qed
  then have "\<forall>x\<in>set (map (dec \<circ> unat) (to_be_bytes 4 a)). length x \<le> 3" by auto
  moreover have "to_be_bytes 4 a \<noteq> []" by (metis length_to_be_bytes list.size(3) zero_neq_numeral)
  ultimately show ?thesis
    using length_join [of "map (dec \<circ> unat) (to_be_bytes 4 a)" 3 "''.''"] by (simp add: show_ipv4_def)
qed

lemma length_hex_segments:
  assumes "set gs \<subseteq> set (segments a)" and "gs \<noteq> []"
  shows "length (join '':'' (map hex gs)) + 1 \<le> length gs * 5"
proof -
  have "length (hex g) \<le> 4" if "g \<in> set (segments a)" for g
    using that length_hex [of g 3] by (auto simp: segments_def)
  then show ?thesis using assms length_join [of "map hex gs" 4 "'':''"] by auto
qed

lemma length_show_ipv6: "length (show_ipv6 a) \<le> 41"
proof -
  let ?gs = "segments a"
  have l: "length ?gs = 8" by (simp add: segments_def)
  have j: "length (join '':'' (map hex gs)) \<le> 5 * length gs" "gs \<noteq> [] \<Longrightarrow> length (join '':'' (map hex gs)) + 1 \<le> 5 * length gs"
    if "set gs \<subseteq> set ?gs" for gs
    using length_hex_segments [OF that] by (cases "gs = []"; simp)+
  have all: "length (join '':'' (map hex ?gs)) \<le> 40" using j(1) [of ?gs] l by simp
  have two: "length (join '':'' (map hex (take s ?gs)) @ ''::'' @ join '':'' (map hex (drop (s + n) ?gs))) \<le> 41"
    for s n
  proof -
    have sub: "set (take s ?gs) \<subseteq> set ?gs" "set (drop (s + n) ?gs) \<subseteq> set ?gs"
      by (simp_all add: set_take_subset set_drop_subset)
    have len: "length (take s ?gs) + length (drop (s + n) ?gs) \<le> 8" using l by simp
    show ?thesis
    proof (cases "take s ?gs = []")
      case True
      then show ?thesis using j [OF sub(2)] len l by (cases "drop (s + n) ?gs = []") auto
    next
      case False
      then show ?thesis using j(2) [OF sub(1)] j [OF sub(2)] len by (cases "drop (s + n) ?gs = []") auto
    qed
  qed
  have "length (''::ffff:'' @ show_ipv4 b) \<le> 41" for b using length_show_ipv4 [of b] by simp
  with all two show ?thesis by (auto simp: show_ipv6_def Let_def split: prod.splits)
qed

lemma length_show_ip: "length (show_ip ip) \<le> 41"
  by (cases ip) (simp_all add: length_show_ipv6 order_trans [OF length_show_ipv4])

lemma length_port: "length (dec (unat (p :: u16))) \<le> 5"
proof -
  have "unat p < 2 ^ LENGTH(16)" by (rule unsigned_less)
  then show ?thesis using length_dec_le [of "unat p" 4] by simp
qed

definition v1_text :: "string \<Rightarrow> socket_addr \<Rightarrow> socket_addr \<Rightarrow> string" where
  "v1_text proto src dst = proto @ show_ip (sa_ip src) @ '' '' @ show_ip (sa_ip dst) @ '' '' @
     dec (unat (sa_port src)) @ '' '' @ dec (unat (sa_port dst))"

lemma encode_v1_text:
  "encode_v1 src dst = Val (str_bytes ''PROXY '' @ str_bytes (
     if same_family (src, dst) then v1_text (if is_ipv4 (sa_ip src) then ''TCP4 '' else ''TCP6 '') src dst
     else ''UNKNOWN'') @ [0x0D, 0x0A])"
proof -
  note len = length_show_ip [of "sa_ip src"] length_show_ip [of "sa_ip dst"]
    length_port [of "sa_port src"] length_port [of "sa_port dst"]
  show ?thesis
    using len by (cases "sa_ip src"; cases "sa_ip dst")
      (simp_all add: encode_v1_def in_array_def V1_MAX_HEADER_LEN_def same_family_def v1_text_def
        write_ip_show write_u16_dec, simp_all add: str_bytes_def)
qed

lemma find_pair_cr:
  "0x0D \<notin> set (a :: u8 list) \<Longrightarrow> find_pair 0x0D 0x0A (a @ [0x0D, 0x0A] @ rest) = Some (length a)"
  by simp

lemma no_cr_str: "\<forall>c\<in>set s. cv c \<noteq> 13 \<and> cv c < 256 \<Longrightarrow> 0x0D \<notin> set (str_bytes s)"
proof
  assume s: "\<forall>c\<in>set s. cv c \<noteq> 13 \<and> cv c < 256" and "0x0D \<in> set (str_bytes s)"
  then obtain c where c: "c \<in> set s" "byte_of_char c = 0x0D" by (auto simp: str_bytes_def)
  then have "unat (byte_of_char c) = 13" by simp
  moreover have "unat (byte_of_char c) = cv c"
    by (simp add: byte_of_char_def unat_of_nat)
  ultimately have "cv c = 13" by simp
  with s c show False by simp
qed

lemma parse_v1_line:
  assumes "\<forall>c\<in>set l. 32 \<le> cv c \<and> cv c < 128"
  shows "parse_proxy (str_bytes ''PROXY '' @ str_bytes l @ [0x0D, 0x0A] @ rest) =
    parse_v1 (str_bytes ''PROXY '' @ str_bytes l @ [0x0D, 0x0A] @ rest) \<and>
    find_pair 0x0D 0x0A (str_bytes ''PROXY '' @ str_bytes l @ [0x0D, 0x0A] @ rest) = Some (6 + length l) \<and>
    bytes_str (slice 6 (6 + length l) (str_bytes ''PROXY '' @ str_bytes l @ [0x0D, 0x0A] @ rest)) = l \<and>
    utf8_ok l"
proof (intro conjI)
  let ?b = "str_bytes ''PROXY '' @ str_bytes l @ [0x0D, 0x0A] @ rest"
  have "take 12 ?b \<noteq> V2_SIGNATURE" "\<not> starts_with V2_SIGNATURE ?b"
    by (simp_all add: str_bytes_def byte_of_char_def V2_SIGNATURE_def)
  then show "parse_proxy ?b = parse_v1 ?b" by (simp add: parse_proxy_def)
  have "0x0D \<notin> set (str_bytes (''PROXY '' @ l))" using assms by (intro no_cr_str) auto
  from find_pair_cr [OF this, of rest] show "find_pair 0x0D 0x0A ?b = Some (6 + length l)"
    by (simp only: str_bytes_append append_assoc length_append length_str_bytes) simp
  show "bytes_str (slice 6 (6 + length l) ?b) = l"
    using slice_mid [of "str_bytes ''PROXY ''" 6 "str_bytes l" "6 + length l" "[0x0D, 0x0A] @ rest"] by simp
  show "utf8_ok l" using assms by (intro utf8_ok_ascii) (auto simp: list_all_iff)
qed

lemma graphic_range: "graphic c \<Longrightarrow> 32 \<le> cv c \<and> cv c < 128"
  by (simp add: graphic_def)

lemma show_ipv4_graphic: "c \<in> set (show_ipv4 a) \<Longrightarrow> graphic c \<and> c \<noteq> CHR '' ''"
  using show_ipv4_chars [of c a] by (auto simp: is_digit_def graphic_def)

lemma dec_not_space: "CHR '' '' \<notin> set (dec n)"
  by (rule dec_notin) (simp add: is_digit_def)

lemma v1_text_chars:
  assumes "sa_ip src = V4 a" "sa_ip dst = V4 b"
  shows "\<forall>c\<in>set (v1_text ''TCP4 '' src dst). 32 \<le> cv c \<and> cv c < 128"
proof -
  have "\<forall>c\<in>set (show_ipv4 x). 32 \<le> cv c \<and> cv c < 128" for x
    using show_ipv4_graphic graphic_range by blast
  moreover have "\<forall>c\<in>set (dec n). 32 \<le> cv c \<and> cv c < 128" for n
    using dec_graphic [of n] graphic_range by (auto simp: list_all_iff)
  ultimately show ?thesis using assms by (auto simp: v1_text_def)
qed

lemma splitn_step: "c \<notin> set a \<Longrightarrow> 1 < n \<Longrightarrow> splitn n c (a @ c # b) = a # splitn (n - 1) c b"
  by (cases n; cases "n - 1") simp_all

lemma splitn_v1_text:
  assumes "sa_ip src = V4 a" "sa_ip dst = V4 b"
  shows "splitn 5 CHR '' '' (v1_text ''TCP4 '' src dst)
    = [''TCP4'', show_ipv4 a, show_ipv4 b, dec (unat (sa_port src)), dec (unat (sa_port dst))]"
proof -
  have ns: "CHR '' '' \<notin> set (show_ipv4 x)" for x using show_ipv4_graphic by blast
  let ?X = "show_ipv4 a @ CHR '' '' # show_ipv4 b @ CHR '' '' # dec (unat (sa_port src)) @
      CHR '' '' # dec (unat (sa_port dst))"
  have "v1_text ''TCP4 '' src dst = ''TCP4'' @ CHR '' '' # ?X" using assms by (simp add: v1_text_def)
  moreover have "splitn 5 CHR '' '' (''TCP4'' @ CHR '' '' # ?X) = ''TCP4'' # splitn 4 CHR '' '' ?X"
    using splitn_step [of "CHR '' ''" "''TCP4''" 5 ?X] by simp
  moreover have "splitn 4 CHR '' '' ?X
      = [show_ipv4 a, show_ipv4 b, dec (unat (sa_port src)), dec (unat (sa_port dst))]"
    by (simp add: splitn_step ns dec_not_space)
  ultimately show ?thesis by simp
qed

lemma parse_port: "parse_u16 (dec (unat (p :: u16))) = Some (unat p)"
proof -
  have "unat p < 2 ^ LENGTH(16)" by (rule unsigned_less)
  then show ?thesis by (simp add: parse_u16_def parse_uint_dec)
qed

text \<open>
  Version 1. The text header always fits the 108-byte array of the encoder, for every pair of
  addresses (so encoding never panics), and parsing it in front of any further bytes gives back
  the two IPv4 addresses and ports, or LOCAL for addresses of different families, consuming exactly
  the header.
\<close>

theorem proxy_v1_round_trip:
  "\<exists>bs. encode_v1 src dst = Val bs \<and> length bs \<le> 108 \<and>
     (is_ipv4 (sa_ip src) \<noteq> is_ipv4 (sa_ip dst) \<longrightarrow> parse_proxy (bs @ rest) = Inr (Local, length bs)) \<and>
     (is_ipv4 (sa_ip src) \<and> is_ipv4 (sa_ip dst) \<longrightarrow>
        parse_proxy (bs @ rest) = Inr (ProxyAddr src dst, length bs))"
proof -
  obtain bs where bs: "encode_v1 src dst = Val bs" by (simp add: encode_v1_text)
  then have "length bs \<le> 108"
    by (auto simp: encode_v1_def in_array_def V1_MAX_HEADER_LEN_def Let_def split: ip_addr.splits if_splits)
  moreover have "parse_proxy (bs @ rest) = Inr (Local, length bs)"
    if f: "is_ipv4 (sa_ip src) \<noteq> is_ipv4 (sa_ip dst)"
  proof -
    have b: "bs @ rest = str_bytes ''PROXY '' @ str_bytes ''UNKNOWN'' @ [0x0D, 0x0A] @ rest"
      using bs f by (simp add: encode_v1_text same_family_def)
    have "\<forall>c\<in>set ''UNKNOWN''. 32 \<le> cv c \<and> cv c < 128" by simp
    note pl = parse_v1_line [OF this, of rest, folded b]
    have "length bs = 15" using bs f by (auto simp: encode_v1_text same_family_def)
    with pl show ?thesis by (simp add: parse_v1_def Let_def)
  qed
  moreover have "parse_proxy (bs @ rest) = Inr (ProxyAddr src dst, length bs)"
    if v4: "is_ipv4 (sa_ip src)" "is_ipv4 (sa_ip dst)"
  proof -
    obtain a b where ab: "sa_ip src = V4 a" "sa_ip dst = V4 b"
      using v4 by (cases "sa_ip src"; cases "sa_ip dst") auto
    have b: "bs @ rest = str_bytes ''PROXY '' @ str_bytes (v1_text ''TCP4 '' src dst) @ [0x0D, 0x0A] @ rest"
      using bs ab by (simp add: encode_v1_text same_family_def)
    note pl = parse_v1_line [OF v1_text_chars [OF ab], of rest, folded b]
    have "length bs = 6 + length (v1_text ''TCP4 '' src dst) + 2"
      using bs ab by (auto simp: encode_v1_text same_family_def)
    moreover have "\<not> starts_with (v1_text ''TCP4 '' src dst) ''UNKNOWN''" by (simp add: v1_text_def)
    ultimately show ?thesis
      using pl ab by (cases src; cases dst)
        (simp add: parse_v1_def Let_def splitn_v1_text parse_show_ipv4 parse_port)
  qed
  ultimately show ?thesis using bs by blast
qed

theorem proxy_v1_round_trip_witness:
  "\<exists>bs. encode_v1 \<lparr>sa_ip = V4 1, sa_port = 80\<rparr> \<lparr>sa_ip = V4 2, sa_port = 443\<rparr> = Val bs \<and>
     parse_proxy (bs @ [1]) = Inr (ProxyAddr \<lparr>sa_ip = V4 1, sa_port = 80\<rparr> \<lparr>sa_ip = V4 2, sa_port = 443\<rparr>, length bs)"
  using proxy_v1_round_trip [of "\<lparr>sa_ip = V4 1, sa_port = 80\<rparr>" "\<lparr>sa_ip = V4 2, sa_port = 443\<rparr>" "[1]"] by auto

section \<open>Streaming\<close>

lemma slice_append: "b \<le> length xs \<Longrightarrow> slice a b (xs @ ys) = slice a b xs"
  by (simp add: slice_def)

lemma find_pair_append_more: "find_pair a b s = Some i \<Longrightarrow> find_pair a b (s @ t) = Some i"
proof (induction a b s arbitrary: i rule: find_pair.induct)
  case (1 a b x y s)
  then show ?case by (auto split: if_splits)
qed auto

lemma parse_v2_more:
  assumes "parse_v2 buf = Inr (h, n)"
  shows "n \<le> length buf \<and> parse_v2 (buf @ ys) = Inr (h, n)"
proof -
  have l: "16 \<le> length buf" using assms by (auto simp: parse_v2_def split: if_splits)
  then have n: "(buf @ ys) ! 12 = buf ! 12" "(buf @ ys) ! 13 = buf ! 13"
    "slice 14 16 (buf @ ys) = slice 14 16 buf"
    by (simp_all add: nth_append slice_append)
  define len where "len = unat (from_be_bytes (slice 14 16 buf) :: u16)"
  have le: "16 + len \<le> length buf"
    using assms by (auto simp: parse_v2_def Let_def len_def split: if_splits)
  show ?thesis
  proof (cases "36 \<le> len")
    case True
    with le show ?thesis using assms l
      by (simp add: parse_v2_def Let_def n slice_append flip: len_def split: if_split_asm)
  next
    case False
    show ?thesis
    proof (cases "12 \<le> len")
      case True
      with False le show ?thesis using assms l
        by (simp add: parse_v2_def Let_def n slice_append flip: len_def split: if_split_asm)
    next
      case False
      with le show ?thesis using assms l
        by (simp add: parse_v2_def Let_def n flip: len_def split: if_split_asm)
    qed
  qed
qed

lemma parse_v1_more: "parse_v1 buf = Inr (h, n) \<Longrightarrow> n \<le> length buf \<and> parse_v1 (buf @ ys2) = Inr (h, n)"
proof -
  assume p: "parse_v1 buf = Inr (h, n)"
  then obtain e where e: "find_pair 0x0D 0x0A buf = Some e" by (auto simp: parse_v1_def split: option.splits)
  have le: "Suc e < length buf" using find_pair_Some [OF e] by simp
  then have "slice 6 e (buf @ ys2) = slice 6 e buf" by (simp add: slice_append)
  with p e find_pair_append_more [OF e, of ys2] have q: "parse_v1 (buf @ ys2) = Inr (h, n)"
    by (simp add: parse_v1_def)
  have "n = e + 2" using p e by (auto simp: parse_v1_def Let_def split: if_splits list.splits option.splits)
  with q le show ?thesis by simp
qed

text \<open>
  The parser can be run on whatever has arrived. A header once recognised stays recognised,
  with the same result, when more bytes follow, and it never claims to have consumed more bytes
  than there are.
\<close>

theorem proxy_parse_stable:
  assumes "parse_proxy buf = Inr (h, n)"
  shows "n \<le> length buf \<and> parse_proxy (buf @ ys2) = Inr (h, n)"
proof -
  have l: "8 \<le> length buf" using assms by (auto simp: parse_proxy_def split: if_splits)
  consider "16 \<le> length buf" "take 12 buf = V2_SIGNATURE" "parse_v2 buf = Inr (h, n)"
    | "starts_with buf (str_bytes ''PROXY '')" "parse_v1 buf = Inr (h, n)"
    using assms by (auto simp: parse_proxy_def split: if_splits)
  then show ?thesis
  proof cases
    case 1
    then show ?thesis using parse_v2_more [OF 1(3), of ys2] by (simp add: parse_proxy_def)
  next
    case 2
    then obtain t where t: "buf = str_bytes ''PROXY '' @ t" by (auto simp: starts_with_iff)
    then have "take 12 (buf @ ys2) \<noteq> V2_SIGNATURE" "\<not> starts_with V2_SIGNATURE (buf @ ys2)"
      by (simp_all add: str_bytes_def byte_of_char_def V2_SIGNATURE_def)
    moreover have "starts_with (buf @ ys2) (str_bytes ''PROXY '')" using t by simp
    ultimately show ?thesis using parse_v1_more [OF 2(2), of ys2] l by (simp add: parse_proxy_def)
  qed
qed

theorem proxy_parse_stable_witness:
  "parse_proxy ((V2_SIGNATURE @ [0x20, 0, 0, 0]) @ [1, 2, 3]) = Inr (Local, 16)"
proof -
  have "parse_proxy (V2_SIGNATURE @ [0x20, 0, 0, 0]) = Inr (Local, 16)"
    by (simp add: parse_proxy_v2 parse_v2_def slice_def from_be_bytes_def nth_append Let_def)
  from proxy_parse_stable [OF this] show ?thesis by blast
qed

end
