(* ===== verification/Conn_Pool.thy ===== *)
theory Conn_Pool
  imports Config "HOL-Library.Multiset"
begin

text \<open>
  The pools of idle connections: the per-thread pool of the reverse proxy
  (\<^verbatim>\<open>handler/reverse_proxy/pool.rs\<close>) and the FastCGI pool (\<^verbatim>\<open>handler/fastcgi_pool.rs\<close>). Both keep
  one queue per key. What a client of either may rely on is the locale \<open>idle_pool\<close>: a connection
  is handed out at most as often as it was given back, and the queues stay within their limit.

  Instants are natural numbers (nanoseconds of a monotonic clock); connections are of any type.
\<close>

section \<open>The contract\<close>

datatype ('t, 'k, 'c) pool_op = Put 't 'k 'c | Get 't 'k

definition taken_at :: "'k \<Rightarrow> ('k \<times> 'c) list \<Rightarrow> 'c list" where
  "taken_at k ts = map snd (filter (\<lambda>(k', c). k' = k) ts)"

fun puts_at :: "'k \<Rightarrow> ('t, 'k, 'c) pool_op list \<Rightarrow> 'c list" where
  "puts_at k [] = []"
| "puts_at k (Put t k' c # ops) = (if k' = k then [c] else []) @ puts_at k ops"
| "puts_at k (Get t k' # ops) = puts_at k ops"

locale idle_pool =
  fixes idle :: "'s \<Rightarrow> 'k \<Rightarrow> 'c list"
    and put :: "'t \<Rightarrow> 'k \<Rightarrow> 'c \<Rightarrow> 's \<Rightarrow> 's"
    and get :: "'t \<Rightarrow> 'k \<Rightarrow> 's \<Rightarrow> 'c option \<times> 's"
    and limit :: "'t \<Rightarrow> nat"
  assumes put_idle: "mset (idle (put t k c s) k') \<subseteq># mset (idle s k') + (if k' = k then {#c#} else {#})"
    and put_bound: "length (idle (put t k c s) k') \<le> max (length (idle s k')) (limit t)"
    and get_Some: "get t k s = (Some c, s') \<Longrightarrow>
      mset (idle s' k') + (if k' = k then {#c#} else {#}) \<subseteq># mset (idle s k')"
    and get_None: "get t k s = (None, s') \<Longrightarrow> mset (idle s' k') \<subseteq># mset (idle s k')"
begin

fun run :: "('t, 'k, 'c) pool_op list \<Rightarrow> 's \<Rightarrow> ('k \<times> 'c) list \<times> 's" where
  "run [] s = ([], s)"
| "run (Put t k c # ops) s = run ops (put t k c s)"
| "run (Get t k # ops) s =
     (case get t k s of
        (None, s') \<Rightarrow> run ops s'
      | (Some c, s') \<Rightarrow> (let (taken, s'') = run ops s' in ((k, c) # taken, s'')))"

lemma run_exclusive:
  "run ops s = (taken, s') \<Longrightarrow>
   mset (taken_at k taken) + mset (idle s' k) \<subseteq># mset (puts_at k ops) + mset (idle s k)"
proof (induction ops arbitrary: s taken)
  case Nil
  then show ?case by (simp add: taken_at_def)
next
  case (Cons op ops)
  show ?case
  proof (cases op)
    case (Put t k' c)
    with Cons have "mset (taken_at k taken) + mset (idle s' k)
        \<subseteq># mset (puts_at k ops) + mset (idle (put t k' c s) k)" by simp
    also have "\<dots> \<subseteq># mset (puts_at k ops) + (mset (idle s k) + (if k = k' then {#c#} else {#}))"
      by (rule subset_mset.add_left_mono) (rule put_idle)
    finally show ?thesis using Put by (auto simp: ac_simps split: if_splits)
  next
    case (Get t k')
    obtain r s1 where r: "get t k' s = (r, s1)" by (cases "get t k' s")
    show ?thesis
    proof (cases r)
      case None
      with Cons Get r have "mset (taken_at k taken) + mset (idle s' k)
          \<subseteq># mset (puts_at k ops) + mset (idle s1 k)" by simp
      also have "\<dots> \<subseteq># mset (puts_at k ops) + mset (idle s k)"
        using get_None r None by (intro subset_mset.add_left_mono) blast
      finally show ?thesis using Get by simp
    next
      case (Some c)
      with Cons.prems Get r obtain taken1 where t1: "run ops s1 = (taken1, s')"
        and t: "taken = (k', c) # taken1" by (auto split: prod.splits)
      have "mset (taken_at k taken) + mset (idle s' k)
          = (mset (taken_at k taken1) + mset (idle s' k)) + (if k = k' then {#c#} else {#})"
        by (auto simp: t taken_at_def)
      also have "\<dots> \<subseteq># (mset (puts_at k ops) + mset (idle s1 k)) + (if k = k' then {#c#} else {#})"
        by (rule subset_mset.add_right_mono) (rule Cons.IH [OF t1])
      also have "\<dots> \<subseteq># mset (puts_at k ops) + mset (idle s k)"
        using get_Some [of t k' s c s1 k] r Some
        by (simp only: add.assoc) (rule subset_mset.add_left_mono, simp)
      finally show ?thesis using Get by simp
    qed
  qed
qed

lemma run_bound:
  "run ops s = (taken, s') \<Longrightarrow> (\<And>t k c. Put t k c \<in> set ops \<Longrightarrow> limit t \<le> b) \<Longrightarrow>
   length (idle s' k) \<le> max (length (idle s k)) b"
proof (induction ops arbitrary: s taken)
  case (Cons op ops)
  have IH: "run ops s1 = (taken1, s') \<Longrightarrow> length (idle s' k) \<le> max (length (idle s1 k)) b" for s1 taken1
    by (rule Cons.IH) (use Cons.prems(2) in auto)
  show ?case
  proof (cases op)
    case (Put t k' c)
    have "limit t \<le> b" using Cons.prems(2) [of t k' c] Put by simp
    then show ?thesis
      using IH [of "put t k' c s" taken] Cons.prems(1) Put put_bound [of t k' c s k] by auto
  next
    case (Get t k')
    obtain r s1 where r: "get t k' s = (r, s1)" by (cases "get t k' s")
    have "length (idle s1 k) \<le> length (idle s k)"
      using get_None [of t k' s s1 k] get_Some [of t k' s _ s1 k] r
      by (cases r) (auto dest!: size_mset_mono split: if_splits)
    moreover obtain taken1 where "run ops s1 = (taken1, s')"
      using Cons.prems(1) Get r by (cases r) (auto split: prod.splits)
    ultimately show ?thesis using IH by fastforce
  qed
qed simp

end

section \<open>The reverse proxy's pool\<close>

record 'c idle_conn =
  ic_conn :: 'c
  ic_returned_at :: nat
  ic_created_at :: nat
  ic_request_count :: u64

record conn_pool =
  cp_max_idle :: nat
  cp_idle_timeout :: nat

type_synonym 'c thread_pool = "string \<rightharpoonup> 'c idle_conn list"

definition nanos :: "u64 \<Rightarrow> nat" where
  "nanos secs = unat secs * 1000000000"

definition conn_pool_new :: "nat \<Rightarrow> u64 \<Rightarrow> conn_pool" where
  "conn_pool_new max_idle idle_timeout_secs =
     \<lparr>cp_max_idle = max_idle, cp_idle_timeout = nanos idle_timeout_secs\<rparr>"

fun pop_fresh :: "nat \<Rightarrow> nat \<Rightarrow> 'c idle_conn list \<Rightarrow> 'c idle_conn option \<times> 'c idle_conn list" where
  "pop_fresh timeout now [] = (None, [])"
| "pop_fresh timeout now (c # q) =
     (if now - ic_returned_at c < timeout then (Some c, q) else pop_fresh timeout now q)"

text \<open>\<open>now0\<close> is the reading of the sweep, \<open>now\<close> the later one of the loop.\<close>

definition acquire ::
  "conn_pool \<Rightarrow> nat \<Rightarrow> nat \<Rightarrow> string \<Rightarrow> 'c thread_pool \<Rightarrow> ('c \<times> nat \<times> u64) option \<times> 'c thread_pool" where
  "acquire p now0 now key pools =
     (case pools key of
        None \<Rightarrow> (None, pools)
      | Some q \<Rightarrow>
          (let q1 = (if 1 < length q
                     then filter (\<lambda>c. now0 - ic_returned_at c < cp_idle_timeout p) q else q);
               (r, q2) = pop_fresh (cp_idle_timeout p) now q1
           in (map_option (\<lambda>c. (ic_conn c, ic_created_at c, ic_request_count c)) r, pools(key \<mapsto> q2))))"

record release_args =
  ra_now :: nat
  ra_created_at :: nat
  ra_request_count :: u64
  ra_keepalive_requests :: u64
  ra_keepalive_time :: u64
  ra_max_idle_override :: nat

definition release_limit :: "conn_pool \<Rightarrow> release_args \<Rightarrow> nat" where
  "release_limit p a = (if 0 < ra_max_idle_override a then ra_max_idle_override a else cp_max_idle p)"

definition release :: "conn_pool \<Rightarrow> release_args \<Rightarrow> string \<Rightarrow> 'c \<Rightarrow> 'c thread_pool \<Rightarrow> 'c thread_pool" where
  "release p a key conn pools =
     (if 0 < ra_keepalive_requests a \<and> ra_keepalive_requests a \<le> ra_request_count a then pools
      else if 0 < ra_keepalive_time a \<and> nanos (ra_keepalive_time a) \<le> ra_now a - ra_created_at a then pools
      else
        (let q = (case pools key of Some q \<Rightarrow> q | None \<Rightarrow> [])
         in if release_limit p a \<le> length q then pools(key \<mapsto> q)
            else pools(key \<mapsto> q @ [\<lparr>ic_conn = conn, ic_returned_at = ra_now a,
                   ic_created_at = ra_created_at a, ic_request_count = ra_request_count a\<rparr>])))"

definition conn_key :: "string \<Rightarrow> bool \<Rightarrow> string" where
  "conn_key addr tls = (if tls then ''tls:'' else ''tcp:'') @ addr"

fun key_from_addr :: "upstream_addr \<Rightarrow> bool \<Rightarrow> string" where
  "key_from_addr (Tcp s) tls = (if tls then ''tls:'' else ''tcp:'') @ s"
| "key_from_addr (Unix s) tls = (if tls then ''tls-unix:'' else ''unix:'') @ s"

definition conns :: "'c thread_pool \<Rightarrow> string \<Rightarrow> 'c list" where
  "conns pools key = (case pools key of None \<Rightarrow> [] | Some q \<Rightarrow> map ic_conn q)"

definition acquire_conn :: "conn_pool \<Rightarrow> release_args \<Rightarrow> string \<Rightarrow> 'c thread_pool \<Rightarrow> 'c option \<times> 'c thread_pool" where
  "acquire_conn p a key pools =
     (case acquire p (ra_now a) (ra_now a) key pools of (r, pools') \<Rightarrow> (map_option fst r, pools'))"

lemma pop_fresh_mset:
  "pop_fresh timeout now q = (r, q') \<Longrightarrow>
   mset (map ic_conn q') + (case r of None \<Rightarrow> {#} | Some c \<Rightarrow> {#ic_conn c#}) \<subseteq># mset (map ic_conn q)"
proof (induction q)
  case (Cons c q)
  show ?case
  proof (cases "now - ic_returned_at c < timeout")
    case False
    with Cons have "mset (map ic_conn q') + (case r of None \<Rightarrow> {#} | Some c \<Rightarrow> {#ic_conn c#})
        \<subseteq># mset (map ic_conn q)" by simp
    also have "\<dots> \<subseteq># mset (map ic_conn (c # q))" by simp
    finally show ?thesis .
  qed (use Cons in auto)
qed auto

lemma acquire_conn_mset:
  assumes "acquire_conn p a k s = (r, s')"
  shows "mset (conns s' k') + (if k' = k then (case r of None \<Rightarrow> {#} | Some c \<Rightarrow> {#c#}) else {#})
    \<subseteq># mset (conns s k')"
proof (cases "s k")
  case None
  with assms have "r = None" "s' = s" by (auto simp: acquire_conn_def acquire_def)
  then show ?thesis by simp
next
  case (Some q)
  let ?q1 = "if 1 < length q then filter (\<lambda>c. ra_now a - ic_returned_at c < cp_idle_timeout p) q else q"
  obtain c q2 where pf: "pop_fresh (cp_idle_timeout p) (ra_now a) ?q1 = (c, q2)"
    by (cases "pop_fresh (cp_idle_timeout p) (ra_now a) ?q1")
  with assms Some have r: "r = map_option ic_conn c" and s': "s' = s(k \<mapsto> q2)"
    by (auto simp: acquire_conn_def acquire_def option.map_comp comp_def)
  have "mset (map ic_conn ?q1) \<subseteq># mset (map ic_conn q)"
    by (auto simp: mset_filter image_mset_subseteq_mono)
  with pop_fresh_mset [OF pf] have "mset (map ic_conn q2) + (case c of None \<Rightarrow> {#} | Some c \<Rightarrow> {#ic_conn c#})
      \<subseteq># mset (map ic_conn q)" by (rule subset_mset.order_trans)
  then show ?thesis using Some by (cases c) (auto simp: r s' conns_def)
qed

interpretation proxy_pool: idle_pool conns "release p" "acquire_conn p" "release_limit p" for p
proof unfold_locales
  fix t k k' and c :: 'a and s :: "'a thread_pool"
  show "mset (conns (release p t k c s) k') \<subseteq># mset (conns s k') + (if k' = k then {#c#} else {#})"
    by (auto simp: release_def conns_def Let_def split: option.splits)
  show "length (conns (release p t k c s) k') \<le> max (length (conns s k')) (release_limit p t)"
    by (auto simp: release_def conns_def Let_def split: option.splits)
next
  fix t k k' and c :: 'a and s s' :: "'a thread_pool"
  assume "acquire_conn p t k s = (Some c, s')"
  from acquire_conn_mset [OF this, of k']
  show "mset (conns s' k') + (if k' = k then {#c#} else {#}) \<subseteq># mset (conns s k')"
    by (simp split: if_splits)
next
  fix t k k' and s s' :: "'a thread_pool"
  assume "acquire_conn p t k s = (None, s')"
  from acquire_conn_mset [OF this, of k'] show "mset (conns s' k') \<subseteq># mset (conns s k')"
    by (simp split: if_splits)
qed

section \<open>The FastCGI pool\<close>

record 'c fcgi_pool =
  fp_inner :: "string \<rightharpoonup> 'c list"
  fp_max_idle :: nat
  fp_connect_timeout_secs :: u64
  fp_read_timeout_secs :: u64

definition fcgi_pool_new :: "nat \<Rightarrow> u64 \<Rightarrow> u64 \<Rightarrow> 'c fcgi_pool" where
  "fcgi_pool_new max_idle connect_timeout read_timeout =
     \<lparr>fp_inner = Map.empty, fp_max_idle = max_idle, fp_connect_timeout_secs = connect_timeout,
      fp_read_timeout_secs = read_timeout\<rparr>"

definition fcgi_pop :: "string \<Rightarrow> 'c fcgi_pool \<Rightarrow> 'c option \<times> 'c fcgi_pool" where
  "fcgi_pop addr p =
     (case fp_inner p addr of
        Some (conn # q) \<Rightarrow> (Some conn, p\<lparr>fp_inner := (fp_inner p)(addr \<mapsto> q)\<rparr>)
      | _ \<Rightarrow> (None, p))"

text \<open>\<open>fresh\<close> is the result of opening a connection, \<open>None\<close> for a timeout or an error.\<close>

definition fcgi_acquire :: "'c option \<Rightarrow> string \<Rightarrow> 'c fcgi_pool \<Rightarrow> 'c option \<times> 'c fcgi_pool" where
  "fcgi_acquire fresh addr p =
     (case fcgi_pop addr p of
        (Some conn, p') \<Rightarrow> (Some conn, p')
      | (None, p') \<Rightarrow> (fresh, p'))"

definition fcgi_release :: "string \<Rightarrow> 'c \<Rightarrow> 'c fcgi_pool \<Rightarrow> 'c fcgi_pool" where
  "fcgi_release addr conn p =
     (let q = (case fp_inner p addr of Some q \<Rightarrow> q | None \<Rightarrow> [])
      in if length q < fp_max_idle p
         then p\<lparr>fp_inner := (fp_inner p)(addr \<mapsto> q @ [conn])\<rparr>
         else p\<lparr>fp_inner := (fp_inner p)(addr \<mapsto> q)\<rparr>)"

definition fcgi_evict :: "string \<Rightarrow> 'c fcgi_pool \<Rightarrow> 'c fcgi_pool" where
  "fcgi_evict addr p = p\<lparr>fp_inner := (fp_inner p)(addr := None)\<rparr>"

definition fcgi_idle :: "'c fcgi_pool \<Rightarrow> string \<Rightarrow> 'c list" where
  "fcgi_idle p addr = (case fp_inner p addr of None \<Rightarrow> [] | Some q \<Rightarrow> q)"

text \<open>A pool whose limit is the one given, so that the limit is fixed over a run.\<close>

definition fcgi_put :: "nat \<Rightarrow> unit \<Rightarrow> string \<Rightarrow> 'c \<Rightarrow> 'c fcgi_pool \<Rightarrow> 'c fcgi_pool" where
  "fcgi_put m _ addr conn p = fcgi_release addr conn (p\<lparr>fp_max_idle := m\<rparr>)"

interpretation fcgi_pool: idle_pool fcgi_idle "fcgi_put m" "\<lambda>_. fcgi_pop" "\<lambda>_. m" for m
  by unfold_locales
     (auto simp: fcgi_put_def fcgi_release_def fcgi_pop_def fcgi_idle_def Let_def
       split: option.splits list.splits)

section \<open>Properties\<close>

lemma pop_fresh_fresh: "pop_fresh timeout now q = (Some c, q') \<Longrightarrow> c \<in> set q \<and> now - ic_returned_at c < timeout"
  by (induction q) (auto split: if_splits)

text \<open>
  C22: under any sequence of acquisitions and releases by any callers, starting from an empty
  pool, no connection of the reverse proxy's pool is ever in the hands of two users: at every key
  it is handed out (or still idle) at most as often as it was given back; no queue grows past the
  largest limit in force; and a connection that is handed out was idle for less than the timeout.
\<close>

theorem conn_pool_exclusive:
  assumes "proxy_pool.run p ops Map.empty = (taken, s)"
    and "\<And>t k c. Put t k c \<in> set ops \<Longrightarrow> release_limit p t \<le> b"
  shows "count_list (taken_at key taken) c + count_list (conns s key) c
      \<le> count_list (puts_at key ops) c \<and>
    length (conns s key) \<le> b \<and>
    (acquire p now0 now key s = (Some (conn, created, served), s') \<longrightarrow>
       (\<exists>q c. s key = Some q \<and> c \<in> set q \<and> ic_conn c = conn \<and> now - ic_returned_at c < cp_idle_timeout p))"
proof (intro conjI impI)
  have e: "conns Map.empty key = ([] :: 'a list)" by (simp add: conns_def)
  have "mset (taken_at key taken) + mset (conns s key) \<subseteq># mset (puts_at key ops)"
    using proxy_pool.run_exclusive [OF assms(1), of key] by (simp add: e)
  then have "count (mset (taken_at key taken) + mset (conns s key)) c
      \<le> count (mset (puts_at key ops)) c" by (rule mset_subset_eq_count)
  then show "count_list (taken_at key taken) c + count_list (conns s key) c
      \<le> count_list (puts_at key ops) c" by (simp add: count_mset)
  show "length (conns s key) \<le> b"
    using proxy_pool.run_bound [OF assms, where k = key] by (simp add: e)
next
  assume a: "acquire p now0 now key s = (Some (conn, created, served), s')"
  then obtain q where q: "s key = Some q" by (auto simp: acquire_def split: option.splits)
  let ?q1 = "if 1 < length q then filter (\<lambda>c. now0 - ic_returned_at c < cp_idle_timeout p) q else q"
  obtain r q2 where pf: "pop_fresh (cp_idle_timeout p) now ?q1 = (r, q2)"
    by (cases "pop_fresh (cp_idle_timeout p) now ?q1")
  with a q obtain c where c: "r = Some c" "ic_conn c = conn" by (auto simp: acquire_def)
  from pop_fresh_fresh [of _ _ ?q1 c q2] pf c have "c \<in> set q" "now - ic_returned_at c < cp_idle_timeout p"
    by (auto split: if_splits)
  with q c show "\<exists>q c. s key = Some q \<and> c \<in> set q \<and> ic_conn c = conn \<and>
      now - ic_returned_at c < cp_idle_timeout p" by blast
qed

definition demo_args :: release_args where
  "demo_args = \<lparr>ra_now = 5, ra_created_at = 0, ra_request_count = 1, ra_keepalive_requests = 0,
     ra_keepalive_time = 0, ra_max_idle_override = 0\<rparr>"

theorem conn_pool_exclusive_witness:
  "\<exists>taken s. proxy_pool.run (conn_pool_new 1 60) [Put demo_args ''k'' (7 :: nat), Get demo_args ''k''] Map.empty
       = (taken, s) \<and>
     count_list (taken_at ''k'' taken) 7 + count_list (conns s ''k'') 7 \<le> 1"
proof -
  let ?p = "conn_pool_new 1 60" and ?ops = "[Put demo_args ''k'' (7 :: nat), Get demo_args ''k'']"
  obtain taken s where r: "proxy_pool.run ?p ?ops Map.empty = (taken, s)"
    by (cases "proxy_pool.run ?p ?ops Map.empty")
  have l: "\<And>t k c. Put t k c \<in> set ?ops \<Longrightarrow> release_limit ?p t \<le> 1"
    by (auto simp: release_limit_def demo_args_def conn_pool_new_def)
  from conjunct1 [OF conn_pool_exclusive [OF r l, where key = "''k''" and c = 7]] r show ?thesis by simp
qed

end
