(* ===== verification/Proxy_Cache.thy ===== *)
theory Proxy_Cache
  imports Config "HOL-Library.AList" "HOL-Library.Multiset"
begin

text \<open>
  The response cache (\<^verbatim>\<open>src/middleware/proxy_cache.rs\<close>) used by the reverse proxy and by FastCGI:
  keys, entries with their time to live, lookup in memory and on disk, storing with eviction,
  purging, and the base64 text of a body on disk.

  The concurrent map is an association list with distinct keys; the order in which it is iterated is
  unspecified and a parameter. Times are nanoseconds of the monotonic clock, read once per call. The
  hash that names a disk file and the JSON library are parameters too (\<open>cache_env\<close>); the directory is
  part of the state.

  Proved: the base64 routines are inverse to each other; a cache in memory only serves the response
  last stored under the key and only within its time to live, within its entry limit (through the
  interface \<open>response_cache\<close>, interpreted on these operations); a cache with a directory serves a
  stored response for ever.
\<close>

section \<open>Base64\<close>

definition B64_CHARS :: string where
  "B64_CHARS = ''ABCDEFGHIJKLMNOPQRSTUVWXYZabcdefghijklmnopqrstuvwxyz0123456789+/''"

definition b64_char :: "u64 \<Rightarrow> char" where
  "b64_char i = B64_CHARS ! unat i"

text \<open>The bytes of a group are widened to \<^verbatim>\<open>usize\<close> before they are shifted.\<close>

definition b64_0 :: "u8 \<Rightarrow> u64" where
  "b64_0 b0 = drop_bit 2 (ucast b0)"

definition b64_1 :: "u8 \<Rightarrow> u8 \<Rightarrow> u64" where
  "b64_1 b0 b1 = push_bit 4 (ucast b0 AND 3) OR drop_bit 4 (ucast b1)"

definition b64_2 :: "u8 \<Rightarrow> u8 \<Rightarrow> u64" where
  "b64_2 b1 b2 = push_bit 2 (ucast b1 AND 15) OR drop_bit 6 (ucast b2)"

definition b64_3 :: "u8 \<Rightarrow> u64" where
  "b64_3 b2 = ucast b2 AND 63"

fun base64_encode :: "u8 list \<Rightarrow> string" where
  "base64_encode [] = []"
| "base64_encode [b0] = [b64_char (b64_0 b0), b64_char (b64_1 b0 0), CHR ''='', CHR ''='']"
| "base64_encode [b0, b1] =
     [b64_char (b64_0 b0), b64_char (b64_1 b0 b1), b64_char (b64_2 b1 0), CHR ''='']"
| "base64_encode (b0 # b1 # b2 # bs) =
     b64_char (b64_0 b0) # b64_char (b64_1 b0 b1) # b64_char (b64_2 b1 b2) # b64_char (b64_3 b2)
     # base64_encode bs"

definition decode_char :: "char \<Rightarrow> u8 option" where
  "decode_char c =
     (if 65 \<le> cv c \<and> cv c \<le> 90 then Some (byte_of_char c - 65)
      else if 97 \<le> cv c \<and> cv c \<le> 122 then Some (byte_of_char c - 97 + 26)
      else if 48 \<le> cv c \<and> cv c \<le> 57 then Some (byte_of_char c - 48 + 52)
      else if c = CHR ''+'' then Some 62
      else if c = CHR ''/'' then Some 63
      else if c = CHR ''='' then Some 0
      else None)"

fun base64_decode :: "string \<Rightarrow> u8 list" where
  "base64_decode (c0 # c1 # c2 # c3 # cs) =
     (let d0 = unwrap_or (decode_char c0) 0; d1 = unwrap_or (decode_char c1) 0;
          d2 = unwrap_or (decode_char c2) 0; d3 = unwrap_or (decode_char c3) 0
      in [push_bit 2 d0 OR drop_bit 4 d1]
         @ (if c2 \<noteq> CHR ''='' then [push_bit 4 d1 OR drop_bit 2 d2] else [])
         @ (if c3 \<noteq> CHR ''='' then [push_bit 6 d2 OR d3] else [])
         @ base64_decode cs)"
| "base64_decode _ = []"

section \<open>Keys and entries\<close>

record cache_key =
  ck_method :: string
  ck_host :: string
  ck_path :: string

definition cache_key_new :: "string \<Rightarrow> string \<Rightarrow> string \<Rightarrow> cache_key" where
  "cache_key_new meth host path =
     \<lparr>ck_method = (if list_ex is_ascii_lower meth then ascii_upper meth else meth),
      ck_host = (if list_ex is_ascii_upper host then ascii_lower host else host),
      ck_path = path\<rparr>"

record cache_entry =
  ce_status :: u16
  ce_headers :: "(string \<times> string) list"
  ce_body :: string
  ce_created_at :: nat
  ce_ttl :: nat

definition is_expired :: "nat \<Rightarrow> cache_entry \<Rightarrow> bool" where
  "is_expired now e = (ce_ttl e < now - ce_created_at e)"

record json_entry =
  je_status :: "u64 option"
  je_headers :: "(string \<times> string) list option"
  je_body :: "string option"
  je_ttl_secs :: "u64 option"

record cache_env =
  cv_iter :: "(cache_key \<times> cache_entry) list \<Rightarrow> (cache_key \<times> cache_entry) list"
  cv_hash :: "string \<Rightarrow> u64"
  cv_to_vec :: "json_entry \<Rightarrow> string"
  cv_from_slice :: "string \<Rightarrow> json_entry option"

definition to_filename :: "cache_env \<Rightarrow> cache_key \<Rightarrow> string" where
  "to_filename env key = dec (unat (cv_hash env (ck_method key @ '':'' @ ck_host key @ '':'' @ ck_path key)))"

definition entry_json :: "nat \<Rightarrow> cache_entry \<Rightarrow> json_entry" where
  "entry_json now e =
     (let elapsed = (now - ce_created_at e) div 1000000000;
          remaining = ce_ttl e div 1000000000 - elapsed
      in \<lparr>je_status = Some (ucast (ce_status e)), je_headers = Some (ce_headers e),
          je_body = Some (base64_encode (str_bytes (ce_body e))), je_ttl_secs = Some (word_of_nat remaining)\<rparr>)"

definition serialize_entry :: "cache_env \<Rightarrow> nat \<Rightarrow> cache_entry \<Rightarrow> string" where
  "serialize_entry env now e = cv_to_vec env (entry_json now e)"

definition deserialize_entry :: "cache_env \<Rightarrow> nat \<Rightarrow> string \<Rightarrow> cache_entry option" where
  "deserialize_entry env now data =
     (case cv_from_slice env data of
        None \<Rightarrow> None
      | Some obj \<Rightarrow> Some
          \<lparr>ce_status = ucast (unwrap_or (je_status obj) 200),
           ce_headers = unwrap_or (je_headers obj) [],
           ce_body = bytes_str (base64_decode (unwrap_or (je_body obj) [])),
           ce_created_at = now,
           ce_ttl = unat (unwrap_or (je_ttl_secs obj) 0) * 1000000000\<rparr>)"

section \<open>The cache\<close>

record proxy_cache =
  pc_mem :: "(cache_key \<times> cache_entry) list"
  pc_max_entries :: nat
  pc_ttl :: nat
  pc_cacheable_statuses :: "u16 list"
  pc_cacheable_methods :: "string list"
  pc_bypass_headers :: "string list"
  pc_disk_path :: "string option"
  pc_ignore_cache_control :: bool
  pc_ignore_set_cookie :: bool
  pc_disk :: "string \<rightharpoonup> string"

text \<open>\<open>upper\<close> and \<open>lower\<close> are \<^verbatim>\<open>str::to_uppercase\<close> and \<^verbatim>\<open>str::to_lowercase\<close>; \<open>dir\<close> is what the cache directory already holds.\<close>

definition cache_from_config ::
  "(string \<Rightarrow> string) \<Rightarrow> (string \<Rightarrow> string) \<Rightarrow> (string \<rightharpoonup> string) \<Rightarrow> proxy_cache_config \<Rightarrow> proxy_cache" where
  "cache_from_config upper lower dir cfg =
     \<lparr>pc_mem = [], pc_max_entries = pcc_max_entries cfg, pc_ttl = unat (pcc_ttl cfg) * 1000000000,
      pc_cacheable_statuses = pcc_cacheable_statuses cfg,
      pc_cacheable_methods = map upper (pcc_cacheable_methods cfg),
      pc_bypass_headers = map lower (pcc_bypass_headers cfg),
      pc_disk_path = pcc_path cfg,
      pc_ignore_cache_control = list_ex (\<lambda>h. eq_ignore_case h ''Cache-Control'') (pcc_ignore_headers cfg),
      pc_ignore_set_cookie = list_ex (\<lambda>h. eq_ignore_case h ''Set-Cookie'') (pcc_ignore_headers cfg),
      pc_disk = dir\<rparr>"

definition should_lookup :: "proxy_cache \<Rightarrow> string \<Rightarrow> (string \<Rightarrow> string option) \<Rightarrow> bool" where
  "should_lookup c meth req_header =
     (list_ex (\<lambda>m. eq_ignore_case m meth) (pc_cacheable_methods c) \<and>
      \<not> list_ex (\<lambda>b. case req_header b of Some v \<Rightarrow> v \<noteq> [] | None \<Rightarrow> False) (pc_bypass_headers c))"

definition is_cacheable :: "proxy_cache \<Rightarrow> u16 \<Rightarrow> (string \<times> string) list \<Rightarrow> bool" where
  "is_cacheable c status resp_headers =
     (status \<in> set (pc_cacheable_statuses c) \<and>
      \<not> list_ex (\<lambda>(k, v).
          \<not> pc_ignore_cache_control c \<and> eq_ignore_case k ''cache-control'' \<and>
            (contains_sub (ascii_lower v) ''no-store'' \<or> contains_sub (ascii_lower v) ''private'')
          \<or> \<not> pc_ignore_set_cookie c \<and> eq_ignore_case k ''set-cookie'') resp_headers)"

definition cache_get_disk :: "cache_env \<Rightarrow> nat \<Rightarrow> cache_key \<Rightarrow> proxy_cache \<Rightarrow> cache_entry option \<times> proxy_cache" where
  "cache_get_disk env now key c =
     (case pc_disk_path c of
        None \<Rightarrow> (None, c)
      | Some _ \<Rightarrow>
          (case pc_disk c (to_filename env key) of
             None \<Rightarrow> (None, c)
           | Some data \<Rightarrow>
               (case deserialize_entry env now data of
                  None \<Rightarrow> (None, c)
                | Some entry \<Rightarrow>
                    if \<not> is_expired now entry
                    then (Some entry, c\<lparr>pc_mem := AList.update key entry (pc_mem c)\<rparr>)
                    else (None, c\<lparr>pc_disk := (pc_disk c)(to_filename env key := None)\<rparr>))))"

definition cache_get :: "cache_env \<Rightarrow> nat \<Rightarrow> cache_key \<Rightarrow> proxy_cache \<Rightarrow> cache_entry option \<times> proxy_cache" where
  "cache_get env now key c =
     (case map_of (pc_mem c) key of
        Some entry \<Rightarrow>
          if \<not> is_expired now entry then (Some entry, c)
          else cache_get_disk env now key (c\<lparr>pc_mem := AList.delete key (pc_mem c)\<rparr>)
      | None \<Rightarrow> cache_get_disk env now key c)"

fun retain_expired :: "nat \<Rightarrow> nat \<Rightarrow> nat \<Rightarrow> (cache_key \<times> cache_entry) list \<Rightarrow> nat \<times> (cache_key \<times> cache_entry) list" where
  "retain_expired now limit removed [] = (removed, [])"
| "retain_expired now limit removed (e # es) =
     (if removed < limit \<and> is_expired now (snd e) then retain_expired now limit (Suc removed) es
      else (case retain_expired now limit removed es of (n, r) \<Rightarrow> (n, e # r)))"

definition evict :: "cache_env \<Rightarrow> nat \<Rightarrow> proxy_cache \<Rightarrow> proxy_cache" where
  "evict env now c =
     (let evict_count = max (pc_max_entries c div 10) 1;
          (removed, mem) = retain_expired now evict_count 0 (cv_iter env (pc_mem c))
      in c\<lparr>pc_mem := (if removed < evict_count then drop (evict_count - removed) (cv_iter env mem) else mem)\<rparr>)"

text \<open>Storing returns the file to be written; the write is a task of its own.\<close>

definition cache_set ::
  "cache_env \<Rightarrow> nat \<Rightarrow> cache_key \<Rightarrow> u16 \<Rightarrow> (string \<times> string) list \<Rightarrow> string \<Rightarrow> proxy_cache
     \<Rightarrow> proxy_cache \<times> (string \<times> string) option" where
  "cache_set env now key status headers body c =
     (let c1 = (if pc_max_entries c \<le> length (pc_mem c) then evict env now c else c);
          entry = \<lparr>ce_status = status, ce_headers = headers, ce_body = body, ce_created_at = now, ce_ttl = pc_ttl c\<rparr>
      in (c1\<lparr>pc_mem := AList.update key entry (pc_mem c1)\<rparr>,
          (case pc_disk_path c of
             Some _ \<Rightarrow> Some (to_filename env key, serialize_entry env now entry)
           | None \<Rightarrow> None)))"

definition disk_write :: "string \<times> string \<Rightarrow> proxy_cache \<Rightarrow> proxy_cache" where
  "disk_write f c = c\<lparr>pc_disk := (pc_disk c)(fst f \<mapsto> snd f)\<rparr>"

definition cache_stats :: "nat \<Rightarrow> proxy_cache \<Rightarrow> nat \<times> nat \<times> nat \<times> nat \<times> bool" where
  "cache_stats now c =
     (length (pc_mem c), pc_max_entries c, length (filter (\<lambda>(_, e). is_expired now e) (pc_mem c)),
      pc_ttl c div 1000000000, pc_disk_path c \<noteq> None)"

definition purge_all :: "proxy_cache \<Rightarrow> proxy_cache" where
  "purge_all c = c\<lparr>pc_mem := [], pc_disk := (if pc_disk_path c = None then pc_disk c else Map.empty)\<rparr>"

section \<open>Base64 is a round trip\<close>

lemma b64_table:
  "\<forall>n\<in>set [0..<64]. decode_char (B64_CHARS ! n) = Some (word_of_nat n) \<and> B64_CHARS ! n \<noteq> CHR ''=''"
  by code_simp

lemma word_of_nat_unat_ucast: "word_of_nat (unat w) = ucast w"
  by transfer simp

lemma b64_char_decode:
  assumes "unat i < 64"
  shows "decode_char (b64_char i) = Some (ucast i)" and "b64_char i \<noteq> CHR ''=''"
proof -
  have "unat i \<in> set [0..<64]" using assms by simp
  note t = bspec [OF b64_table this]
  then show "decode_char (b64_char i) = Some (ucast i)" by (simp add: b64_char_def word_of_nat_unat_ucast)
  from t show "b64_char i \<noteq> CHR ''=''" by (simp add: b64_char_def)
qed

lemma byte_high_bits: "\<not> bit (b :: u8) n" if "8 \<le> n"
  using bit_imp_le_length [of b n] that by auto

lemma byte_bit_less: "bit (b :: u8) n \<Longrightarrow> n < 8"
  using bit_imp_le_length [of b n] by simp

lemma b64_bits:
  "bit (b64_0 b0) n = bit b0 (n + 2)"
  "bit (b64_1 b0 b1) n = (if n < 4 then bit b1 (n + 4) else n < 6 \<and> bit b0 (n - 4))"
  "bit (b64_2 b1 b2) n = (if n < 2 then bit b2 (n + 6) else n < 6 \<and> bit b1 (n - 2))"
  "bit (b64_3 b2) n = (n < 6 \<and> bit b2 n)"
proof -
  have bits: "bit (3 :: u64) n \<longleftrightarrow> n < 2" "bit (15 :: u64) n \<longleftrightarrow> n < 4" "bit (63 :: u64) n \<longleftrightarrow> n < 6" for n
    using bit_mask_iff [where 'a = u64, of 2 n] bit_mask_iff [where 'a = u64, of 4 n] bit_mask_iff [where 'a = u64, of 6 n]
    by (auto simp: mask_eq_exp_minus_1 possible_bit_def)
  note iffs = bit_or_iff bit_and_iff bit_push_bit_iff bit_drop_bit_eq bit_unsigned_iff bits comp_def
    possible_bit_word
  show "bit (b64_0 b0) n = bit b0 (n + 2)"
    unfolding b64_0_def iffs by (auto simp: add.commute dest: byte_bit_less)
  show "bit (b64_1 b0 b1) n = (if n < 4 then bit b1 (n + 4) else n < 6 \<and> bit b0 (n - 4))"
    unfolding b64_1_def iffs by (auto simp: byte_high_bits add.commute)
  show "bit (b64_2 b1 b2) n = (if n < 2 then bit b2 (n + 6) else n < 6 \<and> bit b1 (n - 2))"
    unfolding b64_2_def iffs by (auto simp: byte_high_bits add.commute)
  show "bit (b64_3 b2) n = (n < 6 \<and> bit b2 n)"
    unfolding b64_3_def iffs by auto
qed

lemma b64_sextets:
  "unat (b64_0 b0) < 64" "unat (b64_1 b0 b1) < 64" "unat (b64_2 b1 b2) < 64" "unat (b64_3 b2) < 64"
proof -
  have sextet: "unat w < 64" if "\<And>n. 6 \<le> n \<Longrightarrow> \<not> bit w n" for w :: u64
  proof -
    have "take_bit 6 w = w" using that by (intro bit_word_eqI) (auto simp: bit_simps not_less [symmetric] intro: ccontr)
    then have "unat w = take_bit 6 (unat w)" by (metis unsigned_take_bit_eq)
    also have "\<dots> < 2 ^ 6" by (rule take_bit_nat_less_exp)
    finally show ?thesis by simp
  qed
  show "unat (b64_0 b0) < 64" "unat (b64_1 b0 b1) < 64" "unat (b64_2 b1 b2) < 64" "unat (b64_3 b2) < 64"
    by (rule sextet; simp add: b64_bits byte_high_bits)+
qed

text \<open>The three bytes of a group from its four sextets.\<close>

lemma b64_bytes:
  "push_bit 2 (ucast (b64_0 b0)) OR drop_bit 4 (ucast (b64_1 b0 b1)) = (b0 :: u8)"
  "push_bit 4 (ucast (b64_1 b0 b1)) OR drop_bit 2 (ucast (b64_2 b1 b2)) = (b1 :: u8)"
  "push_bit 6 (ucast (b64_2 b1 b2)) OR ucast (b64_3 b2) = (b2 :: u8)"
proof -
  have byte_eqI: "v = w" if "\<And>n. n \<in> {0, 1, 2, 3, 4, 5, 6, 7} \<Longrightarrow> bit v n = bit w n" for v w :: u8
  proof (rule bit_word_eqI)
    fix n assume "n < LENGTH(8)"
    then have "n \<in> {0, 1, 2, 3, 4, 5, 6, 7}" by auto
    then show "bit v n = bit w n" by (rule that)
  qed
  note iffs = bit_or_iff bit_push_bit_iff bit_drop_bit_eq bit_unsigned_iff b64_bits possible_bit_word
  show "push_bit 2 (ucast (b64_0 b0)) OR drop_bit 4 (ucast (b64_1 b0 b1)) = (b0 :: u8)"
    by (rule byte_eqI, unfold iffs) (auto simp: eval_nat_numeral)
  show "push_bit 4 (ucast (b64_1 b0 b1)) OR drop_bit 2 (ucast (b64_2 b1 b2)) = (b1 :: u8)"
    by (rule byte_eqI, unfold iffs) (auto simp: eval_nat_numeral)
  show "push_bit 6 (ucast (b64_2 b1 b2)) OR ucast (b64_3 b2) = (b2 :: u8)"
    by (rule byte_eqI, unfold iffs) (auto simp: eval_nat_numeral)
qed

lemmas b64_group = b64_char_decode [OF b64_sextets(1)] b64_char_decode [OF b64_sextets(2)]
  b64_char_decode [OF b64_sextets(3)] b64_char_decode [OF b64_sextets(4)] b64_bytes

lemma base64_decode_encode: "base64_decode (base64_encode bs) = bs"
  by (induction bs rule: base64_encode.induct) (simp_all add: b64_group unwrap_or_def)

text \<open>
  Decoding what the base64 encoder wrote gives the bytes back for every length, and the text
  has four characters for every started group of three bytes.\<close>

theorem base64_round_trip:
  "base64_decode (base64_encode bs) = bs \<and> length (base64_encode bs) = (length bs + 2) div 3 * 4"
proof
  show "base64_decode (base64_encode bs) = bs" by (rule base64_decode_encode)
  show "length (base64_encode bs) = (length bs + 2) div 3 * 4"
  proof (induction bs rule: base64_encode.induct)
    case (4 b0 b1 b2 bs)
    have "(length (b0 # b1 # b2 # bs) + 2) div 3 = Suc ((length bs + 2) div 3)" by simp
    with 4 show ?case by simp
  qed simp_all
qed

section \<open>What a response cache promises\<close>

text \<open>
  The contract of a response cache: \<open>view\<close> is what it holds under a key, \<open>entry\<close> the entry that
  storing creates. A client sees a history of timed operations.
\<close>

datatype ('k, 'v) cache_op = Store 'k 'v | Fetch 'k | Clear

fun note_store :: "'k \<Rightarrow> nat \<times> ('k, 'v) cache_op \<Rightarrow> (nat \<times> 'v) option \<Rightarrow> (nat \<times> 'v) option" where
  "note_store k (t, Store k' v) s = (if k' = k then Some (t, v) else s)"
| "note_store k (t, Fetch k') s = s"
| "note_store k (t, Clear) s = None"

definition last_store :: "'k \<Rightarrow> (nat \<times> ('k, 'v) cache_op) list \<Rightarrow> (nat \<times> 'v) option" where
  "last_store k tr = fold (note_store k) tr None"

locale response_cache =
  fixes view :: "'c \<Rightarrow> 'k \<Rightarrow> 'e option"
    and ok :: "'c \<Rightarrow> bool"
    and store :: "nat \<Rightarrow> 'k \<Rightarrow> 'v \<Rightarrow> 'c \<Rightarrow> 'c"
    and fetch :: "nat \<Rightarrow> 'k \<Rightarrow> 'c \<Rightarrow> 'e option \<times> 'c"
    and clear :: "'c \<Rightarrow> 'c"
    and entry :: "nat \<Rightarrow> 'v \<Rightarrow> 'e"
    and fresh :: "nat \<Rightarrow> 'e \<Rightarrow> bool"
  assumes store_ok: "ok c \<Longrightarrow> ok (store t k v c)"
    and fetch_ok: "ok c \<Longrightarrow> ok (snd (fetch t k c))"
    and clear_ok: "ok c \<Longrightarrow> ok (clear c)"
    and view_store: "\<lbrakk>ok c; view (store t k v c) k' = Some e\<rbrakk>
          \<Longrightarrow> if k' = k then e = entry t v else view c k' = Some e"
    and view_fetch: "\<lbrakk>ok c; view (snd (fetch t k c)) k' = Some e\<rbrakk> \<Longrightarrow> view c k' = Some e"
    and view_clear: "view (clear c) k = None"
    and fetch_hit: "\<lbrakk>ok c; fst (fetch t k c) = Some e\<rbrakk> \<Longrightarrow> view c k = Some e \<and> fresh t e"
begin

fun step :: "nat \<times> ('k, 'v) cache_op \<Rightarrow> 'c \<Rightarrow> 'c" where
  "step (t, Store k v) c = store t k v c"
| "step (t, Fetch k) c = snd (fetch t k c)"
| "step (t, Clear) c = clear c"

lemma run_ok: "ok c \<Longrightarrow> ok (fold step tr c)"
proof (induction tr arbitrary: c)
  case (Cons op tr)
  moreover obtain t a where "op = (t, a)" by (cases op)
  ultimately show ?case by (cases a) (simp_all add: store_ok fetch_ok clear_ok)
qed simp

lemma view_run:
  assumes "ok c" "view c k = None" "view (fold step tr c) k = Some e"
  shows "\<exists>t v. last_store k tr = Some (t, v) \<and> e = entry t v"
  using assms(3)
proof (induction tr rule: rev_induct)
  case Nil
  then show ?case using assms(2) by simp
next
  case (snoc op tr)
  have okt: "ok (fold step tr c)" using assms(1) by (rule run_ok)
  have IH: "view (fold step tr c) k = Some e \<Longrightarrow> \<exists>t v. last_store k tr = Some (t, v) \<and> e = entry t v"
    by (rule snoc.IH)
  obtain t a where op: "op = (t, a)" by (cases op)
  show ?case
  proof (cases a)
    case (Store k' v)
    then show ?thesis using snoc.prems op view_store [OF okt, of t k' v k e] IH
      by (cases "k' = k") (auto simp: last_store_def)
  next
    case (Fetch k')
    then show ?thesis using snoc.prems op view_fetch [OF okt, of t k' k e] IH by (auto simp: last_store_def)
  next
    case Clear
    then show ?thesis using snoc.prems op by (simp add: view_clear)
  qed
qed

lemma hit_is_latest:
  assumes "ok c" "view c k = None" "fst (fetch now k (fold step tr c)) = Some e"
  shows "\<exists>t v. last_store k tr = Some (t, v) \<and> e = entry t v \<and> fresh now e"
  using view_run [OF assms(1,2)] fetch_hit [OF run_ok [OF assms(1)] assms(3)] by blast

end

section \<open>The cache in memory keeps the contract\<close>

definition iter_permutes :: "cache_env \<Rightarrow> bool" where
  "iter_permutes env \<longleftrightarrow> (\<forall>m. mset (cv_iter env m) = mset m)"

definition mem_ok :: "cache_env \<Rightarrow> nat \<Rightarrow> nat \<Rightarrow> proxy_cache \<Rightarrow> bool" where
  "mem_ok env ttl n c \<longleftrightarrow> iter_permutes env \<and> distinct (map fst (pc_mem c)) \<and> pc_disk_path c = None \<and>
     pc_ttl c = ttl \<and> pc_max_entries c = n \<and> length (pc_mem c) \<le> max 1 n"

definition response_entry :: "nat \<Rightarrow> nat \<Rightarrow> u16 \<times> (string \<times> string) list \<times> string \<Rightarrow> cache_entry" where
  "response_entry ttl t v = \<lparr>ce_status = fst v, ce_headers = fst (snd v), ce_body = snd (snd v),
     ce_created_at = t, ce_ttl = ttl\<rparr>"

lemma iter_permutes_facts:
  assumes "iter_permutes env"
  shows "length (cv_iter env m) = length m" "set (cv_iter env m) = set m"
    and "distinct (map fst (cv_iter env m)) = distinct (map fst m)"
proof -
  have m: "mset (cv_iter env m) = mset m" using assms by (simp add: iter_permutes_def)
  show "length (cv_iter env m) = length m" by (rule mset_eq_length [OF m])
  show "set (cv_iter env m) = set m" by (rule mset_eq_setD [OF m])
  have "mset (map fst (cv_iter env m)) = mset (map fst m)" by (simp add: m)
  then show "distinct (map fst (cv_iter env m)) = distinct (map fst m)" by (rule mset_eq_imp_distinct_iff)
qed

lemma retain_expired_facts:
  assumes "retain_expired now limit k m = (n, r)" "k \<le> limit"
  shows "n \<le> limit \<and> k \<le> n \<and> length r + (n - k) = length m \<and> set r \<subseteq> set m \<and>
    (distinct (map fst m) \<longrightarrow> distinct (map fst r))"
  using assms
proof (induction now limit k m arbitrary: n r rule: retain_expired.induct)
  case (2 now limit k e es)
  show ?case
  proof (cases "k < limit \<and> is_expired now (snd e)")
    case True
    then show ?thesis using "2.prems" "2.IH"(1) [OF True, of n r] by auto
  next
    case False
    then obtain r' where "retain_expired now limit k es = (n, r')" "r = e # r'"
      using "2.prems" by (auto split: prod.splits)
    then show ?thesis using "2.IH"(2) [OF False, of n r'] "2.prems"(2) by auto
  qed
qed auto

lemma evict_facts:
  assumes "iter_permutes env" "distinct (map fst (pc_mem c))"
  shows "distinct (map fst (pc_mem (evict env now c)))" "set (pc_mem (evict env now c)) \<subseteq> set (pc_mem c)"
    and "length (pc_mem (evict env now c)) \<le> length (pc_mem c) - 1"
    and "pc_disk_path (evict env now c) = pc_disk_path c" "pc_ttl (evict env now c) = pc_ttl c"
    and "pc_max_entries (evict env now c) = pc_max_entries c" "pc_disk (evict env now c) = pc_disk c"
proof -
  define k where "k = max (pc_max_entries c div 10) 1"
  obtain n r where nr: "retain_expired now k 0 (cv_iter env (pc_mem c)) = (n, r)" by fastforce
  note it = iter_permutes_facts [OF assms(1)]
  have f: "n \<le> k" "length r + n = length (pc_mem c)"
    and sub: "set r \<subseteq> set (pc_mem c)" and d: "distinct (map fst r)"
    using retain_expired_facts [OF nr] it assms(2) by auto
  have m: "pc_mem (evict env now c) = (if n < k then drop (k - n) (cv_iter env r) else r)"
    unfolding evict_def k_def [symmetric] by (simp add: nr)
  have "distinct (map fst (drop i (cv_iter env r)))" for i
    using d it(3) [of r] by (simp add: drop_map [symmetric])
  then show "distinct (map fst (pc_mem (evict env now c)))" using d by (simp add: m)
  show "set (pc_mem (evict env now c)) \<subseteq> set (pc_mem c)"
    using sub it(2) [of r] set_drop_subset [of "k - n" "cv_iter env r"] by (auto simp: m)
  have "1 \<le> k" by (simp add: k_def)
  then show "length (pc_mem (evict env now c)) \<le> length (pc_mem c) - 1"
    using f(1,2) it(1) [of r] by (cases "n < k") (auto simp: m)
qed (simp_all add: evict_def Let_def split_beta)

lemma map_of_evict:
  assumes "iter_permutes env" "distinct (map fst (pc_mem c))" "map_of (pc_mem (evict env now c)) k = Some e"
  shows "map_of (pc_mem c) k = Some e"
  using map_of_SomeD [OF assms(3)] evict_facts(2) [OF assms(1,2), of now] assms(2)
  by (metis map_of_is_SomeI subsetD)

lemma length_update_le: "length (AList.update k v m) \<le> Suc (length m)"
  by (induction m) auto

lemma cache_set_ok:
  assumes "mem_ok env ttl n c"
  shows "mem_ok env ttl n (fst (cache_set env t k st hs b c))"
proof -
  define m where "m = (if n \<le> length (pc_mem c) then evict env t c else c)"
  note f = evict_facts [of env c t]
  have m: "distinct (map fst (pc_mem m))" "pc_disk_path m = None" "pc_ttl m = ttl" "pc_max_entries m = n"
    and len: "length (pc_mem m) < max 1 n"
    using assms f by (auto simp: mem_ok_def m_def)
  have "length (AList.update k v (pc_mem m)) \<le> max 1 n" for v
    using length_update_le [of k v "pc_mem m"] len by simp
  moreover have "fst (cache_set env t k st hs b c) =
      m\<lparr>pc_mem := AList.update k \<lparr>ce_status = st, ce_headers = hs, ce_body = b, ce_created_at = t, ce_ttl = ttl\<rparr> (pc_mem m)\<rparr>"
    using assms by (simp add: cache_set_def m_def mem_ok_def Let_def)
  ultimately show ?thesis using assms m by (simp add: mem_ok_def distinct_update)
qed

lemma cache_get_memory:
  assumes "pc_disk_path c = None"
  shows "cache_get env t k c =
     (case map_of (pc_mem c) k of
        Some e \<Rightarrow> if is_expired t e then (None, c\<lparr>pc_mem := AList.delete k (pc_mem c)\<rparr>) else (Some e, c)
      | None \<Rightarrow> (None, c))"
  using assms by (simp add: cache_get_def cache_get_disk_def split: option.splits)

interpretation mem_cache: response_cache
  "\<lambda>c. map_of (pc_mem c)" "mem_ok env ttl n"
  "\<lambda>t k v c. fst (cache_set env t k (fst v) (fst (snd v)) (snd (snd v)) c)"
  "cache_get env" purge_all "response_entry ttl" "\<lambda>t e. \<not> is_expired t e"
  for env ttl n
proof
  fix c t k k' e and v :: "u16 \<times> (string \<times> string) list \<times> string"
  assume ok: "mem_ok env ttl n c"
  then have disk: "pc_disk_path c = None" and d: "distinct (map fst (pc_mem c))" and p: "iter_permutes env"
    by (simp_all add: mem_ok_def)
  show "mem_ok env ttl n (fst (cache_set env t k (fst v) (fst (snd v)) (snd (snd v)) c))"
    using ok by (rule cache_set_ok)
  have "length (AList.delete k (pc_mem c)) \<le> length (pc_mem c)" by (rule length_delete_le)
  then show "mem_ok env ttl n (snd (cache_get env t k c))"
    using ok by (auto simp: cache_get_memory [OF disk] mem_ok_def distinct_delete split: option.splits)
  show "mem_ok env ttl n (purge_all c)" using ok by (simp add: mem_ok_def purge_all_def)
  show "if k' = k then e = response_entry ttl t v else map_of (pc_mem c) k' = Some e"
    if "map_of (pc_mem (fst (cache_set env t k (fst v) (fst (snd v)) (snd (snd v)) c))) k' = Some e"
    using that ok map_of_evict [OF p d, of t k' e]
    by (auto simp: cache_set_def Let_def update_conv' mem_ok_def response_entry_def split: if_splits)
  show "map_of (pc_mem c) k' = Some e" if "map_of (pc_mem (snd (cache_get env t k c))) k' = Some e"
    using that by (auto simp: cache_get_memory [OF disk] delete_conv' split: option.splits if_splits)
  show "map_of (pc_mem c) k = Some e \<and> \<not> is_expired t e" if "fst (cache_get env t k c) = Some e"
    using that by (auto simp: cache_get_memory [OF disk] split: option.splits if_splits)
qed (simp add: purge_all_def)

text \<open>The history of one cache.\<close>

fun cache_op_step ::
  "cache_env \<Rightarrow> nat \<times> (cache_key, u16 \<times> (string \<times> string) list \<times> string) cache_op \<Rightarrow> proxy_cache \<Rightarrow> proxy_cache" where
  "cache_op_step env (t, Store k v) c = fst (cache_set env t k (fst v) (fst (snd v)) (snd (snd v)) c)"
| "cache_op_step env (t, Fetch k) c = snd (cache_get env t k c)"
| "cache_op_step env (t, Clear) c = purge_all c"

lemma mem_cache_step: "mem_cache.step env = cache_op_step env"
proof (intro ext)
  fix op :: "nat \<times> (cache_key, u16 \<times> (string \<times> string) list \<times> string) cache_op" and c
  obtain t a where "op = (t, a)" by (cases op)
  then show "mem_cache.step env op c = cache_op_step env op c" by (cases a) simp_all
qed

lemma mem_ok_from_config:
  assumes "iter_permutes env" "pcc_path cfg = None"
  shows "mem_ok env (unat (pcc_ttl cfg) * 1000000000) (pcc_max_entries cfg) (cache_from_config upper lower dir cfg)"
  using assms by (simp add: mem_ok_def cache_from_config_def)

lemma memory_hit:
  assumes "iter_permutes env" "pcc_path cfg = None"
    and "fst (cache_get env now key (fold (cache_op_step env) history (cache_from_config upper lower dir cfg))) = Some e"
  shows "\<exists>t v. last_store key history = Some (t, v) \<and>
    e = response_entry (unat (pcc_ttl cfg) * 1000000000) t v \<and> \<not> is_expired now e"
  using mem_cache.hit_is_latest [OF mem_ok_from_config [OF assms(1,2), of upper lower dir], of key now history e] assms(3)
  by (simp add: mem_cache_step cache_from_config_def)

definition demo_cache_env :: cache_env where
  "demo_cache_env = \<lparr>cv_iter = rev, cv_hash = (\<lambda>s. word_of_nat (length s)),
     cv_to_vec = (\<lambda>j. unwrap_or (je_body j) []),
     cv_from_slice = (\<lambda>s. Some \<lparr>je_status = Some 200, je_headers = Some [], je_body = Some s, je_ttl_secs = Some 60\<rparr>)\<rparr>"

lemma demo_cache_env_iter: "iter_permutes demo_cache_env"
  by (simp add: iter_permutes_def demo_cache_env_def)

text \<open>
  C23: after any history of stores, lookups and purges, a cache configured without a directory
  answers a key only with the response that was stored last under this key since the last purge, at
  most \<^verbatim>\<open>ttl\<close> seconds after it was stored; and it never holds more than \<^verbatim>\<open>max_entries\<close> entries (one,
  when that is zero), whatever order the map iterates in.\<close>

theorem cache_hit_is_latest:
  assumes "iter_permutes env" and "pcc_path cfg = None"
    and "c = fold (cache_op_step env) history (cache_from_config upper lower dir cfg)"
  shows "length (pc_mem c) \<le> max 1 (pcc_max_entries cfg) \<and>
    (\<forall>e. fst (cache_get env now key c) = Some e \<longrightarrow>
      (\<exists>t v. last_store key history = Some (t, v) \<and>
        (ce_status e, ce_headers e, ce_body e) = v \<and> now - t \<le> unat (pcc_ttl cfg) * 1000000000))"
proof -
  let ?ttl = "unat (pcc_ttl cfg) * 1000000000"
  note ok = mem_ok_from_config [OF assms(1,2), of upper lower dir]
  have "mem_ok env ?ttl (pcc_max_entries cfg) c"
    using mem_cache.run_ok [OF ok] by (simp add: mem_cache_step assms(3))
  moreover note memory_hit [OF assms(1,2), of now key history upper lower dir]
  ultimately show ?thesis by (fastforce simp: assms(3) mem_ok_def is_expired_def response_entry_def)
qed

theorem cache_hit_is_latest_witness:
  "\<exists>e. fst (cache_get demo_cache_env 50000000000 (cache_key_new ''get'' ''A.b'' ''/'')
      (fold (cache_op_step demo_cache_env)
        [(0, Store (cache_key_new ''GET'' ''a.b'' ''/'') (200, [], ''old'')),
         (7, Store (cache_key_new ''GET'' ''a.b'' ''/'') (200, [], ''new''))]
        (cache_from_config id id Map.empty serde_proxy_cache_config))) = Some e \<and> ce_body e = ''new''"
proof -
  let ?tr = "[(0, Store (cache_key_new ''GET'' ''a.b'' ''/'') (200, [], ''old'')),
      (7 :: nat, Store (cache_key_new ''GET'' ''a.b'' ''/'') (200, [], ''new''))]"
  let ?c = "fold (cache_op_step demo_cache_env) ?tr (cache_from_config id id Map.empty serde_proxy_cache_config)"
  let ?k = "cache_key_new ''get'' ''A.b'' ''/''"
  have k: "?k = cache_key_new ''GET'' ''a.b'' ''/''" by code_simp
  obtain e where hit: "fst (cache_get demo_cache_env 50000000000 ?k ?c) = Some e"
    unfolding k by (simp add: cache_get_def cache_set_def cache_from_config_def serde_proxy_cache_config_def is_expired_def)
  have "pcc_path serde_proxy_cache_config = None" by (simp add: serde_proxy_cache_config_def)
  from cache_hit_is_latest [OF demo_cache_env_iter this refl, where now = 50000000000 and key = ?k and history = ?tr
      and upper = id and lower = id and dir = Map.empty]
  have "ce_body e = ''new''" using hit by (auto simp: last_store_def k)
  then show ?thesis using hit by blast
qed

section \<open>The cache on disk\<close>

text \<open>A stored response: it is in the file of its key, and nothing else is in memory under the key.\<close>

definition on_disk :: "cache_env \<Rightarrow> cache_key \<Rightarrow> cache_entry \<Rightarrow> proxy_cache \<Rightarrow> bool" where
  "on_disk env key e c \<longleftrightarrow> pc_disk_path c \<noteq> None \<and>
     pc_disk c (to_filename env key) = Some (serialize_entry env (ce_created_at e) e) \<and>
     (\<forall>e'. map_of (pc_mem c) key = Some e' \<longrightarrow>
        ce_status e' = ce_status e \<and> ce_headers e' = ce_headers e \<and> ce_body e' = ce_body e)"

lemma ucast_up_down: "ucast (ucast (w :: u16) :: u64) = w"
  by (rule bit_word_eqI) (auto simp: bit_simps)

lemma deserialize_serialize:
  assumes "cv_from_slice env (cv_to_vec env (entry_json (ce_created_at e) e)) = Some (entry_json (ce_created_at e) e)"
    and "ce_ttl e = unat (secs :: u64) * 1000000000"
  shows "deserialize_entry env now (serialize_entry env (ce_created_at e) e) = Some (e\<lparr>ce_created_at := now\<rparr>)"
  using assms by (simp add: deserialize_entry_def serialize_entry_def entry_json_def unwrap_or_def
      base64_decode_encode ucast_up_down)

lemma on_disk_get:
  assumes "on_disk env key e c"
    and "cv_from_slice env (cv_to_vec env (entry_json (ce_created_at e) e)) = Some (entry_json (ce_created_at e) e)"
    and "ce_ttl e = unat (secs :: u64) * 1000000000"
  shows "on_disk env key e (snd (cache_get env now key c))"
    and "\<exists>e'. fst (cache_get env now key c) = Some e' \<and>
      ce_status e' = ce_status e \<and> ce_headers e' = ce_headers e \<and> ce_body e' = ce_body e"
proof -
  note d = deserialize_serialize [OF assms(2,3), of now]
  have disk: "cache_get_disk env now key c' =
      (Some (e\<lparr>ce_created_at := now\<rparr>), c'\<lparr>pc_mem := AList.update key (e\<lparr>ce_created_at := now\<rparr>) (pc_mem c')\<rparr>)"
    if "pc_disk_path c' \<noteq> None" "pc_disk c' (to_filename env key) = Some (serialize_entry env (ce_created_at e) e)" for c'
    using that by (auto simp: cache_get_disk_def d is_expired_def)
  have "on_disk env key e (snd (cache_get env now key c)) \<and>
      (\<exists>e'. fst (cache_get env now key c) = Some e' \<and>
        ce_status e' = ce_status e \<and> ce_headers e' = ce_headers e \<and> ce_body e' = ce_body e)"
  proof (cases "\<exists>e'. map_of (pc_mem c) key = Some e' \<and> \<not> is_expired now e'")
    case True
    then show ?thesis using assms(1) by (auto simp: on_disk_def cache_get_def)
  next
    case False
    then obtain m where m: "cache_get env now key c = cache_get_disk env now key (c\<lparr>pc_mem := m\<rparr>)"
      by (cases "map_of (pc_mem c) key") (auto simp: cache_get_def intro: that [of "pc_mem c"])
    show ?thesis using assms(1) unfolding m by (subst (1 2) disk) (auto simp: on_disk_def update_conv')
  qed
  then show "on_disk env key e (snd (cache_get env now key c))"
    and "\<exists>e'. fst (cache_get env now key c) = Some e' \<and>
      ce_status e' = ce_status e \<and> ce_headers e' = ce_headers e \<and> ce_body e' = ce_body e"
    by simp_all
qed

text \<open>
  Once a response has been stored and its file written, a cache with a directory answers the
  key with it at every later time, however long after its time to live and whatever lookups of the
  key happened before: the file holds the full time to live, counted anew from every read.\<close>

theorem disk_cache_never_expires:
  fixes secs :: u64
  assumes "pc_disk_path c = Some dir" and "pc_ttl c = unat secs * 1000000000"
    and "cache_set env t key status headers body c = (c1, Some f)"
    and "e = \<lparr>ce_status = status, ce_headers = headers, ce_body = body, ce_created_at = t, ce_ttl = pc_ttl c\<rparr>"
    and json: "cv_from_slice env (cv_to_vec env (entry_json t e)) = Some (entry_json t e)"
  shows "\<exists>e'. fst (cache_get env now key (fold (\<lambda>t'. snd \<circ> cache_get env t' key) lookups (disk_write f c1))) = Some e' \<and>
    ce_status e' = status \<and> ce_headers e' = headers \<and> ce_body e' = body"
proof -
  have ttl: "ce_ttl e = unat secs * 1000000000" using assms(2,4) by simp
  have json': "cv_from_slice env (cv_to_vec env (entry_json (ce_created_at e) e)) = Some (entry_json (ce_created_at e) e)"
    using json assms(4) by simp
  have "pc_disk_path (evict env t c) = pc_disk_path c" by (simp add: evict_def Let_def split_beta)
  then have "on_disk env key e (disk_write f c1)"
    using assms(1,3,4) by (auto simp: on_disk_def cache_set_def disk_write_def Let_def update_conv')
  then have "on_disk env key e (fold (\<lambda>t'. snd \<circ> cache_get env t' key) lookups (disk_write f c1))"
    by (induction lookups arbitrary: f c1 rule: rev_induct) (simp_all add: on_disk_get(1) [OF _ json' ttl])
  from on_disk_get(2) [OF this json' ttl, of now] show ?thesis using assms(4) by simp
qed

theorem disk_cache_never_expires_witness:
  "\<exists>e. fst (cache_get demo_cache_env (10 ^ 18) (cache_key_new ''GET'' ''a'' ''/'')
      (fold (\<lambda>t'. snd \<circ> cache_get demo_cache_env t' (cache_key_new ''GET'' ''a'' ''/'')) [10 ^ 17]
        (disk_write (the (snd (cache_set demo_cache_env 5 (cache_key_new ''GET'' ''a'' ''/'') 200 [] ''hi''
             (cache_from_config id id Map.empty (serde_proxy_cache_config\<lparr>pcc_path := Some ''/c''\<rparr>)))))
          (fst (cache_set demo_cache_env 5 (cache_key_new ''GET'' ''a'' ''/'') 200 [] ''hi''
             (cache_from_config id id Map.empty (serde_proxy_cache_config\<lparr>pcc_path := Some ''/c''\<rparr>))))))) = Some e
      \<and> ce_body e = ''hi''"
proof -
  let ?c = "cache_from_config id id Map.empty (serde_proxy_cache_config\<lparr>pcc_path := Some ''/c''\<rparr>)"
  let ?k = "cache_key_new ''GET'' ''a'' ''/''"
  let ?s = "cache_set demo_cache_env 5 ?k 200 [] ''hi'' ?c"
  have 1: "pc_disk_path ?c = Some ''/c''" "pc_ttl ?c = unat (60 :: u64) * 1000000000"
    by (simp_all add: cache_from_config_def serde_proxy_cache_config_def)
  have 2: "?s = (fst ?s, Some (the (snd ?s)))"
    by (simp add: cache_set_def cache_from_config_def serde_proxy_cache_config_def Let_def)
  let ?e = "\<lparr>ce_status = 200, ce_headers = [], ce_body = ''hi'', ce_created_at = 5, ce_ttl = pc_ttl ?c\<rparr>"
  have 3: "cv_from_slice demo_cache_env (cv_to_vec demo_cache_env (entry_json 5 ?e)) = Some (entry_json 5 ?e)"
    unfolding 1(2) by (simp add: demo_cache_env_def entry_json_def unwrap_or_def)
  from disk_cache_never_expires [OF 1 2 refl 3, of "10 ^ 18" "[10 ^ 17]"] show ?thesis by blast
qed

end
