(* ===== verification/Header_Map.thy ===== *)
theory Header_Map
  imports Proxy_Response
begin

text \<open>
  The header map of a response as its operations see it: every name (in lower case) has a list of
  values; \<^verbatim>\<open>insert\<close> replaces them, \<^verbatim>\<open>append\<close> adds one, \<^verbatim>\<open>remove\<close> drops them, \<^verbatim>\<open>get\<close> reads the first.
  A response carries a status, such a map and a body.
\<close>

type_synonym header_map = "string \<Rightarrow> string list"

definition no_headers :: header_map where
  "no_headers = (\<lambda>_. [])"

definition hm_insert :: "string \<Rightarrow> string \<Rightarrow> header_map \<Rightarrow> header_map" where
  "hm_insert k v h = h(k := [v])"

definition hm_append :: "string \<Rightarrow> string \<Rightarrow> header_map \<Rightarrow> header_map" where
  "hm_append k v h = h(k := h k @ [v])"

definition hm_remove :: "string \<Rightarrow> header_map \<Rightarrow> header_map" where
  "hm_remove k h = h(k := [])"

definition hm_get :: "string \<Rightarrow> header_map \<Rightarrow> string option" where
  "hm_get k h = (case h k of v # _ \<Rightarrow> Some v | [] \<Rightarrow> None)"

definition hm_contains :: "string \<Rightarrow> header_map \<Rightarrow> bool" where
  "hm_contains k h = (h k \<noteq> [])"

lemmas hm_defs = hm_insert_def hm_append_def hm_remove_def hm_get_def hm_contains_def no_headers_def

text \<open>The calls recorded in a \<open>header_op\<close> list, executed.\<close>

fun run_op :: "header_op \<Rightarrow> header_map \<Rightarrow> header_map" where
  "run_op (HInsert k v) h = hm_insert k v h"
| "run_op (HAppend k v) h = hm_append k v h"
| "run_op (HRemove k) h = hm_remove k h"

definition run_ops :: "header_op list \<Rightarrow> header_map \<Rightarrow> header_map" where
  "run_ops ops h = fold run_op ops h"

lemma run_ops_simps [simp]:
  "run_ops [] h = h" "run_ops (op # ops) h = run_ops ops (run_op op h)"
  "run_ops (ops @ ops') h = run_ops ops' (run_ops ops h)"
  by (simp_all add: run_ops_def)

lemma run_ops_other: "(\<forall>op\<in>set ops. op_name op \<noteq> k) \<Longrightarrow> run_ops ops h k = h k"
proof (induction ops arbitrary: h)
  case (Cons op ops)
  then show ?case by (cases op) (auto simp: hm_defs)
qed simp

record 'b web_response =
  wr_status :: nat
  wr_headers :: header_map
  wr_body :: 'b

text \<open>
  Bodies: an error page stands for the built-in page of its status, a file range for the bytes of an
  open file from an offset on, an encoded body for the output of the named encoder at a level.
\<close>

datatype resp_body =
    NoBody
  | Bytes string
  | ErrorPage nat
  | FileRange nat nat nat
  | Encoded string u32 resp_body

type_synonym resp = "resp_body web_response"

definition error_resp :: "nat \<Rightarrow> resp" where
  "error_resp status =
     \<lparr>wr_status = status, wr_headers = hm_insert ''content-type'' ''text/html; charset=utf-8'' no_headers,
      wr_body = ErrorPage status\<rparr>"

end
