(* ===== verification/Compress.thy ===== *)
theory Compress
  imports Header_Map Vhost Complex_Main
begin

text \<open>
  Response compression (\<^verbatim>\<open>src/handler/compress.rs\<close>): the Accept-Encoding parser, the choice of an
  encoding, the effective settings of a site, and the rewriting of a dynamic response.

  A quality is an \<^verbatim>\<open>f32\<close>. The finite values are rationals; the decimal parser and the rounded
  subtraction of the language are parameters (\<open>f32_api\<close>), and so are the encoders.
\<close>

section \<open>Qualities\<close>

datatype f32 = F_nan | F_inf bool | F rat

record f32_api =
  f_parse :: "string \<Rightarrow> f32 option"
  f_sub :: "rat \<Rightarrow> rat \<Rightarrow> rat"

text \<open>\<^verbatim>\<open>clamp(0.0, 1.0)\<close>: \<open>None\<close> is not-a-number, which clamping keeps.\<close>

fun clamp01 :: "f32 \<Rightarrow> rat option" where
  "clamp01 F_nan = None"
| "clamp01 (F_inf positive) = Some (if positive then 1 else 0)"
| "clamp01 (F x) = Some (max 0 (min 1 x))"

definition q_ge0 :: "rat option \<Rightarrow> bool" where
  "q_ge0 q = (case q of Some x \<Rightarrow> 0 \<le> x | None \<Rightarrow> False)"

definition q_gt0 :: "rat option \<Rightarrow> bool" where
  "q_gt0 q = (case q of Some x \<Rightarrow> 0 < x | None \<Rightarrow> False)"

text \<open>The \<^verbatim>\<open>f32\<close> nearest to 0.001.\<close>

definition f32_0_001 :: rat where
  "f32_0_001 = 8589935 / 8589934592"

section \<open>Accept-Encoding\<close>

record accept_encoding =
  ae_gzip :: "rat option"
  ae_brotli :: "rat option"
  ae_zstd :: "rat option"

definition token_quality :: "f32_api \<Rightarrow> string option \<Rightarrow> rat option" where
  "token_quality api param =
     clamp01 (unwrap_or
       (case param of
          None \<Rightarrow> None
        | Some p \<Rightarrow>
            (let p = trim p
             in if starts_with p ''q='' \<or> starts_with p ''Q='' then f_parse api (trim (drop 2 p)) else None))
       (F 1))"

text \<open>The four accumulators: gzip, brotli, zstd and the wildcard.\<close>

definition accept_token ::
  "f32_api \<Rightarrow> string \<Rightarrow> rat option \<times> rat option \<times> rat option \<times> rat option
     \<Rightarrow> rat option \<times> rat option \<times> rat option \<times> rat option" where
  "accept_token api tok acc =
     (let token = trim tok
      in if token = [] then acc
         else (let parts = splitn 2 CHR '';'' token;
                   name = trim (case parts of n # _ \<Rightarrow> n | [] \<Rightarrow> []);
                   q = token_quality api (case parts of _ # p # _ \<Rightarrow> Some p | _ \<Rightarrow> None);
                   lower = ascii_lower name
               in case acc of (gz, br, zst, wildcard) \<Rightarrow>
                    if lower = ''gzip'' then (q, br, zst, wildcard)
                    else if lower = ''br'' then (gz, q, zst, wildcard)
                    else if lower = ''zstd'' then (gz, br, q, wildcard)
                    else if lower = ''*'' then (gz, br, zst, q)
                    else acc))"

definition parse_accept_encoding :: "f32_api \<Rightarrow> string \<Rightarrow> accept_encoding" where
  "parse_accept_encoding api header =
     (case fold (accept_token api) (split_on CHR '','' header) (Some (- 1), Some (- 1), Some (- 1), Some (- 1)) of
        (gz, br, zst, wildcard) \<Rightarrow>
          (let default_q = (if q_ge0 wildcard then wildcard else Some 0)
           in \<lparr>ae_gzip = (if q_ge0 gz then gz else default_q),
               ae_brotli = (if q_ge0 br then br else default_q),
               ae_zstd = (if q_ge0 zst then zst else default_q)\<rparr>))"

section \<open>Choosing an encoding\<close>

definition ZSTD_PREFERRED_BELOW_BYTES :: nat where
  "ZSTD_PREFERRED_BELOW_BYTES = 20 * 1024"

definition avail_encodings :: "accept_encoding \<Rightarrow> bool \<Rightarrow> bool \<Rightarrow> bool \<Rightarrow> (string \<times> rat) list" where
  "avail_encodings ae gz_en br_en zst_en =
     (if br_en \<and> q_gt0 (ae_brotli ae) then [(''br'', the (ae_brotli ae))] else [])
     @ (if zst_en \<and> q_gt0 (ae_zstd ae) then [(''zstd'', the (ae_zstd ae))] else [])
     @ (if gz_en \<and> q_gt0 (ae_gzip ae) then [(''gzip'', the (ae_gzip ae))] else [])"

text \<open>\<^verbatim>\<open>Iterator::max_by\<close> keeps the later of two equal elements.\<close>

fun max_by_q :: "(string \<times> rat) \<Rightarrow> (string \<times> rat) list \<Rightarrow> string \<times> rat" where
  "max_by_q b [] = b"
| "max_by_q b (x # xs) = max_by_q (if snd x < snd b then b else x) xs"

definition pick_best_encoding_sized ::
  "f32_api \<Rightarrow> string option \<Rightarrow> bool \<Rightarrow> bool \<Rightarrow> bool \<Rightarrow> nat option \<Rightarrow> string option" where
  "pick_best_encoding_sized api accept gz_en br_en zst_en size_hint =
     (let raw = unwrap_or accept []
      in if raw = [] then None
         else (case avail_encodings (parse_accept_encoding api raw) gz_en br_en zst_en of
             [] \<Rightarrow> None
           | x # xs \<Rightarrow>
               (let q_max = fold (max \<circ> snd) xs (snd x);
                    q_min = fold (min \<circ> snd) xs (snd x)
                in if f32_0_001 < f_sub api q_max q_min then Some (fst (max_by_q x xs))
                   else (let prefer_zstd = (case size_hint of
                                Some sz \<Rightarrow> sz \<le> ZSTD_PREFERRED_BELOW_BYTES | None \<Rightarrow> True);
                             priority = (if prefer_zstd then [''zstd'', ''br'', ''gzip'']
                                         else [''br'', ''zstd'', ''gzip''])
                         in find (\<lambda>name. list_ex (\<lambda>(n, _). n = name) (x # xs)) priority))))"

definition pick_best_encoding ::
  "f32_api \<Rightarrow> string option \<Rightarrow> bool \<Rightarrow> bool \<Rightarrow> bool \<Rightarrow> string option" where
  "pick_best_encoding api accept gz_en br_en zst_en = pick_best_encoding_sized api accept gz_en br_en zst_en None"

section \<open>Settings of a site\<close>

record compress_settings =
  gz_en :: bool
  gz_lv :: u32
  br_en :: bool
  br_lv :: u32
  zst_en :: bool
  zst_lv :: u32

definition effective_compress :: "('re, 'l) site_info \<Rightarrow> global_config \<Rightarrow> compress_settings" where
  "effective_compress site global =
     (let eff = compress_resolve (si_compress site) (gc_compress global)
      in \<lparr>gz_en = (cc_gzip eff \<or> unwrap_or (si_gzip site) (gc_gzip global)),
          gz_lv = (if sc_gzip_level (si_compress site) \<noteq> None then cc_gzip_level eff
                   else unwrap_or (si_gzip_comp_level site) (cc_gzip_level eff)),
          br_en = cc_brotli eff, br_lv = cc_brotli_level eff,
          zst_en = cc_zstd eff, zst_lv = cc_zstd_level eff\<rparr>)"

section \<open>Compressing a dynamic response\<close>

definition compressible_type :: "string \<Rightarrow> bool" where
  "compressible_type ct =
     (starts_with ct ''text/'' \<or> contains_sub ct ''javascript'' \<or> contains_sub ct ''json'' \<or>
      contains_sub ct ''xml'' \<or> contains_sub ct ''svg'')"

definition encoder_level :: "string \<Rightarrow> compress_settings \<Rightarrow> u32" where
  "encoder_level enc_name cs =
     (if enc_name = ''br'' then min (br_lv cs) 11
      else if enc_name = ''zstd'' then max 1 (min (zst_lv cs) 22)
      else min (gz_lv cs) 9)"

definition compress_response ::
  "f32_api \<Rightarrow> (string \<Rightarrow> u32 \<Rightarrow> 'b \<Rightarrow> 'b) \<Rightarrow> string option \<Rightarrow> compress_settings \<Rightarrow> 'b web_response \<Rightarrow> 'b web_response" where
  "compress_response api encode accept cs resp =
     (if \<not> gz_en cs \<and> \<not> br_en cs \<and> \<not> zst_en cs then resp
      else if hm_contains ''content-encoding'' (wr_headers resp) then resp
      else if \<not> compressible_type (unwrap_or (hm_get ''content-type'' (wr_headers resp)) []) then resp
      else (let size_hint = Option.bind (hm_get ''content-length'' (wr_headers resp)) parse_u64
            in case pick_best_encoding_sized api accept (gz_en cs) (br_en cs) (zst_en cs) size_hint of
                 None \<Rightarrow> resp
               | Some enc_name \<Rightarrow>
                   resp\<lparr>wr_headers := hm_insert ''vary'' ''Accept-Encoding''
                          (hm_insert ''content-encoding'' enc_name
                            (hm_remove ''content-length'' (wr_headers resp))),
                        wr_body := encode enc_name (encoder_level enc_name cs) (wr_body resp)\<rparr>))"

section \<open>The choice respects the client\<close>

text \<open>The rounded subtraction is within half a unit in the last place of the exact difference.\<close>

definition rounded_sub :: "f32_api \<Rightarrow> bool" where
  "rounded_sub api \<longleftrightarrow> (\<forall>a b. \<bar>f_sub api a b - (a - b)\<bar> \<le> \<bar>a - b\<bar> / 2 ^ 24)"

lemma max_by_q_best:
  "max_by_q b xs \<in> set (b # xs) \<and> (\<forall>x\<in>set (b # xs). snd x \<le> snd (max_by_q b xs))"
proof (induction xs arbitrary: b)
  case (Cons x xs)
  show ?case using Cons [of "if snd x < snd b then b else x"] by (auto split: if_splits)
qed simp

lemma fold_max_ge: "(b :: rat) \<le> fold (max \<circ> snd) xs b \<and> (\<forall>x\<in>set xs. snd x \<le> fold (max \<circ> snd) xs b)"
proof (induction xs arbitrary: b)
  case (Cons x xs)
  show ?case using Cons [of "max (snd x) b"] by auto
qed simp

lemma fold_min_le: "fold (min \<circ> snd) xs b \<le> (b :: rat) \<and> (\<forall>x\<in>set xs. fold (min \<circ> snd) xs b \<le> snd x)"
proof (induction xs arbitrary: b)
  case (Cons x xs)
  show ?case using Cons [of "min (snd x) b"] by auto
qed simp

lemma small_difference:
  assumes "rounded_sub api" "\<not> f32_0_001 < f_sub api a b" "b \<le> a"
  shows "a - b \<le> 1 / 900"
proof -
  have "\<bar>f_sub api a b - (a - b)\<bar> \<le> (a - b) / 2 ^ 24"
    using assms(1,3) unfolding rounded_sub_def by (metis abs_of_nonneg diff_ge_0_iff_ge)
  then have "(a - b) - (a - b) / 2 ^ 24 \<le> f32_0_001" using assms(2) by linarith
  then show ?thesis by (simp add: f32_0_001_def field_simps)
qed

lemma avail_encodings_iff:
  "(e, q) \<in> set (avail_encodings ae gz br zst) \<longleftrightarrow>
     e = ''br'' \<and> br \<and> ae_brotli ae = Some q \<and> 0 < q \<or> e = ''zstd'' \<and> zst \<and> ae_zstd ae = Some q \<and> 0 < q \<or>
     e = ''gzip'' \<and> gz \<and> ae_gzip ae = Some q \<and> 0 < q"
  by (auto simp: avail_encodings_def q_gt0_def split: option.splits)

text \<open>What the server offers: an encoding it has enabled, with the quality the client gave it.\<close>

definition offered :: "f32_api \<Rightarrow> string \<Rightarrow> bool \<Rightarrow> bool \<Rightarrow> bool \<Rightarrow> string \<Rightarrow> rat \<Rightarrow> bool" where
  "offered api raw gz br zst e q \<longleftrightarrow> 0 < q \<and>
     (e = ''br'' \<and> br \<and> ae_brotli (parse_accept_encoding api raw) = Some q \<or>
      e = ''zstd'' \<and> zst \<and> ae_zstd (parse_accept_encoding api raw) = Some q \<or>
      e = ''gzip'' \<and> gz \<and> ae_gzip (parse_accept_encoding api raw) = Some q)"

lemma offered_avail:
  "offered api raw gz br zst e q \<longleftrightarrow> (e, q) \<in> set (avail_encodings (parse_accept_encoding api raw) gz br zst)"
  by (auto simp: offered_def avail_encodings_iff)

lemma find_priority:
  assumes "set (map fst xs) \<subseteq> set ps" "xs \<noteq> []"
  shows "\<exists>e. find (\<lambda>name. list_ex (\<lambda>(n, _). n = name) xs) ps = Some e \<and> e \<in> fst ` set xs"
proof -
  obtain x where "x \<in> set xs" using assms(2) by (cases xs) auto
  then have "\<not> (\<forall>p\<in>set ps. \<not> list_ex (\<lambda>(n, _). n = p) xs)"
    using assms(1) by (force simp: list_ex_iff)
  then obtain e where "find (\<lambda>name. list_ex (\<lambda>(n, _). n = name) xs) ps = Some e"
    by (metis (no_types, lifting) find_None_iff not_None_eq)
  moreover from this have "e \<in> fst ` set xs"
    by (force simp: find_Some_iff list_ex_iff)
  ultimately show ?thesis by blast
qed

lemma avail_names: "set (map fst (avail_encodings ae gz br zst)) \<subseteq> {''br'', ''zstd'', ''gzip''}"
  by (auto simp: avail_encodings_def)

text \<open>
  The server compresses only as the client allows. If an encoding is chosen it is enabled and the
  client gave it a positive quality, and no other such encoding has a quality higher by more than
  1/900; and none is chosen only when the client sent no Accept-Encoding or there is no such
  encoding. (The difference is due to the tolerance of the code for equal qualities.)
\<close>

theorem pick_encoding_acceptable:
  assumes "rounded_sub api"
  shows "case pick_best_encoding_sized api accept gz br zst hint of
      Some e \<Rightarrow> \<exists>raw q. accept = Some raw \<and> offered api raw gz br zst e q \<and>
        (\<forall>e' q'. offered api raw gz br zst e' q' \<longrightarrow> q' \<le> q + 1 / 900)
    | None \<Rightarrow> accept = None \<or> accept = Some [] \<or> (\<forall>e q. \<not> offered api (the accept) gz br zst e q)"
proof (cases "accept = None \<or> accept = Some []")
  case True
  then show ?thesis by (auto simp: pick_best_encoding_sized_def unwrap_or_def)
next
  case False
  then obtain raw where raw: "accept = Some raw" "raw \<noteq> []" by auto
  let ?av = "avail_encodings (parse_accept_encoding api raw) gz br zst"
  show ?thesis
  proof (cases ?av)
    case Nil
    then show ?thesis using raw by (simp add: pick_best_encoding_sized_def unwrap_or_def offered_avail)
  next
    case (Cons x xs)
    define q_max q_min where "q_max = fold (max \<circ> snd) xs (snd x)" and "q_min = fold (min \<circ> snd) xs (snd x)"
    have bounds: "q_min \<le> q \<and> q \<le> q_max" if "(e, q) \<in> set ?av" for e q
      using that fold_max_ge [of "snd x" xs] fold_min_le [of xs "snd x"] Cons by (force simp: q_max_def q_min_def)
    have "\<exists>e q. pick_best_encoding_sized api accept gz br zst hint = Some e \<and> (e, q) \<in> set ?av \<and>
        (\<forall>e' q'. (e', q') \<in> set ?av \<longrightarrow> q' \<le> q + 1 / 900)"
    proof (cases "f32_0_001 < f_sub api q_max q_min")
      case True
      then have "pick_best_encoding_sized api accept gz br zst hint = Some (fst (max_by_q x xs))"
        using raw Cons by (simp add: pick_best_encoding_sized_def unwrap_or_def q_max_def q_min_def)
      moreover have "(fst (max_by_q x xs), snd (max_by_q x xs)) \<in> set ?av" using max_by_q_best [of x xs] Cons by simp
      moreover have "q' \<le> snd (max_by_q x xs) + 1 / 900" if "(e', q') \<in> set ?av" for e' q'
        using that max_by_q_best [of x xs] Cons by fastforce
      ultimately show ?thesis by blast
    next
      case False
      define ps where "ps = (if (case hint of Some sz \<Rightarrow> sz \<le> ZSTD_PREFERRED_BELOW_BYTES | None \<Rightarrow> True)
        then [''zstd'', ''br'', ''gzip''] else [''br'', ''zstd'', ''gzip''])"
      have "set (map fst ?av) \<subseteq> set ps"
        using avail_names [of "parse_accept_encoding api raw" gz br zst] by (auto simp: ps_def)
      from find_priority [OF this] Cons obtain e where
        e: "find (\<lambda>name. list_ex (\<lambda>(n, _). n = name) ?av) ps = Some e" "e \<in> fst ` set ?av" by auto
      then have "pick_best_encoding_sized api accept gz br zst hint = Some e"
        using raw Cons False by (simp add: pick_best_encoding_sized_def unwrap_or_def q_max_def q_min_def ps_def)
      moreover obtain q where q: "(e, q) \<in> set ?av" using e(2) by auto
      moreover have "q_min \<le> q_max" using bounds [OF q] by simp
      from small_difference [OF assms False this] have "q' \<le> q + 1 / 900" if "(e', q') \<in> set ?av" for e' q'
        using bounds [OF that] bounds [OF q] by simp
      ultimately show ?thesis by blast
    qed
    then show ?thesis using raw by (auto simp: offered_avail)
  qed
qed

definition demo_f32 :: f32_api where
  "demo_f32 = \<lparr>f_parse = (\<lambda>s. if s = ''0.5'' then Some (F (1 / 2)) else if s = ''0'' then Some (F 0) else None),
     f_sub = (-)\<rparr>"

lemma demo_f32_rounded: "rounded_sub demo_f32"
  by (simp add: rounded_sub_def demo_f32_def)

theorem pick_encoding_acceptable_witness:
  "pick_best_encoding_sized demo_f32 (Some ''gzip, br;q=0.5, zstd;q=0'') True True True None = Some ''gzip'' \<and>
   (\<exists>q. offered demo_f32 ''gzip, br;q=0.5, zstd;q=0'' True True True ''gzip'' q)"
proof -
  have p: "pick_best_encoding_sized demo_f32 (Some ''gzip, br;q=0.5, zstd;q=0'') True True True None = Some ''gzip''"
    by code_simp
  from pick_encoding_acceptable [OF demo_f32_rounded, of "Some ''gzip, br;q=0.5, zstd;q=0''" True True True None] p
  show ?thesis by auto
qed

text \<open>
  When the client does rank the encodings, of several with the same highest quality the last of
  brotli, zstd and gzip is taken.
\<close>

lemma equal_quality_prefers_gzip:
  "pick_best_encoding demo_f32 (Some ''gzip, br, zstd;q=0.5'') True True True = Some ''gzip''"
  by code_simp

text \<open>A site cannot switch gzip off with its \<^verbatim>\<open>compress\<close> block while the global \<^verbatim>\<open>gzip\<close> option is on.\<close>

lemma site_cannot_disable_gzip:
  assumes "si_gzip site = None" "gc_gzip global"
  shows "gz_en (effective_compress site global)"
  using assms by (simp add: effective_compress_def Let_def unwrap_or_def)

section \<open>Compressed responses are well formed\<close>

text \<open>
  Compressing a dynamic response either leaves it alone or yields a consistent one. A response
  that already has a Content-Encoding is never touched; otherwise the new one names the encoding
  that was applied, exactly once, at a level within the encoder's range, the length of the
  uncompressed body is gone, status and every other header are kept, except that Vary is replaced
  by Accept-Encoding, so that what the upstream varies on is lost.
\<close>

theorem compress_response_consistent:
  fixes resp :: "'b web_response"
  shows "compress_response api encode accept cs resp = resp \<or>
    (\<exists>enc. pick_best_encoding_sized api accept (gz_en cs) (br_en cs) (zst_en cs)
        (Option.bind (hm_get ''content-length'' (wr_headers resp)) parse_u64) = Some enc \<and>
      (let resp' = compress_response api encode accept cs resp in
        wr_headers resp ''content-encoding'' = [] \<and> wr_headers resp' ''content-encoding'' = [enc] \<and>
        wr_headers resp' ''content-length'' = [] \<and> wr_headers resp' ''vary'' = [''Accept-Encoding''] \<and>
        (\<forall>k. k \<notin> {''content-encoding'', ''content-length'', ''vary''} \<longrightarrow> wr_headers resp' k = wr_headers resp k) \<and>
        wr_status resp' = wr_status resp \<and> (\<exists>lv \<le> 22. wr_body resp' = encode enc lv (wr_body resp))))"
proof (cases "compress_response api encode accept cs resp = resp")
  case False
  then obtain enc where enc: "pick_best_encoding_sized api accept (gz_en cs) (br_en cs) (zst_en cs)
        (Option.bind (hm_get ''content-length'' (wr_headers resp)) parse_u64) = Some enc"
    and none: "wr_headers resp ''content-encoding'' = []"
    and r: "compress_response api encode accept cs resp =
      resp\<lparr>wr_headers := hm_insert ''vary'' ''Accept-Encoding'' (hm_insert ''content-encoding'' enc
             (hm_remove ''content-length'' (wr_headers resp))),
           wr_body := encode enc (encoder_level enc cs) (wr_body resp)\<rparr>"
    by (auto simp: compress_response_def Let_def hm_contains_def split: if_splits option.splits)
  have "encoder_level enc cs \<le> 22"
    by (auto simp: encoder_level_def min_def max_def intro: order_trans)
  with enc none r show ?thesis by (auto simp: Let_def hm_defs)
qed simp

definition demo_resp :: "string web_response" where
  "demo_resp = \<lparr>wr_status = 200, wr_headers = hm_insert ''content-type'' ''text/html''
     (hm_insert ''etag'' ''x'' (hm_insert ''vary'' ''Cookie'' no_headers)), wr_body = ''hello''\<rparr>"

definition demo_settings :: compress_settings where
  "demo_settings = \<lparr>gz_en = True, gz_lv = 6, br_en = False, br_lv = 4, zst_en = False, zst_lv = 3\<rparr>"

theorem compress_response_consistent_witness:
  "wr_headers (compress_response demo_f32 (\<lambda>e _ b. e @ b) (Some ''gzip'') demo_settings demo_resp) ''vary'' = [''Accept-Encoding''] \<and>
   wr_headers (compress_response demo_f32 (\<lambda>e _ b. e @ b) (Some ''gzip'') demo_settings demo_resp) ''etag'' = [''x'']"
proof -
  let ?r = "compress_response demo_f32 (\<lambda>e _ b. e @ b) (Some ''gzip'') demo_settings demo_resp"
  have "wr_body ?r = ''gziphello''" by code_simp
  then have "?r \<noteq> demo_resp" by (auto simp: demo_resp_def)
  with compress_response_consistent [of demo_f32 "\<lambda>e _ b. e @ b" "Some ''gzip''" demo_settings demo_resp]
  have "wr_headers ?r ''vary'' = [''Accept-Encoding''] \<and>
      (\<forall>k. k \<notin> {''content-encoding'', ''content-length'', ''vary''} \<longrightarrow> wr_headers ?r k = wr_headers demo_resp k)"
    unfolding Let_def by blast
  moreover have "wr_headers demo_resp ''etag'' = [''x'']" by (simp add: demo_resp_def hm_defs)
  ultimately show ?thesis by simp
qed

end
