(* ===== verification/Proxy_Handler.thy ===== *)
theory Proxy_Handler
  imports Proxy_Flow Proxy_Cache Compress
begin

text \<open>
  The reverse-proxy handler as a whole: \<open>handle_proxy\<close> of \<^verbatim>\<open>Proxy_Flow\<close> with the response cache of
  \<^verbatim>\<open>Proxy_Cache\<close> in place of its cache (lookup in \<^verbatim>\<open>handler/reverse_proxy/mod.rs\<close>, store in \<^verbatim>\<open>conn.rs\<close>)
  and the treatment of the response on its way to the client.

  Proved: what a request does to the cache is a history of lookups and stores under its own key, so
  that a hit is a response stored for a request of the same method, host and path; a request that
  must bypass the cache still fills it; a hit replays the headers of the upstream unfiltered.
\<close>

section \<open>Responses\<close>

type_synonym proxy_resp = resp

definition proxy_error_page :: "nat \<Rightarrow> proxy_resp" where
  "proxy_error_page status = error_resp status"

definition proxied_response :: "proxied \<Rightarrow> proxy_resp" where
  "proxied_response p =
     \<lparr>wr_status = px_status p, wr_headers = run_ops (px_headers p) no_headers,
      wr_body = (case px_body p of Some b \<Rightarrow> Bytes b | None \<Rightarrow> NoBody)\<rparr>"

section \<open>The cache in the handler\<close>

definition request_key :: "client_request \<Rightarrow> cache_key" where
  "request_key rq = cache_key_new (cl_method rq) (client_host rq) (proxy_path rq)"

text \<open>The raw value of a header; one that is not visible ASCII is not empty.\<close>

definition raw_header :: "client_request \<Rightarrow> string \<Rightarrow> string option" where
  "raw_header rq name =
     (case find (\<lambda>(k, v). eq_ignore_case k name) (cl_headers rq) of
        Some (k, v) \<Rightarrow> Some (unwrap_or v ''?'') | None \<Rightarrow> None)"

definition cached_response :: "header_api \<Rightarrow> cache_entry \<Rightarrow> proxy_resp" where
  "cached_response api e =
     \<lparr>wr_status = status_or_ok (unat (ce_status e)),
      wr_headers = hm_insert ''x-cache-status'' ''HIT'' (hm_insert ''x-cache'' ''HIT''
        (run_ops (concat (map (\<lambda>(k, v). insert_checked api k v) (ce_headers e))) no_headers)),
      wr_body = Bytes (ce_body e)\<rparr>"

definition proxy_lookup ::
  "header_api \<Rightarrow> cache_env \<Rightarrow> nat \<Rightarrow> client_request \<Rightarrow> proxy_cache option \<Rightarrow> proxy_resp option \<times> proxy_cache option" where
  "proxy_lookup api cenv now rq cache =
     (case cache of
        None \<Rightarrow> (None, None)
      | Some c \<Rightarrow>
          if should_lookup c (cl_method rq) (raw_header rq) then
            (case cache_get cenv now (request_key rq) c of
               (Some e, c) \<Rightarrow> (Some (cached_response api e), Some c)
             | (None, c) \<Rightarrow> (None, Some c))
          else (None, Some c))"

text \<open>The pending write to disk is left to its task.\<close>

definition proxy_store :: "cache_env \<Rightarrow> nat \<Rightarrow> client_request \<Rightarrow> proxied \<Rightarrow> proxy_cache option \<Rightarrow> proxy_cache option" where
  "proxy_store cenv now rq p cache =
     (case cache of
        None \<Rightarrow> None
      | Some c \<Rightarrow>
          (case px_store p of
             None \<Rightarrow> Some c
           | Some (status, headers, body) \<Rightarrow>
               if is_cacheable c (word_of_nat status) headers
               then Some (fst (cache_set cenv now (request_key rq) (word_of_nat status) headers body c))
               else Some c))"

section \<open>On the way to the client\<close>

definition hide_headers :: "header_api \<Rightarrow> string list \<Rightarrow> header_map \<Rightarrow> header_map" where
  "hide_headers api names h =
     fold (\<lambda>name h. case name_from_bytes api name of Some hdr \<Rightarrow> hm_remove hdr h | None \<Rightarrow> h) names h"

definition finish_response ::
  "'re regex_api \<Rightarrow> header_api \<Rightarrow> f32_api \<Rightarrow> compress_settings \<Rightarrow> location_config \<Rightarrow> client_request \<Rightarrow> bool
     \<Rightarrow> 're re_cache \<Rightarrow> proxy_resp \<Rightarrow> proxy_resp \<times> 're re_cache" where
  "finish_response rx api f32 cs loc rq has_cache rc resp =
     (let h1 = (if has_cache then hm_insert ''x-cache'' ''MISS'' (wr_headers resp) else wr_headers resp);
          h2 = hide_headers api (loc_proxy_hide_headers loc) h1;
          (ops, rc) = apply_extra_headers rx api (wr_status resp) (loc_add_headers loc) (loc_cache_rules loc)
                        (proxy_path rq) (cl_ip rq) (scheme_str rq) rc
      in (compress_response f32 Encoded (get_header ''accept-encoding'' rq) cs (resp\<lparr>wr_headers := run_ops ops h2\<rparr>), rc))"

text \<open>The two other transports build their own response; the first exchange has the index 0.\<close>

record 're handler_env =
  he_rx :: "'re regex_api"
  he_api :: header_api
  he_f32 :: f32_api
  he_cenv :: cache_env
  he_now :: nat
  he_store_at :: nat
  he_settings :: compress_settings

definition as_resp :: "(proxied + proxy_resp) \<Rightarrow> proxy_resp" where
  "as_resp r = (case r of Inl p \<Rightarrow> proxied_response p | Inr resp \<Rightarrow> resp)"

definition serve_proxy ::
  "'re handler_env \<Rightarrow> ('b, proxied + proxy_resp) proxy_env \<Rightarrow> (nat \<Rightarrow> proxied + proxy_resp)
     \<Rightarrow> (nat \<Rightarrow> anyhow_error + (proxied + proxy_resp)) \<Rightarrow> location_config \<Rightarrow> client_request \<Rightarrow> 'b \<Rightarrow> 're re_cache
     \<Rightarrow> proxy_cache option \<Rightarrow> upstream_registry
     \<Rightarrow> (proxy_resp \<times> 're re_cache \<times> proxy_cache option \<times> upstream_registry) outcome" where
  "serve_proxy he env ws h2 loc rq body rc cache pools =
     (let lookup = (\<lambda>c. case proxy_lookup (he_api he) (he_cenv he) (he_now he) rq c of
                         (r, c) \<Rightarrow> (map_option Inr r, c));
          store = (\<lambda>r c. case r of Inl p \<Rightarrow> proxy_store (he_cenv he) (he_store_at he) rq p c | Inr _ \<Rightarrow> c);
          finish = finish_response (he_rx he) (he_api he) (he_f32 he) (he_settings he) loc rq (cache \<noteq> None) rc
      in bind_outcome (handle_proxy env ws h2 lookup store loc rq body cache pools) (\<lambda>(reply, cache, pools).
           let (resp, rc) = (case reply of
                 ErrorReply code \<Rightarrow> (proxy_error_page code, rc)
               | CachedReply r \<Rightarrow> (as_resp r, rc)
               | UpstreamReply r \<Rightarrow> finish (as_resp r)
               | FailedReply code \<Rightarrow> finish (proxy_error_page code))
           in Val (resp, rc, cache, pools)))"

section \<open>What a request does to the cache\<close>

definition own_op :: "cache_key \<Rightarrow> nat \<times> (cache_key, u16 \<times> (string \<times> string) list \<times> string) cache_op \<Rightarrow> bool" where
  "own_op key ev = (case snd ev of Store k v \<Rightarrow> k = key | Fetch k \<Rightarrow> k = key | Clear \<Rightarrow> False)"

text \<open>A cache reached from another by operations under one key.\<close>

definition cache_moves :: "cache_env \<Rightarrow> cache_key \<Rightarrow> proxy_cache option \<Rightarrow> proxy_cache option \<Rightarrow> bool" where
  "cache_moves cenv key c c' \<longleftrightarrow>
     (\<exists>ops. (\<forall>ev\<in>set ops. own_op key ev) \<and> c' = map_option (fold (cache_op_step cenv) ops) c)"

lemma cache_moves_refl: "cache_moves cenv key c c"
  unfolding cache_moves_def by (rule exI [of _ "[]"]) (simp add: option.map_id)

lemma cache_moves_step: "own_op key ev \<Longrightarrow> cache_moves cenv key (Some c) (Some (cache_op_step cenv ev c))"
  unfolding cache_moves_def by (rule exI [of _ "[ev]"]) simp

lemma cache_moves_trans:
  assumes "cache_moves cenv key a b" "cache_moves cenv key b c"
  shows "cache_moves cenv key a c"
proof -
  from assms obtain o1 o2 where "\<forall>ev\<in>set o1. own_op key ev" "b = map_option (fold (cache_op_step cenv) o1) a"
    "\<forall>ev\<in>set o2. own_op key ev" "c = map_option (fold (cache_op_step cenv) o2) b"
    unfolding cache_moves_def by blast
  then show ?thesis unfolding cache_moves_def
    by (intro exI [of _ "o1 @ o2"]) (auto simp: option.map_comp comp_def)
qed

lemma proxy_lookup_moves: "cache_moves cenv (request_key rq) c (snd (proxy_lookup api cenv now rq c))"
proof (cases c)
  case (Some c0)
  have "cache_moves cenv (request_key rq) (Some c0) (Some (snd (cache_get cenv now (request_key rq) c0)))"
    using cache_moves_step [of "request_key rq" "(now, Fetch (request_key rq))"] by (simp add: own_op_def)
  then show ?thesis using Some cache_moves_refl
    by (auto simp: proxy_lookup_def split: option.splits prod.splits)
qed (simp add: proxy_lookup_def cache_moves_refl)

lemma proxy_store_moves: "cache_moves cenv (request_key rq) c (proxy_store cenv now rq p c)"
proof (cases c)
  case (Some c0)
  have "cache_moves cenv (request_key rq) (Some c0)
      (Some (fst (cache_set cenv now (request_key rq) st hs b c0)))" for st hs b
    using cache_moves_step [of "request_key rq" "(now, Store (request_key rq) (st, hs, b))" cenv c0]
    by (simp add: own_op_def)
  then show ?thesis using Some cache_moves_refl
    by (auto simp: proxy_store_def split: option.splits prod.splits)
qed (simp add: proxy_store_def cache_moves_refl)

lemma store_calls_moves:
  assumes "\<And>r c. cache_moves cenv key c (store r c)"
  shows "cache_moves cenv key c (store_calls env store k calls c)"
proof (induction calls arbitrary: k c)
  case (Cons call calls)
  obtain i body where call: "call = (i, body)" by (cases call)
  show ?case
  proof (cases "pe_forward env k i body")
    case (Inl e)
    then show ?thesis using Cons.IH call by simp
  next
    case (Inr r)
    then show ?thesis using cache_moves_trans [OF assms Cons.IH] call by simp
  qed
qed (simp add: cache_moves_refl)

lemma handle_proxy_moves:
  assumes "handle_proxy env ws h2 lookup store loc rq body c pools = Val (reply, c', pools')"
    and l: "cache_moves cenv key c (snd (lookup c))" and s: "\<And>r c. cache_moves cenv key c (store r c)"
  shows "cache_moves cenv key c c'"
proof -
  obtain r c1 where lk: "lookup c = (r, c1)" by fastforce
  have "c' = c \<or> c' = c1 \<or> (\<exists>calls. c' = store_calls env store 0 calls c1)"
    using assms(1) lk by (auto simp: handle_proxy_def bind_outcome_Val split: option.splits if_splits)
  moreover have c1: "cache_moves cenv key c c1" using l lk by simp
  moreover have "cache_moves cenv key c (store_calls env store 0 calls c1)" for calls
    by (rule cache_moves_trans [OF c1 store_calls_moves [OF s]])
  ultimately show ?thesis by (auto simp: cache_moves_refl)
qed

lemma serve_proxy_moves:
  assumes "serve_proxy he env ws h2 loc rq body rc c pools = Val (resp, rc', c', pools')"
  shows "cache_moves (he_cenv he) (request_key rq) c c'"
proof -
  from assms obtain reply where h: "handle_proxy env ws h2
      (\<lambda>c. (map_option Inr (fst (proxy_lookup (he_api he) (he_cenv he) (he_now he) rq c)),
            snd (proxy_lookup (he_api he) (he_cenv he) (he_now he) rq c)))
      (\<lambda>r c. case r of Inl p \<Rightarrow> proxy_store (he_cenv he) (he_store_at he) rq p c | Inr _ \<Rightarrow> c)
      loc rq body c pools = Val (reply, c', pools')"
    by (auto simp: serve_proxy_def Let_def bind_outcome_Val split_beta)
  show ?thesis
    by (rule handle_proxy_moves [OF h])
      (auto simp: proxy_lookup_moves proxy_store_moves cache_moves_refl split: sum.splits)
qed

section \<open>A sequence of requests\<close>

record ('re, 'b) proxy_call =
  call_he :: "'re handler_env"
  call_env :: "('b, proxied + proxy_resp) proxy_env"
  call_ws :: "nat \<Rightarrow> proxied + proxy_resp"
  call_h2 :: "nat \<Rightarrow> anyhow_error + (proxied + proxy_resp)"
  call_loc :: location_config
  call_rq :: client_request
  call_body :: 'b

fun serve_all ::
  "('re, 'b) proxy_call list \<Rightarrow> 're re_cache \<times> proxy_cache option \<times> upstream_registry
     \<Rightarrow> ('re re_cache \<times> proxy_cache option \<times> upstream_registry) outcome" where
  "serve_all [] st = Val st"
| "serve_all (k # ks) (rc, cache, pools) =
     bind_outcome (serve_proxy (call_he k) (call_env k) (call_ws k) (call_h2 k) (call_loc k) (call_rq k) (call_body k)
         rc cache pools)
       (\<lambda>(resp, st). serve_all ks st)"

lemma serve_all_history:
  assumes "serve_all ks (rc, c, pools) = Val (rc', c', pools')" "\<forall>k\<in>set ks. he_cenv (call_he k) = cenv"
  shows "\<exists>ops. c' = map_option (fold (cache_op_step cenv) ops) c \<and>
     (\<forall>ev\<in>set ops. \<exists>k\<in>set ks. own_op (request_key (call_rq k)) ev)"
  using assms
proof (induction ks arbitrary: rc c pools)
  case Nil
  then show ?case by (intro exI [of _ "[]"]) (simp add: option.map_ident)
next
  case (Cons k ks)
  from Cons.prems(1) obtain resp rc1 c1 pools1 where
    k: "serve_proxy (call_he k) (call_env k) (call_ws k) (call_h2 k) (call_loc k) (call_rq k) (call_body k) rc c pools
      = Val (resp, rc1, c1, pools1)" and ks: "serve_all ks (rc1, c1, pools1) = Val (rc', c', pools')"
    by (auto simp: bind_outcome_Val)
  from serve_proxy_moves [OF k] Cons.prems(2) obtain o1 where
    o1: "\<forall>ev\<in>set o1. own_op (request_key (call_rq k)) ev" "c1 = map_option (fold (cache_op_step cenv) o1) c"
    by (auto simp: cache_moves_def)
  from Cons.IH [OF ks] Cons.prems(2) obtain o2 where
    o2: "c' = map_option (fold (cache_op_step cenv) o2) c1" "\<forall>ev\<in>set o2. \<exists>k\<in>set ks. own_op (request_key (call_rq k)) ev"
    by auto
  have "c' = map_option (fold (cache_op_step cenv) (o1 @ o2)) c"
    using o1(2) o2(1) by (cases c) simp_all
  moreover have "\<forall>ev\<in>set (o1 @ o2). \<exists>k\<in>set (k # ks). own_op (request_key (call_rq k)) ev"
    using o1(1) o2(2) by auto
  ultimately show ?case by blast
qed

lemma last_store_in:
  assumes "last_store k tr = Some (t, v)"
  shows "(t, Store k v) \<in> set tr"
  using assms
proof (induction tr rule: rev_induct)
  case (snoc ev tr)
  obtain t' a where ev: "ev = (t', a)" by (cases ev)
  show ?case using snoc ev by (cases a) (auto simp: last_store_def split: if_splits)
qed (simp add: last_store_def)

lemma lower_upper_char: "lower_char (upper_char c) = lower_char c"
proof (cases "is_ascii_lower c")
  case True
  define n where "n = (of_char c :: nat)"
  have n: "97 \<le> n" "n \<le> 122" using True by (simp_all add: n_def is_ascii_lower_def)
  have c: "c = char_of n" by (simp add: n_def)
  have "upper_char c = char_of (n - 32)" using True by (simp add: upper_char_def n_def)
  moreover have "of_char (char_of (n - 32) :: char) = n - 32" using n by simp
  ultimately have "is_ascii_upper (upper_char c)" "of_char (upper_char c) = n - 32"
    using n by (auto simp: is_ascii_upper_def)
  moreover have "n - 32 + 32 = n" using n by simp
  ultimately have "lower_char (upper_char c) = c" using c by (simp add: lower_char_def)
  moreover have "lower_char c = c" using n by (simp add: lower_char_def is_ascii_upper_def n_def)
  ultimately show ?thesis by simp
qed (simp add: upper_char_def)

lemma cache_key_method: "ascii_lower (ck_method (cache_key_new m h p)) = ascii_lower m"
  by (simp add: cache_key_new_def ascii_lower_def ascii_upper_def lower_upper_char)

lemma cache_key_host: "ascii_lower (ck_host (cache_key_new m h p)) = ascii_lower h"
  by (simp add: cache_key_new_def)

lemma request_key_eq:
  assumes "request_key rq' = request_key rq"
  shows "eq_ignore_case (cl_method rq') (cl_method rq) \<and> eq_ignore_case (client_host rq') (client_host rq) \<and>
    proxy_path rq' = proxy_path rq"
proof -
  have "ck_path (cache_key_new m h p) = p" for m h p by (simp add: cache_key_new_def)
  with assms show ?thesis
    unfolding request_key_def eq_ignore_case_def by (metis cache_key_method cache_key_host)
qed


section \<open>What bypasses the cache fills it\<close>

lemma cache_get_set:
  assumes "iter_permutes env" "t' - t \<le> pc_ttl c"
  shows "fst (cache_get env t' key (fst (cache_set env t key st hs b c))) =
    Some \<lparr>ce_status = st, ce_headers = hs, ce_body = b, ce_created_at = t, ce_ttl = pc_ttl c\<rparr>"
  using assms(2) by (simp add: cache_get_def cache_set_def Let_def update_conv' is_expired_def)

lemma should_lookup_set: "should_lookup (fst (cache_set env t key st hs b c)) = should_lookup c"
  by (intro ext) (simp add: should_lookup_def cache_set_def Let_def evict_def split_beta)

lemma proxy_lookup_hit:
  assumes "should_lookup c (cl_method rq) (raw_header rq)" "fst (cache_get cenv now (request_key rq) c) = Some e"
  shows "fst (proxy_lookup api cenv now rq (Some c)) = Some (cached_response api e)"
  using assms by (cases "cache_get cenv now (request_key rq) c") (simp add: proxy_lookup_def)

lemma proxy_store_lookup:
  assumes "px_store p = Some (status, headers, body)" "is_cacheable c (word_of_nat status) headers"
    and "request_key rq' = request_key rq" "should_lookup c (cl_method rq') (raw_header rq')"
    and "iter_permutes cenv" "t' - t \<le> pc_ttl c"
  shows "fst (proxy_lookup api cenv t' rq' (proxy_store cenv t rq p (Some c))) =
    Some (cached_response api \<lparr>ce_status = word_of_nat status, ce_headers = headers, ce_body = body,
      ce_created_at = t, ce_ttl = pc_ttl c\<rparr>)"
proof -
  have "proxy_store cenv t rq p (Some c) =
      Some (fst (cache_set cenv t (request_key rq') (word_of_nat status) headers body c))"
    using assms(1-3) by (simp add: proxy_store_def)
  then show ?thesis
    using proxy_lookup_hit [OF _ cache_get_set [OF assms(5,6)]] assms(4) by (simp add: should_lookup_set)
qed

text \<open>
  A request that carries a bypass header (Authorization, Cookie) is not answered from the cache,
  but its response is stored under the same key as everybody else's: any later request for the same
  resource without such a header is answered with it, body and all. The configuration manual says
  that the headers skip reading and writing.
\<close>

theorem bypassed_response_is_shared:
  assumes "\<not> should_lookup c (cl_method rq) (raw_header rq)"
    and "px_store p = Some (status, headers, body)" and "is_cacheable c (word_of_nat status) headers"
    and "request_key rq' = request_key rq" and "should_lookup c (cl_method rq') (raw_header rq')"
    and "iter_permutes cenv" and "t' - t \<le> pc_ttl c"
  shows "\<exists>resp. fst (proxy_lookup api cenv t' rq' (proxy_store cenv t rq p (Some c))) = Some resp \<and>
    wr_body resp = Bytes body"
  using proxy_store_lookup [OF assms(2-7)] by (simp add: cached_response_def)

section \<open>A hit replays the upstream's headers\<close>

lemma inserted_last:
  assumes "name_from_bytes api k = Some n" "value_from_str api v = Some w"
    and "\<forall>(k', v')\<in>set post. name_from_bytes api k' \<noteq> Some n"
  shows "run_ops (concat (map (\<lambda>(k, v). insert_checked api k v) (pre @ (k, v) # post))) h n = [w]"
proof -
  have "\<forall>op\<in>set (concat (map (\<lambda>(k, v). insert_checked api k v) post)). op_name op \<noteq> n"
    using assms(3) by (auto dest: insert_checked_name)
  moreover have "insert_checked api k v = [HInsert n w]" using assms(1,2) by (simp add: insert_checked_def)
  ultimately show ?thesis by (simp add: run_ops_other hm_defs)
qed

text \<open>
  A cache hit sends every header the upstream sent, connection-level ones included, with the
  upstream's value, although the same response had them removed or rewritten when it was first
  delivered: a Transfer-Encoding or Content-Length of the upstream accompanies the filtered body,
  and Location, Set-Cookie and the headers a location hides or adds are neither rewritten nor
  removed nor added.
\<close>

theorem cache_hit_replays_headers:
  assumes "px_store p = Some (status, pre @ (k, v) # post, body)"
    and "is_cacheable c (word_of_nat status) (pre @ (k, v) # post)"
    and "request_key rq' = request_key rq" and "should_lookup c (cl_method rq') (raw_header rq')"
    and "iter_permutes cenv" and "t' - t \<le> pc_ttl c"
    and "name_from_bytes api k = Some n" and "value_from_str api v = Some w"
    and "\<forall>(k', v')\<in>set post. name_from_bytes api k' \<noteq> Some n" and "n \<notin> {''x-cache'', ''x-cache-status''}"
  shows "\<exists>resp. fst (proxy_lookup api cenv t' rq' (proxy_store cenv t rq p (Some c))) = Some resp \<and>
    wr_headers resp n = [w] \<and> wr_body resp = Bytes body"
  using proxy_store_lookup [OF assms(1-6), of api] inserted_last [OF assms(7-9)] assms(10)
  by (simp add: cached_response_def hm_insert_def)

section \<open>Example\<close>

definition demo_get :: "(string \<times> string option) list \<Rightarrow> client_request" where
  "demo_get hs = \<lparr>cl_method = ''GET'', cl_path_and_query = Some ''/me'', cl_uri_path = ''/me'',
     cl_authority = None, cl_headers = (''host'', Some ''h'') # hs, cl_scheme = None, cl_is_tls = False,
     cl_h2_ws = False, cl_ip = ''1.2.3.4''\<rparr>"

definition demo_page :: proxied where
  "demo_page = \<lparr>px_status = 200, px_body = Some ''secret'', px_headers = [],
     px_store = Some (200, [(''Content-Type'', ''text/html''), (''Transfer-Encoding'', ''chunked'')], ''secret''),
     px_reuse = True, px_rest = []\<rparr>"

definition demo_cache :: proxy_cache where
  "demo_cache = cache_from_config ascii_upper ascii_lower Map.empty serde_proxy_cache_config"

definition demo_call :: "(unit, unit) proxy_call" where
  "demo_call =
     \<lparr>call_he = \<lparr>he_rx = \<lparr>re_build = (\<lambda>_. None), re_is_match = (\<lambda>_ _. False), re_replace_all = (\<lambda>_ _ b. b)\<rparr>,
        he_api = demo_api, he_f32 = demo_f32, he_cenv = demo_cache_env, he_now = 0, he_store_at = 5,
        he_settings = demo_settings\<rparr>,
      call_env = \<lparr>pe_pick_clk = (\<lambda>_ _ _. 0), pe_record_clk = (\<lambda>_ _. 0), pe_forward = (\<lambda>_ _ _. Inr (Inl demo_page)),
        pe_status = (\<lambda>_. 200), pe_default_body = ()\<rparr>,
      call_ws = (\<lambda>_. Inl demo_page), call_h2 = (\<lambda>_. Inr (Inl demo_page)), call_loc = demo_loc,
      call_rq = demo_get [(''Authorization'', Some ''x'')], call_body = ()\<rparr>"

lemmas demo_cache_eval = demo_cache_def cache_from_config_def serde_proxy_cache_config_def

lemma demo_bypassed:
  "\<not> should_lookup demo_cache (cl_method (demo_get [(''Authorization'', Some ''x'')])) (raw_header (demo_get [(''Authorization'', Some ''x'')]))"
  by (simp add: should_lookup_def raw_header_def demo_get_def demo_cache_eval case_eval unwrap_or_def)

lemma demo_looked_up: "should_lookup demo_cache (cl_method (demo_get [])) (raw_header (demo_get []))"
  by (simp add: should_lookup_def raw_header_def demo_get_def demo_cache_eval case_eval)

lemma demo_cacheable:
  "is_cacheable demo_cache (word_of_nat 200) [(''Content-Type'', ''text/html''), (''Transfer-Encoding'', ''chunked'')]"
  by (simp add: is_cacheable_def demo_cache_eval case_eval)

lemma demo_same_key: "request_key (demo_get []) = request_key (demo_get [(''Authorization'', Some ''x'')])"
  by (simp add: request_key_def demo_get_def client_host_def get_header_def proxy_path_def case_eval)

theorem bypassed_response_is_shared_witness:
  "\<exists>resp. fst (proxy_lookup demo_api demo_cache_env 7 (demo_get [])
      (proxy_store demo_cache_env 5 (demo_get [(''Authorization'', Some ''x'')]) demo_page (Some demo_cache))) = Some resp \<and>
    wr_body resp = Bytes ''secret''"
  by (rule bypassed_response_is_shared [OF demo_bypassed _ demo_cacheable demo_same_key demo_looked_up demo_cache_env_iter])
    (simp_all add: demo_page_def demo_cache_eval)

lemma demo_picked:
  "pick (\<lambda>_ _. 0) ip (demo_pool RoundRobin) = Val (Some 1, (demo_pool RoundRobin)\<lparr>up_rr_counter := 1\<rparr>)"
proof -
  have "\<forall>p::nat. settled_all ((\<lambda>_ _. 0) p) (up_nodes (demo_pool RoundRobin))" using demo_pool_settled by blast
  then show ?thesis using pick_round_robin [of "\<lambda>_ _. 0" "demo_pool RoundRobin" ip] by simp
qed

lemma demo_forward:
  "\<exists>pool'. forward_node (call_env demo_call) ws h2 (call_rq demo_call) () 1 (add_active 1 1 ((demo_pool RoundRobin)\<lparr>up_rr_counter := 1\<rparr>))
     = Val (UpstreamReply (Inl demo_page), 1, pool', [(1, ())])"
proof -
  let ?p = "add_active 1 1 ((demo_pool RoundRobin)\<lparr>up_rr_counter := 1\<rparr>)"
  have ws: "\<not> is_ws (call_rq demo_call)" by (simp add: is_ws_def demo_call_def demo_get_def get_header_def case_eval)
  have h2: "\<not> ns_http2 (up_nodes ?p ! 1)"
    by (simp add: add_active_def update_node_def demo_node_def node_new_def serde_upstream_node_def Let_def)
  obtain l where l: "max_attempts ?p = Suc l" by (cases "max_attempts ?p") (auto simp: max_attempts_def split: if_splits)
  have env: "pe_forward (call_env demo_call) = (\<lambda>_ _ _. Inr (Inl demo_page))" "pe_status (call_env demo_call) = (\<lambda>_. 200)"
    by (simp_all add: demo_call_def)
  have "\<not> matches_status f 200" for f by (simp add: matches_status_def)
  then show ?thesis using ws h2 unfolding forward_node_def forward_h1_def l by (simp add: env Let_def unwrap_or_def)
qed

lemma demo_served:
  "\<exists>rc' pools'. serve_all [demo_call] (Map.empty, Some demo_cache, [''app'' \<mapsto> demo_pool RoundRobin]) =
     Val (rc', proxy_store demo_cache_env 5 (call_rq demo_call) demo_page (Some demo_cache), pools')"
proof -
  let ?l = "\<lambda>c. case proxy_lookup demo_api demo_cache_env 0 (call_rq demo_call) c of (r, c) \<Rightarrow> (map_option Inr r, c)"
  let ?s = "\<lambda>r c. case r of Inl p \<Rightarrow> proxy_store demo_cache_env 5 (call_rq demo_call) p c | Inr _ \<Rightarrow> c"
  let ?reg = "[''app'' \<mapsto> demo_pool RoundRobin]"
  have l: "proxy_lookup demo_api demo_cache_env 0 (call_rq demo_call) (Some demo_cache) = (None, Some demo_cache)"
    using demo_bypassed by (simp add: proxy_lookup_def demo_call_def)
  have f: "pe_forward (call_env demo_call) = (\<lambda>_ _ _. Inr (Inl demo_page))" "pe_pick_clk (call_env demo_call) 0 = (\<lambda>_ _. 0)"
    by (simp_all add: demo_call_def)
  have "\<not> eq_ignore_case (cl_method (call_rq demo_call)) ''CONNECT''" by (simp add: demo_call_def demo_get_def case_eval)
  moreover obtain pool' where "forward_node (call_env demo_call) (call_ws demo_call) (call_h2 demo_call) (call_rq demo_call) () 1
      (add_active 1 1 ((demo_pool RoundRobin)\<lparr>up_rr_counter := 1\<rparr>)) = Val (UpstreamReply (Inl demo_page), 1, pool', [(1, ())])"
    using demo_forward by blast
  ultimately have "\<exists>pools'. handle_proxy (call_env demo_call) (call_ws demo_call) (call_h2 demo_call) ?l ?s demo_loc
      (call_rq demo_call) () (Some demo_cache) ?reg =
      Val (UpstreamReply (Inl demo_page), proxy_store demo_cache_env 5 (call_rq demo_call) demo_page (Some demo_cache), pools')"
    by (simp add: handle_proxy_def registry_get_def demo_loc_def f demo_picked l)
  then obtain pools' where "handle_proxy (call_env demo_call) (call_ws demo_call) (call_h2 demo_call) ?l ?s demo_loc
      (call_rq demo_call) () (Some demo_cache) ?reg =
      Val (UpstreamReply (Inl demo_page), proxy_store demo_cache_env 5 (call_rq demo_call) demo_page (Some demo_cache), pools')" ..
  moreover have he: "he_api (call_he demo_call) = demo_api" "he_cenv (call_he demo_call) = demo_cache_env"
    "he_now (call_he demo_call) = 0" "he_store_at (call_he demo_call) = 5" "call_loc demo_call = demo_loc"
    "call_body demo_call = ()" by (simp_all add: demo_call_def)
  ultimately show ?thesis unfolding serve_all.simps serve_proxy_def he Let_def by (simp add: split_beta)
qed


theorem cache_hit_replays_headers_witness:
  "\<exists>resp. fst (proxy_lookup demo_api demo_cache_env 7 (demo_get [])
      (proxy_store demo_cache_env 5 (demo_get [(''Authorization'', Some ''x'')]) demo_page (Some demo_cache))) = Some resp \<and>
    wr_headers resp ''transfer-encoding'' = [''chunked''] \<and> wr_body resp = Bytes ''secret''"
  by (rule cache_hit_replays_headers [OF _ _ demo_same_key demo_looked_up demo_cache_env_iter, of demo_page 200
        "[(''Content-Type'', ''text/html'')]" "''Transfer-Encoding''" "''chunked''" "[]" "''secret''"])
    (use demo_cacheable in \<open>simp_all add: demo_page_def demo_cache_eval demo_api_def case_eval\<close>)

end
