(* ===== verification/Static_Path.thy ===== *)
theory Static_Path
  imports Header_Map Http1_Conn
begin

text \<open>
  Paths of static files (\<^verbatim>\<open>src/handler/static_file/path.rs\<close>), byte ranges (\<^verbatim>\<open>range.rs\<close>) and the
  content types, validators and cache policies of \<^verbatim>\<open>src/middleware/cache.rs\<close>.

  Paths are strings in UTF-8. The file system is a parameter: what a path resolves to
  (\<^verbatim>\<open>canonicalize\<close>), its metadata, its content, and the file it opens.
\<close>

section \<open>Paths\<close>

record file_meta =
  fm_is_dir :: bool
  fm_is_file :: bool
  fm_len :: nat
  fm_modified :: nat

record file_sys =
  fs_canon :: "string \<Rightarrow> string option"
  fs_meta :: "string \<Rightarrow> file_meta option"
  fs_read :: "string \<Rightarrow> string option"
  fs_open :: "string \<Rightarrow> nat option"

definition is_file :: "file_sys \<Rightarrow> string \<Rightarrow> bool" where
  "is_file fs p = (case fs_meta fs p of Some m \<Rightarrow> fm_is_file m | None \<Rightarrow> False)"

text \<open>\<^verbatim>\<open>Path::components\<close>: repeated separators and inner dots do not count.\<close>

definition path_components :: "string \<Rightarrow> string list" where
  "path_components p =
     (let segs = filter (\<lambda>s. s \<noteq> []) (split_on CHR ''/'' p)
      in if starts_with p ''/'' then ''/'' # filter (\<lambda>s. s \<noteq> ''.'') segs
         else (case segs of
             s # ss \<Rightarrow> s # filter (\<lambda>s. s \<noteq> ''.'') ss
           | [] \<Rightarrow> []))"

definition path_starts_with :: "string \<Rightarrow> string \<Rightarrow> bool" where
  "path_starts_with p base = starts_with (path_components p) (path_components base)"

definition path_extension :: "string \<Rightarrow> string option" where
  "path_extension p =
     (case rev (path_components p) of
        f # _ \<Rightarrow>
          if f = ''..'' \<or> f = ''/'' then None
          else (case rfind_idx CHR ''.'' f of
              Some (Suc i) \<Rightarrow> Some (drop (Suc (Suc i)) f)
            | _ \<Rightarrow> None)
      | [] \<Rightarrow> None)"

definition query_stripped :: "string \<Rightarrow> string" where
  "query_stripped p = (case split_on CHR ''?'' p of q # _ \<Rightarrow> q | [] \<Rightarrow> p)"

definition path_sep :: "char \<Rightarrow> bool" where
  "path_sep c = (c = CHR ''/'' \<or> c = CHR 0x5C)"

definition resolve_safe_path_with_canon :: "file_sys \<Rightarrow> string \<Rightarrow> string \<Rightarrow> string option \<Rightarrow> string option" where
  "resolve_safe_path_with_canon fs root_dir request_path canonical_root =
     (let path_only = query_stripped request_path
      in if ''..'' \<in> set (split_by path_sep path_only) then None
         else
           (let relative = trim_start_matches path_sep path_only;
                full = path_join root_dir relative;
                cr = (case canonical_root of Some p \<Rightarrow> Some p | None \<Rightarrow> fs_canon fs root_dir)
            in case (fs_canon fs full, cr) of
                 (Some cf, Some cr) \<Rightarrow> if path_starts_with cf cr then Some cf else None
               | (None, Some cr) \<Rightarrow> if starts_with full cr then Some full else None
               | (_, None) \<Rightarrow> None))"

definition resolve_safe_path :: "file_sys \<Rightarrow> string \<Rightarrow> string \<Rightarrow> string option" where
  "resolve_safe_path fs root_dir request_path = resolve_safe_path_with_canon fs root_dir request_path None"

definition resolve_safe_path_fast :: "file_sys \<Rightarrow> string \<Rightarrow> string \<Rightarrow> string option \<Rightarrow> string option" where
  "resolve_safe_path_fast fs root_dir request_path canonical_root =
     resolve_safe_path_with_canon fs root_dir request_path canonical_root"

definition find_index :: "file_sys \<Rightarrow> string \<Rightarrow> string list \<Rightarrow> string option" where
  "find_index fs dir index_files = find (is_file fs) (map (path_join dir) index_files)"

datatype try_files_result = TryFile string | TryCode nat | TryNotFound

fun try_files_resolve_inner ::
  "file_sys \<Rightarrow> string \<Rightarrow> string \<Rightarrow> string list \<Rightarrow> string list \<Rightarrow> try_files_result" where
  "try_files_resolve_inner fs root_dir request_path [] index_files = TryNotFound"
| "try_files_resolve_inner fs root_dir request_path (e # es) index_files =
     (let entry = trim e;
          next = try_files_resolve_inner fs root_dir request_path es index_files
      in case strip_prefix entry ''='' of
           Some code_str \<Rightarrow> (case parse_u16 code_str of Some code \<Rightarrow> TryCode code | None \<Rightarrow> next)
         | None \<Rightarrow>
             (let expanded = str_replace ''$request_uri'' request_path
                               (str_replace ''$uri'' (query_stripped request_path) entry)
              in if ends_with expanded ''/'' then
                   (case resolve_safe_path fs root_dir (trim_end_matches (\<lambda>c. c = CHR ''/'') expanded) of
                      None \<Rightarrow> next
                    | Some dir \<Rightarrow> (case find_index fs dir index_files of Some f \<Rightarrow> TryFile f | None \<Rightarrow> next))
                 else
                   (case resolve_safe_path fs root_dir expanded of
                      None \<Rightarrow> next
                    | Some f \<Rightarrow> if is_file fs f then TryFile f else next)))"

definition try_files_resolve :: "file_sys \<Rightarrow> string list \<Rightarrow> string \<Rightarrow> string option \<Rightarrow> try_files_result" where
  "try_files_resolve fs try_files_list request_path root_opt =
     (case root_opt of
        Some r \<Rightarrow> try_files_resolve_inner fs r request_path try_files_list [''index.php'', ''index.html'']
      | None \<Rightarrow> TryNotFound)"

section \<open>Ranges\<close>

definition parse_range :: "string \<Rightarrow> nat \<Rightarrow> (nat \<times> nat) option" where
  "parse_range range_header file_size =
     (case strip_prefix range_header ''bytes='' of
        None \<Rightarrow> None
      | Some s \<Rightarrow>
          (case splitn 2 CHR ''-'' s of
             a # b # _ \<Rightarrow>
               (let start_str = trim a; end_str = trim b
                in case (if start_str = [] then map_option (\<lambda>suffix. file_size - suffix) (parse_u64 end_str)
                         else parse_u64 start_str) of
                     None \<Rightarrow> None
                   | Some start \<Rightarrow>
                       (case (if end_str = [] then Some (file_size - 1) else parse_u64 end_str) of
                          None \<Rightarrow> None
                        | Some end \<Rightarrow> if end < start \<or> file_size \<le> end then None else Some (start, end)))
           | _ \<Rightarrow> None))"

section \<open>Types, validators and cache policies\<close>

definition MIME_MAP :: "(string \<times> string) list" where
  "MIME_MAP =
     [(''html'', ''text/html; charset=utf-8''), (''htm'', ''text/html; charset=utf-8''),
      (''css'', ''text/css; charset=utf-8''), (''js'', ''application/javascript; charset=utf-8''),
      (''mjs'', ''application/javascript; charset=utf-8''), (''json'', ''application/json; charset=utf-8''),
      (''xml'', ''application/xml; charset=utf-8''), (''txt'', ''text/plain; charset=utf-8''),
      (''png'', ''image/png''), (''jpg'', ''image/jpeg''), (''jpeg'', ''image/jpeg''), (''gif'', ''image/gif''),
      (''webp'', ''image/webp''), (''svg'', ''image/svg+xml''), (''ico'', ''image/x-icon''),
      (''woff'', ''font/woff''), (''woff2'', ''font/woff2''), (''ttf'', ''font/ttf''), (''otf'', ''font/otf''),
      (''mp4'', ''video/mp4''), (''webm'', ''video/webm''), (''pdf'', ''application/pdf''),
      (''zip'', ''application/zip''), (''wasm'', ''application/wasm''), (''avif'', ''image/avif''),
      (''mp3'', ''audio/mpeg''), (''ogg'', ''audio/ogg''), (''flac'', ''audio/flac''),
      (''ts'', ''application/typescript; charset=utf-8'')]"

definition LONG_CACHE :: "string list" where
  "LONG_CACHE =
     [''js'', ''mjs'', ''css'', ''woff'', ''woff2'', ''ttf'', ''otf'', ''png'', ''jpg'', ''jpeg'', ''gif'', ''webp'',
      ''svg'', ''ico'', ''wasm'', ''avif'', ''mp3'', ''ogg'', ''flac'', ''mp4'', ''webm'']"

definition NO_CACHE :: "string list" where
  "NO_CACHE = [''html'', ''htm'']"

definition generate_etag :: "nat \<Rightarrow> nat \<Rightarrow> string" where
  "generate_etag sz modified_secs = ''W/'' @ [CHR 0x22] @ hex sz @ ''-'' @ hex modified_secs @ [CHR 0x22]"

definition is_cache_valid :: "string option \<Rightarrow> nat option \<Rightarrow> string \<Rightarrow> nat \<Rightarrow> bool" where
  "is_cache_valid if_none_match if_modified_since etag last_modified =
     (case if_none_match of
        Some inm \<Rightarrow> inm = etag \<or> inm = ''*''
      | None \<Rightarrow> (case if_modified_since of Some ims \<Rightarrow> last_modified \<le> ims | None \<Rightarrow> False))"

definition short_lower :: "string \<Rightarrow> string" where
  "short_lower ext = (if utf8_ok (ascii_lower ext) then ascii_lower ext else [])"

definition mime_type_for :: "string \<Rightarrow> string" where
  "mime_type_for ext =
     (if length ext \<le> 8
      then unwrap_or (map_of MIME_MAP (short_lower ext)) ''application/octet-stream''
      else ''application/octet-stream'')"

definition default_cache_control :: "string \<Rightarrow> string" where
  "default_cache_control ext =
     (if length ext \<le> 8 \<and> short_lower ext \<in> set LONG_CACHE then ''public, max-age=604800, immutable''
      else if length ext \<le> 8 \<and> short_lower ext \<in> set NO_CACHE then ''no-cache, must-revalidate''
      else ''public, max-age=3600'')"

section \<open>Ranges\<close>

lemma trim_dec [simp]: "trim (dec n) = dec n"
  by (rule trim_graphic [OF dec_graphic])

lemma parse_u64_dec: "parse_u64 (dec n) = (if n < 2 ^ 64 then Some n else None)"
  by (simp add: parse_u64_def parse_uint_dec)

lemma dash_notin_dec: "CHR ''-'' \<notin> set (dec n)"
  by (rule dec_notin) (simp add: is_digit_def)

lemma parse_range_parts:
  assumes "CHR ''-'' \<notin> set a"
  shows "parse_range (''bytes='' @ a @ ''-'' @ b) n =
    (case (if trim a = [] then map_option (\<lambda>suffix. n - suffix) (parse_u64 (trim b)) else parse_u64 (trim a)) of
       None \<Rightarrow> None
     | Some start \<Rightarrow>
         (case (if trim b = [] then Some (n - 1) else parse_u64 (trim b)) of
            None \<Rightarrow> None
          | Some end \<Rightarrow> if end < start \<or> n \<le> end then None else Some (start, end)))"
  using assms splitn_append [of "CHR ''-''" a 0 b]
  by (simp add: parse_range_def strip_prefix_append [of "''bytes=''", simplified] numeral_2_eq_2 split: option.splits)

text \<open>
  C29: a range of bytes that a file has is read exactly as it is written, with or without its end, and
  whatever a client writes, a range that is accepted lies inside the file.
\<close>

theorem range_exact:
  assumes "a \<le> b" and "b < n" and "n \<le> 2 ^ 64"
  shows "parse_range (''bytes='' @ dec a @ ''-'' @ dec b) n = Some (a, b) \<and>
    parse_range (''bytes='' @ dec a @ ''-'') n = Some (a, n - 1) \<and>
    (\<forall>h i j. parse_range h n = Some (i, j) \<longrightarrow> i \<le> j \<and> j < n)"
proof (intro conjI allI impI)
  show "parse_range (''bytes='' @ dec a @ ''-'' @ dec b) n = Some (a, b)"
    unfolding parse_range_parts [OF dash_notin_dec] using assms by (simp add: parse_u64_dec)
  show "parse_range (''bytes='' @ dec a @ ''-'') n = Some (a, n - 1)"
    using assms parse_range_parts [OF dash_notin_dec, of a "[]" n] by (auto simp: parse_u64_dec)
next
  fix h i j
  assume "parse_range h n = Some (i, j)"
  then show "i \<le> j" "j < n"
    by (auto simp: parse_range_def Let_def split: option.splits list.splits if_splits)
qed

theorem range_exact_witness:
  "parse_range (''bytes='' @ dec 5 @ ''-'' @ dec 9) 10 = Some (5, 9)"
  using range_exact [of 5 9 10] by simp

text \<open>
  A suffix range, the last \<open>k\<close> bytes, is misread: the end is taken to be \<open>k\<close> and not the end of the
  file. Unless \<open>k\<close> is one less than the size, a client that asks for the last \<open>k\<close> bytes never gets
  them: it gets the bytes from \<open>size - k\<close> to \<open>k\<close>, or the whole file when there are none.
\<close>

theorem suffix_range_misread:
  assumes "0 < k" and "k < n" and "n \<le> 2 ^ 64"
  shows "parse_range (''bytes=-'' @ dec k) n = (if n \<le> 2 * k then Some (n - k, k) else None) \<and>
    (parse_range (''bytes=-'' @ dec k) n = Some (n - k, n - 1)) = (k = n - 1 \<and> n \<le> 2 * k)"
proof -
  have "parse_range (''bytes=-'' @ dec k) n = (if n \<le> 2 * k then Some (n - k, k) else None)"
    using assms parse_range_parts [of "[]" "dec k" n] by (auto simp: parse_u64_dec)
  then show ?thesis by auto
qed

theorem suffix_range_misread_witness:
  "parse_range (''bytes=-'' @ dec 500) 1000 = Some (500, 500) \<and> parse_range (''bytes=-'' @ dec 100) 1000 = None"
  using suffix_range_misread [of 500 1000] suffix_range_misread [of 100 1000] by simp

section \<open>Validators\<close>

lemma hex_inj: "hex a = hex b \<Longrightarrow> a = b"
  by (metis digits_val_hex option.inject)

lemma dash_notin_hex: "CHR ''-'' \<notin> set (hex n)"
  using hex_chars [of n] by (auto simp: list_all_iff is_hex_char_def)

lemma append_sep_eq:
  assumes "c \<notin> set a" "c \<notin> set a'" "a @ c # b = a' @ c # b'"
  shows "a = a' \<and> b = b'"
proof -
  have "length a = length a'"
    using assms find_idx_append [of c a b] find_idx_append [of c a' b'] by simp
  with assms(3) show ?thesis by simp
qed

lemma generate_etag_inj:
  assumes "generate_etag s m = generate_etag s' m'"
  shows "s = s' \<and> m = m'"
proof -
  from assms have "hex s @ CHR ''-'' # (hex m @ [CHR 0x22]) = hex s' @ CHR ''-'' # (hex m' @ [CHR 0x22])"
    by (simp add: generate_etag_def)
  from append_sep_eq [OF dash_notin_hex dash_notin_hex this] show ?thesis by (auto dest: hex_inj)
qed

section \<open>Resolved paths stay inside\<close>

text \<open>What is documented of \<^verbatim>\<open>canonicalize\<close>: it succeeds on whatever has metadata.\<close>

definition canon_total :: "file_sys \<Rightarrow> bool" where
  "canon_total fs \<longleftrightarrow> (\<forall>p. fs_meta fs p \<noteq> None \<longrightarrow> fs_canon fs p \<noteq> None)"

definition inside :: "file_sys \<Rightarrow> string \<Rightarrow> string option \<Rightarrow> string \<Rightarrow> bool" where
  "inside fs root_dir canonical_root p \<longleftrightarrow>
     (\<exists>q cr. fs_canon fs q = Some p \<and> (canonical_root = Some cr \<or> canonical_root = None \<and> fs_canon fs root_dir = Some cr) \<and>
       path_starts_with p cr)"

lemma resolve_inside:
  assumes "canon_total fs" "resolve_safe_path_with_canon fs root_dir req cr = Some p" "fs_meta fs p \<noteq> None"
  shows "inside fs root_dir cr p"
  using assms
  by (auto simp: resolve_safe_path_with_canon_def inside_def canon_total_def Let_def split: if_splits option.splits)

lemma find_index_SomeD:
  "find_index fs dir names = Some f \<Longrightarrow> is_file fs f \<and> (\<exists>name\<in>set names. f = path_join dir name)"
  by (auto simp: find_index_def find_Some_iff)

end
