(* ===== verification/Static_File.thy ===== *)
theory Static_File
  imports Static_Path Compress Proxy_Flow "HOL-Library.Multiset"
begin

text \<open>
  The static-file handler (\<^verbatim>\<open>src/handler/static_file.rs\<close>) with its caches of small files and open files
  (\<^verbatim>\<open>static_file/cache.rs\<close>), the file watcher, and the responses of \<^verbatim>\<open>static_file/compress.rs\<close>.

  The caches are association lists with distinct keys; the order of iteration, the encoders and the
  HTTP date library are parameters. The file system does not change while one request is handled.
\<close>

section \<open>Caches\<close>

definition GZIP_MAX_INLINE :: nat where "GZIP_MAX_INLINE = 1024 * 1024"
definition FILE_CACHE_MAX_BYTES :: nat where "FILE_CACHE_MAX_BYTES = 64 * 1024"
definition MIN_USES_THRESHOLD :: u8 where "MIN_USES_THRESHOLD = 2"

record cache_limits =
  file_cache_total_bytes :: nat
  file_cache_max_entries :: nat
  fd_cache_max_entries :: nat

definition default_cache_limits :: cache_limits where
  "default_cache_limits =
     \<lparr>file_cache_total_bytes = 512 * 1024 * 1024, file_cache_max_entries = 200000, fd_cache_max_entries = 25000\<rparr>"

definition init_cache_limits :: "nat \<Rightarrow> nat \<Rightarrow> cache_limits" where
  "init_cache_limits max_entries total_mb =
     \<lparr>file_cache_total_bytes = max total_mb 16 * 1024 * 1024, file_cache_max_entries = max max_entries 256,
      fd_cache_max_entries = max (max_entries div 8) 256\<rparr>"

record file_cache_entry =
  fe_data :: string
  fe_gz :: "string option"
  fe_br :: "string option"
  fe_zst :: "string option"
  fe_modified :: nat
  fe_content_type :: string
  fe_content_length :: string
  fe_etag :: string
  fe_last_modified :: string
  fe_cache_control :: string

text \<open>An open file is the number of the file it refers to, whatever its name refers to later.\<close>

record fd_cache_entry =
  fd_file_size :: nat
  fd_modified :: nat
  fd_fd :: nat

record static_state =
  ss_files :: "(string \<times> file_cache_entry) list"
  ss_fds :: "(string \<times> fd_cache_entry) list"
  ss_counts :: "string \<rightharpoonup> u8"
  ss_limits :: cache_limits

record static_env =
  sv_iter_files :: "(string \<times> file_cache_entry) list \<Rightarrow> (string \<times> file_cache_entry) list"
  sv_iter_fds :: "(string \<times> fd_cache_entry) list \<Rightarrow> (string \<times> fd_cache_entry) list"
  sv_f32 :: f32_api
  sv_gzip :: "string \<Rightarrow> u32 \<Rightarrow> string option"
  sv_brotli :: "string \<Rightarrow> u32 \<Rightarrow> string option"
  sv_zstd :: "string \<Rightarrow> u32 \<Rightarrow> string option"
  sv_fmt_date :: "nat \<Rightarrow> string"
  sv_parse_date :: "string \<Rightarrow> nat option"
  sv_value :: "string \<Rightarrow> string option"
  sv_pread_ok :: "nat \<Rightarrow> nat \<Rightarrow> nat \<Rightarrow> bool"

definition access_count_check :: "string \<Rightarrow> static_state \<Rightarrow> bool \<times> static_state" where
  "access_count_check key st =
     (let count = unwrap_or (ss_counts st key) 0
      in if MIN_USES_THRESHOLD \<le> count then (True, st\<lparr>ss_counts := (ss_counts st)(key \<mapsto> count)\<rparr>)
         else (MIN_USES_THRESHOLD \<le> count + 1, st\<lparr>ss_counts := (ss_counts st)(key \<mapsto> count + 1)\<rparr>))"

definition make_cache_key :: "string \<Rightarrow> string \<Rightarrow> string" where
  "make_cache_key root_dir relative = root_dir @ ''/'' @ relative"

definition cache_get_fast :: "string \<Rightarrow> string \<Rightarrow> static_state \<Rightarrow> file_cache_entry option" where
  "cache_get_fast root_dir relative st = map_of (ss_files st) (root_dir @ ''/'' @ relative)"

definition remove_keys :: "string list \<Rightarrow> (string \<times> 'v) list \<Rightarrow> (string \<times> 'v) list" where
  "remove_keys ks m = fold AList.delete ks m"

definition entry_bytes :: "file_cache_entry \<Rightarrow> nat" where
  "entry_bytes e =
     length (fe_data e) + (case fe_gz e of Some b \<Rightarrow> length b | None \<Rightarrow> 0)
     + (case fe_br e of Some b \<Rightarrow> length b | None \<Rightarrow> 0) + (case fe_zst e of Some b \<Rightarrow> length b | None \<Rightarrow> 0)"

definition cache_insert :: "static_env \<Rightarrow> string \<Rightarrow> file_cache_entry \<Rightarrow> static_state \<Rightarrow> static_state" where
  "cache_insert env key entry st =
     (let files = ss_files st; lim = ss_limits st;
          total = sum_list (map (entry_bytes \<circ> snd) files);
          files' = (if file_cache_total_bytes lim < total + length (fe_data entry)
                       \<or> file_cache_max_entries lim \<le> length files
                    then remove_keys (map fst (take (file_cache_max_entries lim div 4) (sv_iter_files env files))) files
                    else files)
      in st\<lparr>ss_files := AList.update key entry files'\<rparr>)"

definition fd_cache_insert :: "static_env \<Rightarrow> string \<Rightarrow> nat \<Rightarrow> nat \<Rightarrow> nat \<Rightarrow> static_state \<Rightarrow> static_state" where
  "fd_cache_insert env key fd sz modified st =
     (let fds = ss_fds st; mx = fd_cache_max_entries (ss_limits st);
          fds' = (if mx \<le> length fds
                  then remove_keys (map fst (take (mx div 4) (sv_iter_fds env fds))) fds else fds)
      in st\<lparr>ss_fds := AList.update key \<lparr>fd_file_size = sz, fd_modified = modified, fd_fd = fd\<rparr> fds'\<rparr>)"

definition fd_cache_get_or_open ::
  "static_env \<Rightarrow> file_sys \<Rightarrow> string \<Rightarrow> nat \<Rightarrow> nat \<Rightarrow> static_state \<Rightarrow> nat option \<times> static_state" where
  "fd_cache_get_or_open env fs path sz modified st =
     (case map_of (ss_fds st) path of
        Some e \<Rightarrow> (Some (fd_fd e), st)
      | None \<Rightarrow>
          (case fs_open fs path of
             Some fd \<Rightarrow> (Some fd, fd_cache_insert env path fd sz modified st)
           | None \<Rightarrow> (None, st)))"

text \<open>The watcher's reaction to a change of paths.\<close>

definition on_file_event :: "string list \<Rightarrow> static_state \<Rightarrow> static_state" where
  "on_file_event paths st = st\<lparr>ss_files := remove_keys paths (ss_files st)\<rparr>"

section \<open>Responses\<close>

definition checked_insert :: "static_env \<Rightarrow> string \<Rightarrow> string \<Rightarrow> header_map \<Rightarrow> header_map" where
  "checked_insert env k v h = (case sv_value env v of Some w \<Rightarrow> hm_insert k w h | None \<Rightarrow> h)"

definition cache_control_for :: "location_config \<Rightarrow> string \<Rightarrow> string" where
  "cache_control_for loc ext = unwrap_or (loc_cache_control loc) (default_cache_control ext)"

definition set_file_headers_no_length ::
  "static_env \<Rightarrow> string \<Rightarrow> string \<Rightarrow> nat \<Rightarrow> location_config \<Rightarrow> header_map \<Rightarrow> header_map" where
  "set_file_headers_no_length env path etag modified loc h =
     (let ext = unwrap_or (path_extension path) []
      in hm_insert ''accept-ranges'' ''bytes''
           (checked_insert env ''cache-control'' (cache_control_for loc ext)
             (checked_insert env ''last-modified'' (sv_fmt_date env modified)
               (checked_insert env ''etag'' etag
                 (checked_insert env ''content-type'' (mime_type_for ext) h)))))"

definition set_file_headers ::
  "static_env \<Rightarrow> string \<Rightarrow> nat \<Rightarrow> string \<Rightarrow> nat \<Rightarrow> location_config \<Rightarrow> header_map \<Rightarrow> header_map" where
  "set_file_headers env path sz etag modified loc h =
     set_file_headers_no_length env path etag modified loc (checked_insert env ''content-length'' (dec sz) h)"

definition content_range :: "nat \<Rightarrow> nat \<Rightarrow> nat \<Rightarrow> string" where
  "content_range range_start range_end file_size =
     ''bytes '' @ dec range_start @ ''-'' @ dec range_end @ ''/'' @ dec file_size"

definition not_modified :: resp where
  "not_modified = \<lparr>wr_status = 304, wr_headers = no_headers, wr_body = NoBody\<rparr>"

definition pick_encoding :: "static_env \<Rightarrow> string option \<Rightarrow> file_cache_entry \<Rightarrow> string \<times> string option" where
  "pick_encoding env accept e =
     (case pick_best_encoding_sized (sv_f32 env) accept (fe_gz e \<noteq> None) (fe_br e \<noteq> None) (fe_zst e \<noteq> None)
             (Some (length (fe_data e))) of
        Some enc \<Rightarrow>
          (if enc = ''br'' \<and> fe_br e \<noteq> None then (the (fe_br e), Some ''br'')
           else if enc = ''zstd'' \<and> fe_zst e \<noteq> None then (the (fe_zst e), Some ''zstd'')
           else if enc = ''gzip'' \<and> fe_gz e \<noteq> None then (the (fe_gz e), Some ''gzip'')
           else (fe_data e, None))
      | None \<Rightarrow> (fe_data e, None))"

definition still_valid :: "static_env \<Rightarrow> client_request \<Rightarrow> string \<Rightarrow> nat \<Rightarrow> bool" where
  "still_valid env rq etag modified =
     is_cache_valid (get_header ''if-none-match'' rq)
       (Option.bind (get_header ''if-modified-since'' rq) (sv_parse_date env)) etag modified"

definition entry_headers :: "file_cache_entry \<Rightarrow> header_map" where
  "entry_headers e =
     hm_insert ''cache-control'' (fe_cache_control e) (hm_insert ''last-modified'' (fe_last_modified e)
       (hm_insert ''etag'' (fe_etag e) (hm_insert ''accept-ranges'' ''bytes''
         (hm_insert ''content-type'' (fe_content_type e) no_headers))))"

definition entry_response :: "static_env \<Rightarrow> client_request \<Rightarrow> file_cache_entry \<Rightarrow> resp" where
  "entry_response env rq e =
     (case pick_encoding env (get_header ''accept-encoding'' rq) e of
        (body, None) \<Rightarrow>
          \<lparr>wr_status = 200, wr_headers = hm_insert ''content-length'' (fe_content_length e) (entry_headers e),
           wr_body = Bytes body\<rparr>
      | (body, Some enc) \<Rightarrow>
          \<lparr>wr_status = 200,
           wr_headers = checked_insert env ''content-encoding'' enc (hm_insert ''vary'' ''Accept-Encoding''
             (checked_insert env ''content-length'' (dec (length body)) (entry_headers e))),
           wr_body = Bytes body\<rparr>)"

definition range_of :: "client_request \<Rightarrow> nat \<Rightarrow> (nat \<times> nat) option" where
  "range_of rq file_size = Option.bind (get_header ''range'' rq) (\<lambda>s. parse_range s file_size)"

definition hit_response :: "static_env \<Rightarrow> client_request \<Rightarrow> file_cache_entry \<Rightarrow> resp" where
  "hit_response env rq e =
     (if still_valid env rq (fe_etag e) (fe_modified e) then not_modified
      else (case range_of rq (length (fe_data e)) of
          Some (range_start, range_end) \<Rightarrow>
            (let range_len = range_end - range_start + 1
             in \<lparr>wr_status = 206,
                 wr_headers = checked_insert env ''content-range'' (content_range range_start range_end (length (fe_data e)))
                   (checked_insert env ''content-length'' (dec range_len) (entry_headers e)),
                 wr_body = Bytes (take range_len (drop range_start (fe_data e)))\<rparr>)
        | None \<Rightarrow> entry_response env rq e))"

section \<open>Small files\<close>

definition already_compressed :: "string \<Rightarrow> bool" where
  "already_compressed ext =
     (ext \<in> set [''gz'', ''br'', ''zst'', ''zip'', ''png'', ''jpg'', ''jpeg'', ''gif'', ''webp'', ''avif'', ''mp4'', ''webm'',
        ''woff'', ''woff2'', ''bin'', ''dat'', ''raw'', ''iso'', ''exe'', ''dll'', ''so''])"

definition compressible_mime :: "string \<Rightarrow> bool" where
  "compressible_mime mime =
     (starts_with mime ''text/'' \<or>
      mime \<in> set [''application/json'', ''application/javascript'', ''application/x-javascript'', ''application/xml'',
        ''application/xhtml+xml'', ''application/rss+xml'', ''application/atom+xml'', ''image/svg+xml''])"

definition file_settings :: "('re, 'l) site_info \<Rightarrow> global_config \<Rightarrow> compress_config" where
  "file_settings site global = compress_resolve (si_compress site) (gc_compress global)"

definition build_entry ::
  "static_env \<Rightarrow> ('re, 'l) site_info \<Rightarrow> global_config \<Rightarrow> location_config \<Rightarrow> string \<Rightarrow> file_meta \<Rightarrow> string \<Rightarrow> file_cache_entry" where
  "build_entry env site global loc path meta data =
     (let ext = unwrap_or (path_extension path) [];
          mime = mime_type_for ext;
          cs = effective_compress site global;
          min_bytes = cc_min_length (file_settings site global) * 1024;
          can_compress = (\<not> already_compressed ext \<and> compressible_mime mime \<and>
                          min_bytes \<le> fm_len meta \<and> fm_len meta \<le> GZIP_MAX_INLINE)
      in \<lparr>fe_data = data,
          fe_gz = (if gz_en cs \<and> can_compress then sv_gzip env data (min (gz_lv cs) 9) else None),
          fe_br = (if br_en cs \<and> can_compress then sv_brotli env data (min (br_lv cs) 11) else None),
          fe_zst = (if zst_en cs \<and> can_compress then sv_zstd env data (max 1 (min (zst_lv cs) 22)) else None),
          fe_modified = fm_modified meta,
          fe_content_type = unwrap_or (sv_value env mime) ''application/octet-stream'',
          fe_content_length = unwrap_or (sv_value env (dec (fm_len meta))) ''0'',
          fe_etag = unwrap_or (sv_value env (generate_etag (fm_len meta) (fm_modified meta))) [CHR 0x22, CHR 0x22],
          fe_last_modified = unwrap_or (sv_value env (sv_fmt_date env (fm_modified meta))) ''Thu, 01 Jan 1970 00:00:00 GMT'',
          fe_cache_control = unwrap_or (sv_value env (cache_control_for loc ext)) ''public, max-age=3600''\<rparr>)"

text \<open>After the second use the entry is kept under the file's own path and under the requested one.\<close>

definition remember :: "static_env \<Rightarrow> string \<Rightarrow> string \<Rightarrow> file_cache_entry \<Rightarrow> static_state \<Rightarrow> static_state" where
  "remember env canonical_key fast_key entry st =
     (case access_count_check canonical_key st of
        (True, st) \<Rightarrow>
          (let st = cache_insert env canonical_key entry st
           in if fast_key \<noteq> canonical_key then cache_insert env fast_key entry st else st)
      | (False, st) \<Rightarrow> st)"

section \<open>Large files\<close>

definition PREAD_INLINE_MAX :: nat where "PREAD_INLINE_MAX = 4 * 1024 * 1024"

definition range_response ::
  "static_env \<Rightarrow> location_config \<Rightarrow> string \<Rightarrow> nat \<Rightarrow> string \<Rightarrow> nat \<Rightarrow> nat \<Rightarrow> nat \<Rightarrow> nat \<Rightarrow> resp" where
  "range_response env loc path file_size etag modified fd range_start range_end =
     (let range_len = range_end - range_start + 1
      in if range_len \<le> PREAD_INLINE_MAX \<and> \<not> sv_pread_ok env fd range_start range_len then error_resp 500
         else \<lparr>wr_status = 206,
               wr_headers = checked_insert env ''content-range'' (content_range range_start range_end file_size)
                 (set_file_headers env path range_len etag modified loc no_headers),
               wr_body = FileRange fd range_start range_len\<rparr>)"

definition stream_response ::
  "static_env \<Rightarrow> location_config \<Rightarrow> string \<Rightarrow> nat \<Rightarrow> string \<Rightarrow> nat \<Rightarrow> nat \<Rightarrow> (string \<times> u32) option \<Rightarrow> resp" where
  "stream_response env loc path file_size etag modified fd enc =
     (case enc of
        None \<Rightarrow>
          \<lparr>wr_status = 200, wr_headers = set_file_headers env path file_size etag modified loc no_headers,
           wr_body = FileRange fd 0 file_size\<rparr>
      | Some (name, lv) \<Rightarrow>
          \<lparr>wr_status = 200,
           wr_headers = hm_insert ''vary'' ''Accept-Encoding'' (checked_insert env ''content-encoding'' name
             (set_file_headers_no_length env path etag modified loc no_headers)),
           wr_body = Encoded name lv (FileRange fd 0 file_size)\<rparr>)"

definition stream_encoding ::
  "static_env \<Rightarrow> ('re, 'l) site_info \<Rightarrow> global_config \<Rightarrow> client_request \<Rightarrow> string \<Rightarrow> nat \<Rightarrow> (string \<times> u32) option" where
  "stream_encoding env site global rq path file_size =
     (let ext = unwrap_or (path_extension path) [];
          cs = effective_compress site global;
          can_compress = (\<not> already_compressed ext \<and> compressible_mime (mime_type_for ext) \<and>
                          cc_min_length (file_settings site global) * 1024 \<le> file_size)
      in if can_compress
         then map_option (\<lambda>name. (name, encoder_level name cs))
                (pick_best_encoding_sized (sv_f32 env) (get_header ''accept-encoding'' rq) (gz_en cs) (br_en cs) (zst_en cs)
                   (Some file_size))
         else None)"

section \<open>The handler\<close>

text \<open>The default document of a directory, or the file itself.\<close>

definition locate_file ::
  "file_sys \<Rightarrow> ('re, 'l) site_info \<Rightarrow> string \<Rightarrow> string \<Rightarrow> nat + (string \<times> file_meta)" where
  "locate_file fs site root_dir path =
     (case resolve_safe_path_fast fs root_dir path (si_canonical_root site) of
        None \<Rightarrow> Inl 403
      | Some p \<Rightarrow>
          (case fs_meta fs p of
             None \<Rightarrow> Inl 404
           | Some m \<Rightarrow>
               (case (if fm_is_dir m then find_index fs p (si_index site) else Some p) of
                  None \<Rightarrow> Inl 403
                | Some f \<Rightarrow> (case fs_meta fs f of None \<Rightarrow> Inl 500 | Some m \<Rightarrow> Inr (f, m)))))"

definition serve_file ::
  "static_env \<Rightarrow> file_sys \<Rightarrow> ('re, 'l) site_info \<Rightarrow> global_config \<Rightarrow> location_config \<Rightarrow> client_request
     \<Rightarrow> string \<Rightarrow> string \<Rightarrow> file_meta \<Rightarrow> static_state \<Rightarrow> resp \<times> static_state" where
  "serve_file env fs site global loc rq fast_key f m st =
     (let etag = generate_etag (fm_len m) (fm_modified m)
      in if still_valid env rq etag (fm_modified m) then (not_modified, st)
         else if fm_len m \<le> FILE_CACHE_MAX_BYTES then
           (case fs_read fs f of
              None \<Rightarrow> (error_resp 500, st)
            | Some data \<Rightarrow>
                (let e = build_entry env site global loc f m data
                 in (entry_response env rq e, remember env f fast_key e st)))
         else
           (case fd_cache_get_or_open env fs f (fm_len m) (fm_modified m) st of
              (None, st) \<Rightarrow> (error_resp 500, st)
            | (Some fd, st) \<Rightarrow>
                (case range_of rq (fm_len m) of
                   Some (range_start, range_end) \<Rightarrow>
                     (range_response env loc f (fm_len m) etag (fm_modified m) fd range_start range_end, st)
                 | None \<Rightarrow>
                     (stream_response env loc f (fm_len m) etag (fm_modified m) fd
                        (stream_encoding env site global rq f (fm_len m)), st))))"

definition handle_static ::
  "static_env \<Rightarrow> file_sys \<Rightarrow> ('re, 'l) site_info \<Rightarrow> global_config \<Rightarrow> location_config \<Rightarrow> client_request
     \<Rightarrow> static_state \<Rightarrow> resp \<times> static_state" where
  "handle_static env fs site global loc rq st =
     (case (case loc_root loc of Some r \<Rightarrow> Some r | None \<Rightarrow> si_root site) of
        None \<Rightarrow> (error_resp 500, st)
      | Some root_dir \<Rightarrow>
          (let path = cl_uri_path rq
           in if eq_ignore_case (cl_method rq) ''HEAD'' then
                (case locate_file fs site root_dir path of
                   Inl code \<Rightarrow> (error_resp code, st)
                 | Inr (f, m) \<Rightarrow>
                     (let etag = generate_etag (fm_len m) (fm_modified m)
                      in if still_valid env rq etag (fm_modified m) then (not_modified, st)
                         else (\<lparr>wr_status = 200,
                                wr_headers = set_file_headers env f (fm_len m) etag (fm_modified m) loc no_headers,
                                wr_body = NoBody\<rparr>, st)))
              else if ''..'' \<in> set (split_on CHR ''/'' (query_stripped path)) then (error_resp 403, st)
              else
                (let relative = trim_start_matches (\<lambda>c. c = CHR ''/'') (query_stripped path)
                 in case cache_get_fast root_dir relative st of
                      Some e \<Rightarrow> (hit_response env rq e, st)
                    | None \<Rightarrow>
                        (case locate_file fs site root_dir path of
                           Inl code \<Rightarrow> (error_resp code, st)
                         | Inr (f, m) \<Rightarrow>
                             serve_file env fs site global loc rq (make_cache_key root_dir relative) f m st))))"

section \<open>Located files\<close>

text \<open>
  A file that is served is what a path resolves to inside the root, or a default document of such a
  directory.
\<close>

definition served_file :: "file_sys \<Rightarrow> ('re, 'l) site_info \<Rightarrow> string \<Rightarrow> string \<Rightarrow> bool" where
  "served_file fs site root_dir f \<longleftrightarrow>
     inside fs root_dir (si_canonical_root site) f \<or>
     (\<exists>d name. inside fs root_dir (si_canonical_root site) d \<and> name \<in> set (si_index site) \<and> f = path_join d name \<and>
        is_file fs f)"

lemma locate_file_served:
  assumes "canon_total fs" "locate_file fs site root_dir path = Inr (f, m)"
  shows "served_file fs site root_dir f \<and> fs_meta fs f = Some m"
proof -
  from assms(2) obtain p m' where p: "resolve_safe_path_with_canon fs root_dir path (si_canonical_root site) = Some p"
    "fs_meta fs p = Some m'" and f: "(if fm_is_dir m' then find_index fs p (si_index site) else Some p) = Some f"
    "fs_meta fs f = Some m"
    by (auto simp: locate_file_def resolve_safe_path_fast_def split: option.splits)
  from resolve_inside [OF assms(1) p(1)] p(2) have "inside fs root_dir (si_canonical_root site) p" by simp
  with f show ?thesis by (auto simp: served_file_def split: if_splits dest!: find_index_SomeD)
qed

section \<open>Requests that read a file\<close>

definition static_root :: "('re, 'l) site_info \<Rightarrow> location_config \<Rightarrow> string option" where
  "static_root site loc = (case loc_root loc of Some r \<Rightarrow> Some r | None \<Rightarrow> si_root site)"

definition relative_path :: "client_request \<Rightarrow> string" where
  "relative_path rq = trim_start_matches (\<lambda>c. c = CHR ''/'') (query_stripped (cl_uri_path rq))"

definition reads_file :: "client_request \<Rightarrow> bool" where
  "reads_file rq \<longleftrightarrow> \<not> eq_ignore_case (cl_method rq) ''HEAD'' \<and>
     ''..'' \<notin> set (split_on CHR ''/'' (query_stripped (cl_uri_path rq)))"

section \<open>A site to try\<close>

definition demo_fs :: "string \<Rightarrow> file_sys" where
  "demo_fs content =
     \<lparr>fs_canon = (\<lambda>p. if p = ''/srv/www'' \<or> p = ''/srv/www/'' then Some ''/srv/www''
                     else if p = ''/srv/www/index.html'' then Some p else None),
      fs_meta = (\<lambda>p. if p = ''/srv/www'' then Some \<lparr>fm_is_dir = True, fm_is_file = False, fm_len = 0, fm_modified = 1\<rparr>
                     else if p = ''/srv/www/index.html''
                     then Some \<lparr>fm_is_dir = False, fm_is_file = True, fm_len = length content, fm_modified = 7\<rparr> else None),
      fs_read = (\<lambda>p. if p = ''/srv/www/index.html'' then Some content else None),
      fs_open = (\<lambda>p. None)\<rparr>"

definition demo_static_env :: static_env where
  "demo_static_env =
     \<lparr>sv_iter_files = id, sv_iter_fds = id, sv_f32 = demo_f32, sv_gzip = (\<lambda>_ _. None), sv_brotli = (\<lambda>_ _. None),
      sv_zstd = (\<lambda>_ _. None), sv_fmt_date = (\<lambda>_. ''Thu, 01 Jan 1970 00:00:07 GMT''), sv_parse_date = (\<lambda>_. None),
      sv_value = Some, sv_pread_ok = (\<lambda>_ _ _. True)\<rparr>"

definition demo_static_site :: "(unit, unit) site_info" where
  "demo_static_site =
     \<lparr>si_name = ''www'', si_locations = [], si_force_https = False, si_websocket = False, si_gzip = None,
      si_gzip_comp_level = None, si_compress = default_site_compress_config, si_root = Some ''/srv/www'',
      si_canonical_root = Some ''/srv/www'', si_index = [''index.html''], si_rewrites = [], si_hsts = None,
      si_hsts_header_value = None, si_acme = False, si_fallback = False, si_listen_tls = [], si_error_pages = [],
      si_upstreams = [], si_upstream_pools = Map.empty, si_tls = None, si_fastcgi = None, si_proxy_cache = None,
      si_real_ip = None, si_access_logger = None, si_proxy_cache_arc = None, si_fcgi_cache_arc = None\<rparr>"

definition demo_static_req :: "string \<Rightarrow> (string \<times> string option) list \<Rightarrow> client_request" where
  "demo_static_req path headers =
     \<lparr>cl_method = ''GET'', cl_path_and_query = Some path, cl_uri_path = path, cl_authority = Some ''www.test'',
      cl_headers = headers, cl_scheme = Some ''https'', cl_is_tls = True, cl_h2_ws = False, cl_ip = ''192.0.2.1''\<rparr>"

definition demo_static_state :: "u8 \<Rightarrow> static_state" where
  "demo_static_state n =
     \<lparr>ss_files = [], ss_fds = [], ss_counts = [''/srv/www/index.html'' \<mapsto> n], ss_limits = default_cache_limits\<rparr>"

lemma demo_located:
  "locate_file (demo_fs content) demo_static_site ''/srv/www'' ''/'' =
     Inr (''/srv/www/index.html'', \<lparr>fm_is_dir = False, fm_is_file = True, fm_len = length content, fm_modified = 7\<rparr>)"
  by (simp add: locate_file_def resolve_safe_path_fast_def resolve_safe_path_with_canon_def demo_static_site_def demo_fs_def
      path_starts_with_def find_index_def is_file_def Let_def)
    code_simp

lemma demo_root: "static_root demo_static_site default_location_config = Some ''/srv/www''"
  by (simp add: static_root_def default_location_config_def demo_static_site_def)

lemma demo_reads: "reads_file (demo_static_req ''/'' hs)" "relative_path (demo_static_req ''/'' hs) = []"
  "cl_uri_path (demo_static_req ''/'' hs) = ''/''"
  by (simp_all add: reads_file_def relative_path_def demo_static_req_def) code_simp+

lemma demo_not_valid: "\<not> still_valid demo_static_env (demo_static_req ''/'' []) t n"
  by (simp add: still_valid_def get_header_def demo_static_req_def is_cache_valid_def)

lemma demo_no_range: "get_header ''range'' (demo_static_req p []) = None"
  by (simp add: get_header_def demo_static_req_def)

lemma demo_br_no_range: "get_header ''range'' (demo_static_req p [(''Accept-Encoding'', Some ''br'')]) = None"
  by (simp add: get_header_def demo_static_req_def) code_simp

lemma demo_state_empty: "ss_files (demo_static_state n) = []"
  by (simp add: demo_static_state_def)

lemma demo_read: "fs_read (demo_fs content) ''/srv/www/index.html'' = Some content"
  by (simp add: demo_fs_def)

lemma demo_length: "length ''hello'' = 5"
  by simp

lemma demo_tag:
  "get_header ''if-none-match'' (demo_static_req p [(''If-None-Match'', Some (generate_etag s t))]) = Some (generate_etag s t)"
proof -
  have "eq_ignore_case ''If-None-Match'' ''if-none-match''" by code_simp
  then show ?thesis by (simp add: get_header_def demo_static_req_def)
qed

lemma demo_counted: "fst (access_count_check ''/srv/www/index.html'' (demo_static_state 1))"
  by (simp add: access_count_check_def demo_static_state_def MIN_USES_THRESHOLD_def unwrap_or_def)

lemmas demo_static = demo_located demo_root demo_reads demo_not_valid demo_counted

section \<open>Where cached content comes from\<close>

lemma set_remove_keys: "set (remove_keys ks m) \<subseteq> set m"
proof (induction ks arbitrary: m)
  case (Cons k ks)
  have "set (AList.delete k m) \<subseteq> set m" by (auto simp: AList.delete_eq)
  with Cons show ?case by (fastforce simp: remove_keys_def)
qed (simp add: remove_keys_def)

lemma map_of_remove_keys: "map_of (remove_keys ks m) k = (if k \<in> set ks then None else map_of m k)"
  by (induction ks arbitrary: m) (auto simp: remove_keys_def AList.delete_conv')

lemma set_update_subset: "set (AList.update k v m) \<subseteq> insert (k, v) (set m)"
  by (induction m) auto

lemma cache_insert_files: "set (ss_files (cache_insert env k e st)) \<subseteq> insert (k, e) (set (ss_files st))"
  using set_remove_keys by (auto simp: cache_insert_def Let_def dest!: subsetD [OF set_update_subset] subsetD [OF set_remove_keys])

lemma cache_insert_lookup: "map_of (ss_files (cache_insert env k e st)) k = Some e"
  by (simp add: cache_insert_def Let_def AList.update_conv')

lemma access_count_check_files [simp]: "ss_files (snd (access_count_check k st)) = ss_files st"
  by (simp add: access_count_check_def Let_def)

lemma remember_files:
  "set (ss_files (remember env ck fk e st)) \<subseteq> insert (ck, e) (insert (fk, e) (set (ss_files st)))"
  using cache_insert_files [of env fk e "cache_insert env ck e (snd (access_count_check ck st))"]
    cache_insert_files [of env ck e "snd (access_count_check ck st)"]
    access_count_check_files [of ck st]
  by (cases "access_count_check ck st") (auto simp: remember_def Let_def split: bool.splits)

lemma fd_cache_get_or_open_files:
  "fd_cache_get_or_open env fs p n t st = (x, st') \<Longrightarrow> ss_files st' = ss_files st"
  by (auto simp: fd_cache_get_or_open_def fd_cache_insert_def Let_def split: option.splits)

text \<open>What happens to the caches: requests, each with the file system and the configuration of its time, and changes
  that the watcher reports.\<close>

record ('re, 'l) static_request =
  sr_fs :: file_sys
  sr_site :: "('re, 'l) site_info"
  sr_global :: global_config
  sr_loc :: location_config
  sr_req :: client_request

datatype ('re, 'l) static_event = Request "('re, 'l) static_request" | Changed "string list"

fun static_step :: "static_env \<Rightarrow> ('re, 'l) static_event \<Rightarrow> static_state \<Rightarrow> static_state" where
  "static_step env (Request r) st =
     snd (handle_static env (sr_fs r) (sr_site r) (sr_global r) (sr_loc r) (sr_req r) st)"
| "static_step env (Changed paths) st = on_file_event paths st"

definition read_by :: "static_env \<Rightarrow> ('re, 'l) static_request \<Rightarrow> file_cache_entry \<Rightarrow> bool" where
  "read_by env r e \<longleftrightarrow>
     (\<exists>root_dir f m data. static_root (sr_site r) (sr_loc r) = Some root_dir \<and> served_file (sr_fs r) (sr_site r) root_dir f \<and>
        fs_meta (sr_fs r) f = Some m \<and> fs_read (sr_fs r) f = Some data \<and> fm_len m \<le> FILE_CACHE_MAX_BYTES \<and>
        e = build_entry env (sr_site r) (sr_global r) (sr_loc r) f m data)"

definition provenance :: "static_env \<Rightarrow> ('re, 'l) static_event list \<Rightarrow> static_state \<Rightarrow> bool" where
  "provenance env evs st \<longleftrightarrow> (\<forall>(k, e)\<in>set (ss_files st). \<exists>r. Request r \<in> set evs \<and> read_by env r e)"

lemma serve_file_files:
  "ss_files (snd (serve_file env fs site global loc rq fk f m st)) = ss_files st \<or>
   (\<exists>data. fs_read fs f = Some data \<and> fm_len m \<le> FILE_CACHE_MAX_BYTES \<and>
      snd (serve_file env fs site global loc rq fk f m st) =
        remember env f fk (build_entry env site global loc f m data) st)"
proof (cases "fm_len m \<le> FILE_CACHE_MAX_BYTES")
  case True
  then show ?thesis by (simp add: serve_file_def Let_def split: option.splits)
next
  case False
  obtain x st' where fd: "fd_cache_get_or_open env fs f (fm_len m) (fm_modified m) st = (x, st')" by fastforce
  then have "ss_files st' = ss_files st" by (rule fd_cache_get_or_open_files)
  with False fd show ?thesis by (auto simp: serve_file_def Let_def split: option.splits)
qed

lemma handle_static_cases:
  "snd (handle_static env fs site global loc rq st) = st \<or>
   (\<exists>root_dir path fk f m. (case loc_root loc of Some r \<Rightarrow> Some r | None \<Rightarrow> si_root site) = Some root_dir \<and>
      locate_file fs site root_dir path = Inr (f, m) \<and>
      handle_static env fs site global loc rq st = serve_file env fs site global loc rq fk f m st)"
proof (cases "case loc_root loc of Some r \<Rightarrow> Some r | None \<Rightarrow> si_root site")
  case (Some root_dir)
  let ?path = "cl_uri_path rq"
  show ?thesis
  proof (cases "locate_file fs site root_dir ?path")
    case (Inl code)
    with Some show ?thesis
      by (cases "eq_ignore_case (cl_method rq) ''HEAD''"; cases "''..'' \<in> set (split_on CHR ''/'' (query_stripped ?path))")
        (simp_all add: handle_static_def Let_def split: option.split)
  next
    case (Inr fm)
    obtain f m where "fm = (f, m)" by fastforce
    with Some Inr show ?thesis
      by (cases "eq_ignore_case (cl_method rq) ''HEAD''"; cases "''..'' \<in> set (split_on CHR ''/'' (query_stripped ?path))")
        (auto simp add: handle_static_def Let_def split: option.split)
  qed
qed (simp add: handle_static_def)

lemma request_provenance:
  assumes "canon_total (sr_fs r)" "(k, e) \<in> set (ss_files (static_step env (Request r) st))"
  shows "(k, e) \<in> set (ss_files st) \<or> read_by env r e"
proof -
  let ?h = "handle_static env (sr_fs r) (sr_site r) (sr_global r) (sr_loc r) (sr_req r) st"
  consider "ss_files (snd ?h) = ss_files st"
    | root_dir path f m data fk where "static_root (sr_site r) (sr_loc r) = Some root_dir"
        "locate_file (sr_fs r) (sr_site r) root_dir path = Inr (f, m)" "fs_read (sr_fs r) f = Some data"
        "fm_len m \<le> FILE_CACHE_MAX_BYTES"
        "snd ?h = remember env f fk (build_entry env (sr_site r) (sr_global r) (sr_loc r) f m data) st"
    using handle_static_cases [of env "sr_fs r" "sr_site r" "sr_global r" "sr_loc r" "sr_req r" st] serve_file_files
    unfolding static_root_def by metis
  then show ?thesis
  proof cases
    case 1
    with assms show ?thesis by simp
  next
    case 2
    let ?e = "build_entry env (sr_site r) (sr_global r) (sr_loc r) f m data"
    have "read_by env r ?e"
      unfolding read_by_def using 2 locate_file_served [OF assms(1) 2(2)] by blast
    moreover have "(k, e) \<in> set (ss_files st) \<or> e = ?e"
      using assms(2) 2(5) remember_files [of env f fk ?e st] by auto
    ultimately show ?thesis by auto
  qed
qed

lemma provenance_step:
  assumes "provenance env evs st" "\<forall>r. ev = Request r \<longrightarrow> canon_total (sr_fs r)"
  shows "provenance env (evs @ [ev]) (static_step env ev st)"
proof (cases ev)
  case (Request r)
  then show ?thesis using assms request_provenance [of r _ _ env st] by (fastforce simp: provenance_def)
next
  case (Changed ps)
  then show ?thesis using assms set_remove_keys [of ps "ss_files st"]
    by (fastforce simp: provenance_def on_file_event_def)
qed

section \<open>Memory and disk\<close>

lemma handle_static_memory:
  assumes "static_root site loc = Some root_dir" "reads_file rq"
    and "map_of (ss_files st) (make_cache_key root_dir (relative_path rq)) = Some e"
  shows "handle_static env fs site global loc rq st = (hit_response env rq e, st)"
  using assms
  by (simp add: handle_static_def static_root_def reads_file_def relative_path_def make_cache_key_def cache_get_fast_def Let_def)

lemma handle_static_disk:
  assumes "static_root site loc = Some root_dir" "reads_file rq"
    and "map_of (ss_files st) (make_cache_key root_dir (relative_path rq)) = None"
    and "locate_file fs site root_dir (cl_uri_path rq) = Inr (f, m)"
  shows "handle_static env fs site global loc rq st =
    serve_file env fs site global loc rq (make_cache_key root_dir (relative_path rq)) f m st"
  using assms
  by (simp add: handle_static_def static_root_def reads_file_def relative_path_def make_cache_key_def cache_get_fast_def Let_def)

lemma serve_file_small:
  assumes "fm_len m \<le> FILE_CACHE_MAX_BYTES" "fs_read fs f = Some data"
  shows "serve_file env fs site global loc rq fk f m st =
    (if still_valid env rq (generate_etag (fm_len m) (fm_modified m)) (fm_modified m) then (not_modified, st)
     else (entry_response env rq (build_entry env site global loc f m data),
           remember env f fk (build_entry env site global loc f m data) st))"
  using assms by (simp add: serve_file_def Let_def)

lemma remember_lookup:
  assumes "fst (access_count_check ck st)"
  shows "map_of (ss_files (remember env ck fk e st)) fk = Some e"
  using assms by (cases "access_count_check ck st") (auto simp: remember_def Let_def cache_insert_lookup)

lemma hit_response_plain:
  assumes "get_header ''range'' rq = None"
  shows "hit_response env rq e =
    (if still_valid env rq (fe_etag e) (fe_modified e) then not_modified else entry_response env rq e)"
  using assms by (simp add: hit_response_def range_of_def)

lemma build_entry_etag:
  "sv_value env (generate_etag (fm_len m) (fm_modified m)) = Some t \<Longrightarrow>
   fe_etag (build_entry env site global loc f m data) = t"
  by (simp add: build_entry_def Let_def unwrap_or_def)

lemma build_entry_modified [simp]: "fe_modified (build_entry env site global loc f m data) = fm_modified m"
  by (simp add: build_entry_def Let_def)



text \<open>
  Whatever requests were served and whatever changes were reported before, each from the file system of
  its time, a file in the memory cache was read from disk by one of these requests: it is a regular
  resolution inside the root of that request's site, or a default document of a directory there,
  and the entry has the content and the validators the file had then.
\<close>

theorem static_cache_provenance:
  assumes "ss_files st = []" and "\<forall>r. Request r \<in> set evs \<longrightarrow> canon_total (sr_fs r)"
    and "(k, e) \<in> set (ss_files (fold (static_step env) evs st))"
  shows "\<exists>r. Request r \<in> set evs \<and> read_by env r e"
proof -
  have "provenance env evs (fold (static_step env) evs st)"
    using assms(2)
  proof (induction evs rule: rev_induct)
    case Nil
    then show ?case using assms(1) by (simp add: provenance_def)
  next
    case (snoc ev evs)
    then have "provenance env evs (fold (static_step env) evs st)" by simp
    from provenance_step [OF this] snoc.prems show ?case by auto
  qed
  with assms(3) show ?thesis by (auto simp: provenance_def)
qed

theorem static_cache_provenance_witness:
  "\<exists>r. Request r \<in> set [Request \<lparr>sr_fs = demo_fs ''hello'', sr_site = demo_static_site, sr_global = default_global_config,
      sr_loc = default_location_config, sr_req = demo_static_req ''/'' []\<rparr>] \<and>
    read_by demo_static_env r (build_entry demo_static_env demo_static_site default_global_config default_location_config
      ''/srv/www/index.html'' \<lparr>fm_is_dir = False, fm_is_file = True, fm_len = 5, fm_modified = 7\<rparr> ''hello'')"
proof (rule static_cache_provenance [where st = "demo_static_state 1" and k = "''/srv/www/''"])
  let ?e = "build_entry demo_static_env demo_static_site default_global_config default_location_config
      ''/srv/www/index.html'' \<lparr>fm_is_dir = False, fm_is_file = True, fm_len = 5, fm_modified = 7\<rparr> ''hello''"
  let ?st = "remember demo_static_env ''/srv/www/index.html'' ''/srv/www/'' ?e (demo_static_state 1)"
  have "handle_static demo_static_env (demo_fs ''hello'') demo_static_site default_global_config default_location_config
      (demo_static_req ''/'' []) (demo_static_state 1) =
    (entry_response demo_static_env (demo_static_req ''/'' []) ?e, ?st)"
    using demo_not_valid demo_read [of "''hello''"] demo_located [of "''hello''", simplified demo_length]
    by (subst handle_static_disk [OF demo_root demo_reads(1)])
      (auto simp: demo_reads demo_state_empty make_cache_key_def serve_file_small FILE_CACHE_MAX_BYTES_def)
  moreover have "(''/srv/www/'', ?e) \<in> set (ss_files ?st)"
    using remember_lookup [OF demo_counted] by (rule map_of_SomeD)
  ultimately show "(''/srv/www/'', ?e) \<in> set (ss_files (fold (static_step demo_static_env)
      [Request \<lparr>sr_fs = demo_fs ''hello'', sr_site = demo_static_site, sr_global = default_global_config,
        sr_loc = default_location_config, sr_req = demo_static_req ''/'' []\<rparr>] (demo_static_state 1)))"
    by simp
qed (auto simp: demo_static_state_def canon_total_def demo_fs_def)

section \<open>The watcher\<close>

lemma remember_other:
  assumes "fst (access_count_check ck st)" "k \<noteq> ck"
  shows "map_of (remove_keys [ck] (ss_files (remember env ck k e st))) k = Some e"
  using assms by (simp add: map_of_remove_keys remember_lookup)

text \<open>
  What a reported change of a cached file does. When the file was requested by its own canonical
  path, the change evicts it, and the next request reads the new file. When it was requested by any
  other path, as the default document of a directory or below a root given by another name, the
  copy kept under the requested path stays, and the old content is served whatever the file
  system now holds, until the entry is evicted for space.
\<close>

theorem watcher_evicts_own_path_only:
  assumes "static_root site loc = Some root_dir" and "reads_file rq" and "get_header ''range'' rq = None"
    and "fst (access_count_check f st)" and "key = make_cache_key root_dir (relative_path rq)"
    and "st' = on_file_event [f] (remember env f key (build_entry env site global loc f m data) st)"
  shows "if f = key
    then (\<forall>fs' f' m'. locate_file fs' site root_dir (cl_uri_path rq) = Inr (f', m') \<longrightarrow>
           handle_static env fs' site global loc rq st' = serve_file env fs' site global loc rq key f' m' st')
    else (\<forall>fs'. fst (handle_static env fs' site global loc rq st') =
           hit_response env rq (build_entry env site global loc f m data))"
proof (cases "f = key")
  case True
  then have "map_of (ss_files st') key = None"
    using assms(6) by (simp add: on_file_event_def map_of_remove_keys)
  with True assms(1,2,5) show ?thesis by (auto intro: handle_static_disk)
next
  case False
  then have "map_of (ss_files st') key = Some (build_entry env site global loc f m data)"
    using assms(4,6) by (simp add: on_file_event_def remember_other)
  with False assms(1,2,5) show ?thesis by (simp add: handle_static_memory)
qed

theorem watcher_evicts_own_path_only_witness:
  "\<forall>fs'. fst (handle_static demo_static_env fs' demo_static_site default_global_config default_location_config
      (demo_static_req ''/'' [])
      (on_file_event [''/srv/www/index.html''] (remember demo_static_env ''/srv/www/index.html'' ''/srv/www/''
        (build_entry demo_static_env demo_static_site default_global_config default_location_config
          ''/srv/www/index.html'' \<lparr>fm_is_dir = False, fm_is_file = True, fm_len = 5, fm_modified = 7\<rparr> ''hello'')
        (demo_static_state 1)))) =
    hit_response demo_static_env (demo_static_req ''/'' [])
      (build_entry demo_static_env demo_static_site default_global_config default_location_config
        ''/srv/www/index.html'' \<lparr>fm_is_dir = False, fm_is_file = True, fm_len = 5, fm_modified = 7\<rparr> ''hello'')"
  using watcher_evicts_own_path_only [OF demo_root demo_reads(1) demo_no_range demo_counted refl refl,
      where env = demo_static_env and global = default_global_config and data = "''hello''" and
        m = "\<lparr>fm_is_dir = False, fm_is_file = True, fm_len = 5, fm_modified = 7\<rparr>"]
  by (simp add: demo_static make_cache_key_def)

text \<open>The open files are never evicted by a change: a large file that was replaced is read through the old descriptor,
  with the new length in the headers.\<close>

lemma replaced_file_reads_old_descriptor:
  assumes "map_of (ss_fds st) f = Some e"
  shows "fd_cache_get_or_open env fs f sz modified (on_file_event paths st) = (Some (fd_fd e), on_file_event paths st)"
  using assms by (simp add: fd_cache_get_or_open_def on_file_event_def)

section \<open>Validators\<close>

lemma serve_file_status:
  "wr_status (fst (serve_file env fs site global loc rq fk f m st)) = 304 \<longleftrightarrow>
   still_valid env rq (generate_etag (fm_len m) (fm_modified m)) (fm_modified m)"
proof (cases "still_valid env rq (generate_etag (fm_len m) (fm_modified m)) (fm_modified m)")
  case True
  then show ?thesis by (simp add: serve_file_def not_modified_def Let_def)
next
  case False
  then show ?thesis
    by (auto simp: serve_file_def error_resp_def entry_response_def range_response_def stream_response_def Let_def
        split: option.splits prod.splits)
qed

lemma etag_not_star [simp]: "generate_etag s t \<noteq> ''*''"
  by (simp add: generate_etag_def)

lemma still_valid_tag:
  assumes "get_header ''if-none-match'' rq = Some (generate_etag s t)"
  shows "still_valid env rq (generate_etag s' t') x \<longleftrightarrow> s = s' \<and> t = t'"
  using assms by (auto simp: still_valid_def is_cache_valid_def dest: generate_etag_inj)

text \<open>
  A client that sends back the entity tag of a file is told that nothing changed exactly when the file
  still has the size and the modification time of the copy the tag was made from; two versions that
  differ in either never share a tag.
\<close>

theorem not_modified_iff_same_version:
  assumes "static_root site loc = Some root_dir" and "reads_file rq"
    and "map_of (ss_files st) (make_cache_key root_dir (relative_path rq)) = None"
    and "locate_file fs site root_dir (cl_uri_path rq) = Inr (f, m)"
    and "get_header ''if-none-match'' rq = Some (generate_etag s t)"
  shows "wr_status (fst (handle_static env fs site global loc rq st)) = 304 \<longleftrightarrow> fm_len m = s \<and> fm_modified m = t"
  using handle_static_disk [OF assms(1-4)] assms(5) by (auto simp: serve_file_status still_valid_tag)

theorem not_modified_iff_same_version_witness:
  "wr_status (fst (handle_static demo_static_env (demo_fs ''hello'') demo_static_site default_global_config
     default_location_config (demo_static_req ''/'' [(''If-None-Match'', Some (generate_etag 5 7))]) (demo_static_state 1))) = 304"
  by (subst not_modified_iff_same_version [OF demo_root demo_reads(1) _ _ demo_tag])
    (simp_all add: demo_reads demo_state_empty demo_located, simp)

section \<open>What is never compressed\<close>

lemma script_mime:
  assumes "ext \<in> {''js'', ''mjs'', ''json'', ''xml''}"
  shows "\<not> compressible_mime (mime_type_for ext)" "compressible_type (mime_type_for ext)"
  using assms by (auto, code_simp+)

text \<open>
  Scripts, JSON and XML are never compressed, though the list of compressible types names them: their types
  carry a charset, and the list is compared with the whole value. The same types are compressed
  when they come from an upstream.
\<close>

theorem scripts_never_compressed:
  assumes "path_extension f = Some ext" and "ext \<in> {''js'', ''mjs'', ''json'', ''xml''}"
  shows "fe_gz (build_entry env site global loc f m data) = None \<and> fe_br (build_entry env site global loc f m data) = None \<and>
    fe_zst (build_entry env site global loc f m data) = None \<and> stream_encoding env site global rq f sz = None \<and>
    compressible_type (mime_type_for ext)"
  using assms script_mime [OF assms(2)] by (simp add: build_entry_def stream_encoding_def Let_def unwrap_or_def)

lemma demo_js: "path_extension ''/srv/www/app.js'' = Some ''js''"
  by code_simp

theorem scripts_never_compressed_witness:
  "stream_encoding demo_static_env demo_static_site default_global_config (demo_static_req ''/app.js'' []) ''/srv/www/app.js'' 900000
     = None"
  using scripts_never_compressed [of "''/srv/www/app.js''" "''js''" demo_static_env demo_static_site default_global_config
      _ _ _ "demo_static_req ''/app.js'' []" 900000] demo_js by simp

end
