(* ===== verification/Router.thy ===== *)
theory Router
  imports Static_File Auth_Request Real_Ip Access_Control
begin

text \<open>
  The entry of every request (\<^verbatim>\<open>src/server/router.rs\<close>) with the counters and guards of
  \<^verbatim>\<open>server/state.rs\<close>, the metrics (\<^verbatim>\<open>middleware/metrics.rs\<close>), the path filter
  (\<^verbatim>\<open>middleware/security.rs\<close>) and the plugin hooks (\<^verbatim>\<open>handler/plugin/mod.rs\<close>).

  The content handlers are a parameter with a state of their own, so that what is proved of the router
  holds for all of them; at the end the static-file handler takes the place of its parameter. The
  authorisation exchange, the plugins, the clock and the header library are parameters too. A
  guard of the source that decrements a counter when it is dropped is the decrement at the end
  of the call that holds it.
\<close>

section \<open>Metrics\<close>

record global_metrics =
  total_requests :: u64
  total_errors_5xx :: u64
  total_errors_4xx :: u64
  total_bytes_sent :: u64
  active_ws_connections :: u64
  active_requests :: u64

definition new_metrics :: global_metrics where
  "new_metrics = \<lparr>total_requests = 0, total_errors_5xx = 0, total_errors_4xx = 0, total_bytes_sent = 0,
     active_ws_connections = 0, active_requests = 0\<rparr>"

definition inc_requests :: "global_metrics \<Rightarrow> global_metrics" where
  "inc_requests m = m\<lparr>total_requests := total_requests m + 1, active_requests := active_requests m + 1\<rparr>"

definition dec_active :: "global_metrics \<Rightarrow> global_metrics" where
  "dec_active m = m\<lparr>active_requests := active_requests m - 1\<rparr>"

definition record_status :: "nat \<Rightarrow> global_metrics \<Rightarrow> global_metrics" where
  "record_status status m =
     (if 500 \<le> status then m\<lparr>total_errors_5xx := total_errors_5xx m + 1\<rparr>
      else if 400 \<le> status then m\<lparr>total_errors_4xx := total_errors_4xx m + 1\<rparr>
      else m)"

definition record_bytes_sent :: "nat \<Rightarrow> global_metrics \<Rightarrow> global_metrics" where
  "record_bytes_sent bytes m = m\<lparr>total_bytes_sent := total_bytes_sent m + of_nat bytes\<rparr>"

definition ws_connected :: "global_metrics \<Rightarrow> global_metrics" where
  "ws_connected m = m\<lparr>active_ws_connections := active_ws_connections m + 1\<rparr>"

definition ws_disconnected :: "global_metrics \<Rightarrow> global_metrics" where
  "ws_disconnected m = m\<lparr>active_ws_connections := active_ws_connections m - 1\<rparr>"

section \<open>Sensitive paths\<close>

definition SENSITIVE_SET :: "string list" where
  "SENSITIVE_SET =
     [''.git'', ''.env'', ''.env.local'', ''.env.production'', ''.env.staging'', ''.htaccess'', ''.htpasswd'', ''.ds_store'',
      ''composer.json'', ''composer.lock'', ''package.json'', ''package-lock.json'', ''yarn.lock'', ''makefile'',
      ''dockerfile'', ''.dockerignore'', ''wp-config.php'', ''config.php'', ''.ssh'', ''.aws'', ''.svn'', ''.hg'', ''.bzr'',
      ''.npmrc'', ''.yarnrc'', ''web.config'', ''.editorconfig'', ''.travis.yml'', ''gruntfile.js'', ''gulpfile.js'',
      ''webpack.config.js'', ''.gitignore'', ''.gitmodules'']"

definition is_sensitive_path :: "string \<Rightarrow> bool" where
  "is_sensitive_path path =
     (let path_only = (case find_idx CHR ''?'' path of Some i \<Rightarrow> take i path | None \<Rightarrow> path)
      in list_ex (\<lambda>segment. segment \<noteq> [] \<and> length segment \<le> 128 \<and> utf8_ok (ascii_lower segment) \<and>
                   ascii_lower segment \<in> set SENSITIVE_SET)
           (split_on CHR ''/'' path_only))"

section \<open>Plugins\<close>

record plugin_request =
  pq_method :: string
  pq_path :: string
  pq_headers :: "(string \<times> string option) list"
  pq_client_ip :: string
  pq_body_len :: nat

datatype plugin_result = Continue | Stop resp

record plugin =
  pl_on_request :: "plugin_request \<Rightarrow> plugin_result"
  pl_on_response :: "resp \<Rightarrow> resp"

record handler_context =
  hc_method :: string
  hc_path :: string
  hc_headers :: "(string \<times> string option) list"
  hc_client_ip :: string
  hc_site_name :: string
  hc_location_path :: string

definition run_plugin_request :: "(string \<rightharpoonup> plugin) \<Rightarrow> string \<Rightarrow> plugin_request \<Rightarrow> resp option" where
  "run_plugin_request plugins name req =
     (case plugins name of
        None \<Rightarrow> None
      | Some p \<Rightarrow> (case pl_on_request p req of Continue \<Rightarrow> None | Stop resp \<Rightarrow> Some resp))"

definition run_plugin_response :: "(string \<rightharpoonup> plugin) \<Rightarrow> string \<Rightarrow> resp \<Rightarrow> resp" where
  "run_plugin_response plugins name resp = (case plugins name of Some p \<Rightarrow> pl_on_response p resp | None \<Rightarrow> resp)"

definition run_custom_handler ::
  "(string \<rightharpoonup> (handler_context \<Rightarrow> resp)) \<Rightarrow> string \<Rightarrow> handler_context \<Rightarrow> resp option" where
  "run_custom_handler handlers name ctx = map_option (\<lambda>h. h ctx) (handlers name)"

section \<open>Redirects\<close>

definition scheme_char :: "char \<Rightarrow> bool" where
  "scheme_char c = (is_ascii_upper c \<or> is_ascii_lower c \<or> is_digit c \<or> c = CHR ''+'' \<or> c = CHR ''-'' \<or> c = CHR ''.'')"

definition is_safe_redirect_target :: "string \<Rightarrow> bool" where
  "is_safe_redirect_target target =
     (let trimmed = trim target
      in if trimmed = [] then False
         else if starts_with trimmed ''//'' then False
         else if starts_with trimmed ''https://'' \<or> starts_with trimmed ''http://'' then True
         else (case find_idx CHR '':'' trimmed of
             Some colon_pos \<Rightarrow> \<not> list_all scheme_char (take colon_pos trimmed)
           | None \<Rightarrow> True))"

definition make_redirect_resp :: "(string \<Rightarrow> string option) \<Rightarrow> string \<Rightarrow> nat \<Rightarrow> resp" where
  "make_redirect_resp value location status =
     (let safe_location = (if is_safe_redirect_target location then location else ''/'')
      in \<lparr>wr_status = status,
          wr_headers = (case value safe_location of Some v \<Rightarrow> hm_insert ''location'' v no_headers | None \<Rightarrow> no_headers),
          wr_body = Bytes []\<rparr>)"

definition parse_return_directive :: "string \<Rightarrow> string \<Rightarrow> nat \<times> string" where
  "parse_return_directive ret request_uri =
     (let ret = trim ret
      in case Option.bind (find_idx CHR '' '' ret)
                (\<lambda>space. map_option (\<lambda>code. (code, str_replace ''$request_uri'' request_uri (trim (drop (space + 1) ret))))
                   (parse_u16 (take space ret))) of
           Some r \<Rightarrow> r
         | None \<Rightarrow> (301, str_replace ''$request_uri'' request_uri ret))"

text \<open>\<^verbatim>\<open>StatusCode::from_u16\<close> takes the codes of three digits.\<close>

definition status_or :: "nat \<Rightarrow> nat \<Rightarrow> nat" where
  "status_or code dflt = (if 100 \<le> code \<and> code < 1000 then code else dflt)"

section \<open>State and environment\<close>

record access_log_entry =
  al_client_ip :: string
  al_method :: string
  al_uri :: string
  al_http_version :: string
  al_status :: nat
  al_bytes_sent :: nat
  al_referer :: string
  al_user_agent :: string
  al_duration_ms :: nat
  al_site :: string

datatype handler_call = CallStatic location_config | CallFastcgi "string option" | CallWebsocket | CallProxy | CallGrpc

record ('s, 'l) router_state =
  rs_active :: u64
  rs_conns :: "nat \<Rightarrow> u64"
  rs_metrics :: global_metrics
  rs_meta :: meta_state
  rs_log :: "('l \<times> access_log_entry) list"
  rs_handlers :: 's

record ('s, 're, 'l) router_env =
  re_registry :: "('re, 'l) vhost_inner"
  re_max_connections :: u64
  re_max_body_bytes :: nat
  re_any_access_log :: bool
  re_h3_ports :: "nat list"
  re_acme_tokens :: "string \<rightharpoonup> string"
  re_acme_ready :: "string \<Rightarrow> bool"
  re_rx :: "'re path_regex"
  re_meta_fs :: file_system
  re_clk :: "nat \<Rightarrow> nat"
  re_files :: file_sys
  re_exchange :: "string \<Rightarrow> bool \<Rightarrow> string \<Rightarrow> string option"
  re_plugins :: "string \<rightharpoonup> plugin"
  re_custom :: "string \<rightharpoonup> (handler_context \<Rightarrow> resp)"
  re_handler :: "('re, 'l) site_info \<Rightarrow> location_config \<Rightarrow> client_request \<Rightarrow> handler_call \<Rightarrow> 's \<Rightarrow> resp \<times> 's"
  re_value :: "string \<Rightarrow> string option"
  re_elapsed_ms :: nat
  re_version :: string

type_synonym ('s, 'l) routed = "resp \<times> ('s, 'l) router_state"

definition count_status :: "nat \<Rightarrow> ('s, 'l) router_state \<Rightarrow> ('s, 'l) router_state" where
  "count_status code st = st\<lparr>rs_metrics := record_status code (rs_metrics st)\<rparr>"

definition reject :: "nat \<Rightarrow> ('s, 'l) router_state \<Rightarrow> ('s, 'l) routed" where
  "reject code st = (error_resp code, count_status code st)"

section \<open>The host and the site\<close>

definition request_host :: "client_request \<Rightarrow> string" where
  "request_host rq = unwrap_or (case cl_authority rq of Some a \<Rightarrow> Some a | None \<Rightarrow> get_header ''host'' rq) []"

definition split_host :: "string \<Rightarrow> string \<times> nat option" where
  "split_host host_raw =
     (if starts_with host_raw ''['' then
        (case find_idx CHR '']'' host_raw of
           Some end \<Rightarrow>
             (take (end + 1) host_raw, Option.bind (strip_prefix (drop (end + 1) host_raw) '':'') parse_u16)
         | None \<Rightarrow> (host_raw, None))
      else (case rfind_idx CHR '':'' host_raw of
          Some i \<Rightarrow> (take i host_raw, parse_u16 (drop (i + 1) host_raw))
        | None \<Rightarrow> (host_raw, None)))"

definition ACME_PREFIX :: string where "ACME_PREFIX = ''/.well-known/acme-challenge/''"

definition acme_answer :: "(string \<rightharpoonup> string) \<Rightarrow> string \<Rightarrow> resp option" where
  "acme_answer tokens path =
     (if 25 < length path \<and> path ! 1 = CHR ''.'' \<and> starts_with path ACME_PREFIX
      then map_option (\<lambda>body. \<lparr>wr_status = 200, wr_headers = hm_insert ''content-type'' ''text/plain'' no_headers, wr_body = Bytes body\<rparr>)
             (tokens (drop 28 path))
      else None)"

definition request_uri :: "client_request \<Rightarrow> string" where
  "request_uri rq = unwrap_or (cl_path_and_query rq) (cl_uri_path rq)"

definition find_site :: "('re, 'l) vhost_inner \<Rightarrow> bool \<Rightarrow> string \<Rightarrow> nat + ('re, 'l) site_info" where
  "find_site registry is_https host =
     (if is_https then (case lookup_by_host_strict registry host of Some (_, s) \<Rightarrow> Inr s | None \<Rightarrow> Inl 421)
      else (case lookup_by_host registry host of Some (_, s) \<Rightarrow> Inr s | None \<Rightarrow> Inl 404))"

definition effective_client_ip :: "('re, 'l) site_info \<Rightarrow> client_request \<Rightarrow> ip_addr \<Rightarrow> ip_addr outcome" where
  "effective_client_ip site rq conn_ip =
     (case si_real_ip site of
        Some rip \<Rightarrow>
          bind_outcome (extract_real_ip rip conn_ip (get_header (header_name rip) rq)) (\<lambda>ip. Val (unwrap_or ip conn_ip))
      | None \<Rightarrow> Val conn_ip)"

definition acme_cert_ready :: "('s, 're, 'l) router_env \<Rightarrow> ('re, 'l) site_info \<Rightarrow> bool" where
  "acme_cert_ready env site = (\<not> si_acme site \<or> re_acme_ready env (si_name site))"

definition https_url :: "('re, 'l) site_info \<Rightarrow> string \<Rightarrow> client_request \<Rightarrow> string" where
  "https_url site host rq =
     (let tls_port = (if 443 \<in> set (si_listen_tls site) then 443
                      else case si_listen_tls site of p # _ \<Rightarrow> p | [] \<Rightarrow> 443);
          host_for_redirect = (if tls_port = 443 then host else host @ '':'' @ dec (unat tls_port))
      in ''https://'' @ host_for_redirect @ unwrap_or (cl_path_and_query rq) ''/'')"

section \<open>The guards in front of a location\<close>

definition site_guards ::
  "('s, 're, 'l) router_env \<Rightarrow> ('re, 'l) site_info \<Rightarrow> string \<Rightarrow> client_request \<Rightarrow> ('s, 'l) router_state
     \<Rightarrow> ('s, 'l) routed + ('re compiled_location \<times> string \<times> ('s, 'l) router_state)" where
  "site_guards env site host rq st =
     (if si_force_https site \<and> \<not> cl_is_tls rq \<and> acme_cert_ready env site
      then Inl (make_redirect_resp (re_value env) (https_url site host rq) 301, count_status 301 st)
      else if is_sensitive_path (cl_uri_path rq) then Inl (reject 403 st)
      else (case apply_rewrites (re_rx env) (re_meta_fs env) (re_clk env) (si_rewrites site) (cl_uri_path rq) (si_root site) (rs_meta st) of
          (rewritten, meta) \<Rightarrow>
            (let st = st\<lparr>rs_meta := meta\<rparr>
             in case rewrite_decision rewritten (cl_uri_path rq) of
                  RedirectTo code target \<Rightarrow>
                    Inl (make_redirect_resp (re_value env) target (unat code), count_status (unat code) st)
                | ServePath path \<Rightarrow>
                    (case match_location (re_rx env) (si_locations site) path of
                       None \<Rightarrow> Inl (reject 404 st)
                     | Some cl \<Rightarrow> Inr (cl, path, st)))))"

definition body_too_large :: "nat \<Rightarrow> client_request \<Rightarrow> bool" where
  "body_too_large max_body rq =
     (0 < max_body \<and>
      (case Option.bind (get_header ''content-length'' rq) parse_u64 of Some n \<Rightarrow> max_body < n | None \<Rightarrow> False))"

text \<open>The answers a location gives by itself: too large a body, then the \<^verbatim>\<open>return_*\<close> directives in their order.\<close>

definition location_answer ::
  "('s, 're, 'l) router_env \<Rightarrow> location_config \<Rightarrow> client_request \<Rightarrow> ('s, 'l) router_state \<Rightarrow> ('s, 'l) routed option" where
  "location_answer env loc rq st =
     (if body_too_large (re_max_body_bytes env) rq then Some (reject 413 st)
      else case loc_return_url loc of
          Some ret \<Rightarrow>
            (case parse_return_directive ret (request_uri rq) of
               (code, url) \<Rightarrow> Some (make_redirect_resp (re_value env) url (status_or code 301), count_status code st))
        | None \<Rightarrow>
        (case loc_return_body loc of
           Some text \<Rightarrow>
             (let code = unat (unwrap_or (loc_return_code loc) 200);
                  ct = unwrap_or (loc_return_content_type loc) ''text/plain; charset=utf-8''
              in Some (\<lparr>wr_status = status_or code 200,
                        wr_headers = hm_insert ''content-type'' (unwrap_or (re_value env ct) ''text/plain; charset=utf-8'') no_headers,
                        wr_body = Bytes text\<rparr>, count_status code st))
         | None \<Rightarrow>
             (case loc_return_code loc of
                Some code \<Rightarrow>
                  Some (\<lparr>wr_status = status_or (unat code) 200, wr_headers = no_headers, wr_body = Bytes []\<rparr>,
                        count_status (unat code) st)
              | None \<Rightarrow> None)))"

section \<open>The handler of a location\<close>

definition body_len :: "client_request \<Rightarrow> nat" where
  "body_len rq = unwrap_or (Option.bind (get_header ''content-length'' rq) parse_u64) 0"

definition call_handler ::
  "('s, 're, 'l) router_env \<Rightarrow> ('re, 'l) site_info \<Rightarrow> location_config \<Rightarrow> client_request \<Rightarrow> handler_call
     \<Rightarrow> ('s, 'l) router_state \<Rightarrow> ('s, 'l) routed" where
  "call_handler env site loc rq call st =
     (case re_handler env site loc rq call (rs_handlers st) of (resp, h) \<Rightarrow> (resp, st\<lparr>rs_handlers := h\<rparr>))"

definition dispatch ::
  "('s, 're, 'l) router_env \<Rightarrow> ('re, 'l) site_info \<Rightarrow> location_config \<Rightarrow> client_request \<Rightarrow> string \<Rightarrow> ip_addr
     \<Rightarrow> ('s, 'l) router_state \<Rightarrow> ('s, 'l) routed" where
  "dispatch env site loc rq path ip st =
     (case loc_handler loc of
        Static \<Rightarrow> call_handler env site loc rq (CallStatic loc) st
      | Fastcgi \<Rightarrow>
          (if loc_try_files loc = [] then call_handler env site loc rq (CallFastcgi None) st
           else (case try_files_resolve (re_files env) (loc_try_files loc) (cl_uri_path rq) (static_root site loc) of
               TryFile p \<Rightarrow>
                 if path_extension p = Some ''php'' then call_handler env site loc rq (CallFastcgi (Some p)) st
                 else call_handler env site loc rq (CallStatic (loc\<lparr>loc_handler := Static\<rparr>)) st
             | TryCode code \<Rightarrow> (error_resp (status_or code 404), count_status code st)
             | TryNotFound \<Rightarrow> call_handler env site loc rq (CallFastcgi None) st))
      | Websocket \<Rightarrow> call_handler env site loc rq CallWebsocket st
      | ReverseProxy \<Rightarrow> call_handler env site loc rq CallProxy st
      | Grpc \<Rightarrow> call_handler env site loc rq CallGrpc st
      | Plugin name \<Rightarrow>
          (case run_custom_handler (re_custom env) name
                  \<lparr>hc_method = cl_method rq, hc_path = path, hc_headers = cl_headers rq, hc_client_ip = show_ip ip,
                   hc_site_name = si_name site, hc_location_path = loc_path loc\<rparr> of
             Some resp \<Rightarrow> (resp, st)
           | None \<Rightarrow>
               (run_plugin_response (re_plugins env) name \<lparr>wr_status = 200, wr_headers = no_headers, wr_body = NoBody\<rparr>, st)))"

definition custom_error_page ::
  "('s, 're, 'l) router_env \<Rightarrow> ('re, 'l) site_info \<Rightarrow> location_config \<Rightarrow> resp \<Rightarrow> resp option" where
  "custom_error_page env site loc resp =
     (let status = wr_status resp
      in if si_error_pages site \<noteq> [] \<and> 400 \<le> status \<and> status < 600 then
           (case map_of (si_error_pages site) (of_nat status) of
              None \<Rightarrow> None
            | Some ep_path \<Rightarrow>
                (case static_root site loc of
                   None \<Rightarrow> None
                 | Some root_dir \<Rightarrow>
                     (let ep_file = path_join root_dir (trim_start_matches (\<lambda>c. c = CHR ''/'') ep_path)
                      in map_option (\<lambda>content.
                           \<lparr>wr_status = status,
                            wr_headers = (case re_value env (mime_type_for (unwrap_or (path_extension ep_file) ''html'')) of
                                Some v \<Rightarrow> hm_insert ''content-type'' v no_headers | None \<Rightarrow> no_headers),
                            wr_body = Bytes content\<rparr>)
                           (fs_read (re_files env) ep_file))))
         else None)"

definition alt_svc :: "('s, 're, 'l) router_env \<Rightarrow> nat option \<Rightarrow> header_map \<Rightarrow> header_map" where
  "alt_svc env host_port h =
     (case (case host_port of
              Some p \<Rightarrow> if p \<in> set (re_h3_ports env) then Some p else (case re_h3_ports env of q # _ \<Rightarrow> Some q | [] \<Rightarrow> None)
            | None \<Rightarrow> (case re_h3_ports env of q # _ \<Rightarrow> Some q | [] \<Rightarrow> None)) of
        Some port \<Rightarrow>
          (case re_value env (''h3='' @ [CHR 0x22] @ '':'' @ dec port @ [CHR 0x22] @ ''; ma=86400'') of
             Some v \<Rightarrow> hm_insert ''alt-svc'' v h | None \<Rightarrow> h)
      | None \<Rightarrow> h)"

definition final_headers ::
  "('s, 're, 'l) router_env \<Rightarrow> ('re, 'l) site_info \<Rightarrow> client_request \<Rightarrow> nat option \<Rightarrow> header_map \<Rightarrow> header_map" where
  "final_headers env site rq host_port h =
     (let h = (case si_hsts_header_value site of
                 Some v \<Rightarrow> if cl_is_tls rq \<and> acme_cert_ready env site then hm_insert ''strict-transport-security'' v h else h
               | None \<Rightarrow> h);
          h = (if cl_is_tls rq \<and> re_h3_ports env \<noteq> [] then alt_svc env host_port h else h)
      in hm_insert ''x-content-type-options'' ''nosniff'' (hm_insert ''server'' ''Sweety'' h))"

text \<open>What follows the handler: the custom error page, or the common headers, the byte count and the access log.\<close>

definition finish ::
  "('s, 're, 'l) router_env \<Rightarrow> ('re, 'l) site_info \<Rightarrow> location_config \<Rightarrow> client_request \<Rightarrow> ip_addr \<Rightarrow> nat option
     \<Rightarrow> ('s, 'l) routed \<Rightarrow> ('s, 'l) routed" where
  "finish env site loc rq ip host_port routed =
     (case routed of (resp, st) \<Rightarrow>
        (let resp = (case loc_handler loc of Plugin name \<Rightarrow> run_plugin_response (re_plugins env) name resp | _ \<Rightarrow> resp);
             st = count_status (wr_status resp) st
         in case custom_error_page env site loc resp of
              Some page \<Rightarrow> (page, st)
            | None \<Rightarrow>
                (let resp = resp\<lparr>wr_headers := final_headers env site rq host_port (wr_headers resp)\<rparr>;
                     bytes_sent = unwrap_or (Option.bind (hm_get ''content-length'' (wr_headers resp)) parse_u64) 0;
                     st = (if 0 < bytes_sent then st\<lparr>rs_metrics := record_bytes_sent bytes_sent (rs_metrics st)\<rparr> else st)
                 in case si_access_logger site of
                      None \<Rightarrow> (resp, st)
                    | Some logger \<Rightarrow>
                        (resp, st\<lparr>rs_log := rs_log st @ [(logger,
                           \<lparr>al_client_ip = show_ip ip, al_method = cl_method rq, al_uri = request_uri rq,
                            al_http_version = re_version env, al_status = wr_status resp, al_bytes_sent = bytes_sent,
                            al_referer = unwrap_or (get_header ''referer'' rq) ''-'',
                            al_user_agent = unwrap_or (get_header ''user-agent'' rq) ''-'',
                            al_duration_ms = (if re_any_access_log env then re_elapsed_ms env else 0),
                            al_site = si_name site\<rparr>)]\<rparr>))))"

section \<open>Access, authorisation and plugins\<close>

definition access_denied :: "'re compiled_location \<Rightarrow> ip_addr \<Rightarrow> bool outcome" where
  "access_denied cl ip =
     (if cl_access_rules cl = [] then Val False
      else bind_outcome (check_access (cl_access_rules cl) ip) (\<lambda>a. Val (a = Deny)))"

definition auth_denied :: "('s, 're, 'l) router_env \<Rightarrow> location_config \<Rightarrow> client_request \<Rightarrow> ip_addr \<Rightarrow> nat option" where
  "auth_denied env loc rq ip =
     (case loc_auth_request loc of
        None \<Rightarrow> None
      | Some auth_url \<Rightarrow>
          (case auth_check (re_exchange env) auth_url rq (show_ip ip) (loc_auth_request_headers loc) (loc_auth_failure_status loc) of
             AuthAllow _ \<Rightarrow> None
           | AuthDeny code \<Rightarrow> Some (unat code)))"

definition plugin_answer ::
  "('s, 're, 'l) router_env \<Rightarrow> location_config \<Rightarrow> client_request \<Rightarrow> string \<Rightarrow> ip_addr \<Rightarrow> resp option" where
  "plugin_answer env loc rq path ip =
     (case loc_handler loc of
        Plugin name \<Rightarrow>
          run_plugin_request (re_plugins env) name
            \<lparr>pq_method = cl_method rq, pq_path = path, pq_headers = cl_headers rq, pq_client_ip = show_ip ip,
             pq_body_len = body_len rq\<rparr>
      | _ \<Rightarrow> None)"

text \<open>Inside the location's connection limit: access rules, authorisation, plugin hook, handler.\<close>

definition guarded_dispatch ::
  "('s, 're, 'l) router_env \<Rightarrow> ('re, 'l) site_info \<Rightarrow> 're compiled_location \<Rightarrow> client_request \<Rightarrow> string \<Rightarrow> ip_addr
     \<Rightarrow> nat option \<Rightarrow> ('s, 'l) router_state \<Rightarrow> ('s, 'l) routed outcome" where
  "guarded_dispatch env site cl rq path ip host_port st =
     bind_outcome (access_denied cl ip) (\<lambda>denied.
       let loc = cl_config cl
       in if denied then Val (reject 403 st)
          else (case auth_denied env loc rq ip of
              Some code \<Rightarrow> Val (error_resp (status_or code 401), count_status code st)
            | None \<Rightarrow>
                (case plugin_answer env loc rq path ip of
                   Some resp \<Rightarrow> Val (resp, count_status (wr_status resp) st)
                 | None \<Rightarrow> Val (finish env site loc rq ip host_port (dispatch env site loc rq path ip st)))))"

definition bump_conn :: "nat \<Rightarrow> u64 \<Rightarrow> ('s, 'l) router_state \<Rightarrow> ('s, 'l) router_state" where
  "bump_conn c d st = st\<lparr>rs_conns := (rs_conns st)(c := rs_conns st c + d)\<rparr>"

definition location_limited ::
  "('s, 're, 'l) router_env \<Rightarrow> ('re, 'l) site_info \<Rightarrow> 're compiled_location \<Rightarrow> client_request \<Rightarrow> string \<Rightarrow> ip_addr
     \<Rightarrow> nat option \<Rightarrow> ('s, 'l) router_state \<Rightarrow> ('s, 'l) routed outcome" where
  "location_limited env site cl rq path ip host_port st =
     (if 0 < cl_limit_conn cl then
        (let cur = rs_conns st (cl_conn_count cl); st = bump_conn (cl_conn_count cl) 1 st
         in if cl_limit_conn cl \<le> unat cur then Val (reject 503 (bump_conn (cl_conn_count cl) (- 1) st))
            else bind_outcome (guarded_dispatch env site cl rq path ip host_port st)
              (\<lambda>(resp, st). Val (resp, bump_conn (cl_conn_count cl) (- 1) st)))
      else guarded_dispatch env site cl rq path ip host_port st)"

definition route ::
  "('s, 're, 'l) router_env \<Rightarrow> client_request \<Rightarrow> ip_addr \<Rightarrow> ('s, 'l) router_state \<Rightarrow> ('s, 'l) routed outcome" where
  "route env rq conn_ip st =
     (case acme_answer (re_acme_tokens env) (cl_uri_path rq) of
        Some resp \<Rightarrow> Val (resp, count_status 200 st)
      | None \<Rightarrow>
          (case split_host (request_host rq) of (host, host_port) \<Rightarrow>
             (case find_site (re_registry env) (cl_is_tls rq) host of
                Inl code \<Rightarrow> Val (reject code st)
              | Inr site \<Rightarrow>
                  bind_outcome (effective_client_ip site rq conn_ip) (\<lambda>ip.
                    case site_guards env site host rq st of
                      Inl routed \<Rightarrow> Val routed
                    | Inr (cl, path, st) \<Rightarrow>
                        (case location_answer env (cl_config cl) rq st of
                           Some routed \<Rightarrow> Val routed
                         | None \<Rightarrow> location_limited env site cl rq path ip host_port st)))))"

section \<open>The entry\<close>

definition multi_site_handler ::
  "('s, 're, 'l) router_env \<Rightarrow> client_request \<Rightarrow> ip_addr \<Rightarrow> ('s, 'l) router_state \<Rightarrow> ('s, 'l) routed outcome" where
  "multi_site_handler env rq conn_ip st =
     (let cur = rs_active st;
          st = st\<lparr>rs_active := cur + 1\<rparr>;
          leave = (\<lambda>(resp, st). (resp, st\<lparr>rs_active := rs_active st - 1\<rparr>))
      in if 0 < re_max_connections env \<and> re_max_connections env \<le> cur then Val (leave (reject 503 st))
         else bind_outcome (route env rq conn_ip (st\<lparr>rs_metrics := inc_requests (rs_metrics st)\<rparr>))
           (\<lambda>(resp, st). Val (leave (resp, st\<lparr>rs_metrics := dec_active (rs_metrics st)\<rparr>))))"

section \<open>A server to try\<close>

text \<open>One site with one location; its handler counts its calls.\<close>

definition demo_router_site :: "bool \<Rightarrow> (string, unit) site_info" where
  "demo_router_site force =
     \<lparr>si_name = ''www'', si_locations = [\<lparr>cl_config = demo_loc_at ''/'', cl_kind = PrefixPath, cl_regex = None,
        cl_conn_count = 0, cl_limit_conn = 10, cl_access_rules = []\<rparr>],
      si_force_https = force, si_websocket = False, si_gzip = None,
      si_gzip_comp_level = None, si_compress = default_site_compress_config, si_root = Some ''/srv/www'',
      si_canonical_root = Some ''/srv/www'', si_index = [''index.html''], si_rewrites = [], si_hsts = None,
      si_hsts_header_value = Some ''max-age=31536000'', si_acme = False, si_fallback = False, si_listen_tls = [443],
      si_error_pages = [(404, ''/404.html'')],
      si_upstreams = [], si_upstream_pools = Map.empty, si_tls = None, si_fastcgi = None, si_proxy_cache = None,
      si_real_ip = None, si_access_logger = None, si_proxy_cache_arc = None, si_fcgi_cache_arc = None\<rparr>"

definition demo_router_env ::
  "((string, unit) site_info \<Rightarrow> location_config \<Rightarrow> client_request \<Rightarrow> handler_call \<Rightarrow> 's \<Rightarrow> resp \<times> 's) \<Rightarrow> bool
     \<Rightarrow> ('s, string, unit) router_env" where
  "demo_router_env h force =
     \<lparr>re_registry = \<lparr>vh_exact = [(''www.test'', (0, demo_router_site force))], vh_wildcard = [], vh_fallback = None\<rparr>,
      re_max_connections = 0, re_max_body_bytes = 0, re_any_access_log = False, re_h3_ports = [],
      re_acme_tokens = Map.empty, re_acme_ready = (\<lambda>_. False), re_rx = demo_rx, re_meta_fs = (\<lambda>_ _. None), re_clk = (\<lambda>_. 0),
      re_files = (demo_fs ''gone'')\<lparr>fs_read := (\<lambda>p. if p = ''/srv/www/404.html'' then Some ''not here'' else None)\<rparr>,
      re_exchange = (\<lambda>_ _ _. None), re_plugins = Map.empty, re_custom = Map.empty,
      re_handler = h, re_value = Some, re_elapsed_ms = 0, re_version = ''HTTP/2.0''\<rparr>"

definition demo_counting :: "(string, unit) site_info \<Rightarrow> location_config \<Rightarrow> client_request \<Rightarrow> handler_call \<Rightarrow> nat \<Rightarrow> resp \<times> nat" where
  "demo_counting site loc rq call n = (not_modified, n + 1)"

definition demo_router_state :: "'s \<Rightarrow> ('s, unit) router_state" where
  "demo_router_state s =
     \<lparr>rs_active = 0, rs_conns = (\<lambda>_. 0), rs_metrics = new_metrics, rs_meta = \<lparr>meta_cache = [], miss_counter = 0\<rparr>,
      rs_log = [], rs_handlers = s\<rparr>"

definition demo_plain_req :: client_request where
  "demo_plain_req = (demo_static_req ''/a'' [])\<lparr>cl_is_tls := False\<rparr>"

section \<open>Counters\<close>

text \<open>What no stage of a request changes: the two connection counters and the number of requests under way.\<close>

definition same_counters :: "('s, 'l) router_state \<Rightarrow> ('s, 'l) router_state \<Rightarrow> bool" where
  "same_counters st st' \<longleftrightarrow> rs_active st' = rs_active st \<and> rs_conns st' = rs_conns st \<and>
     active_requests (rs_metrics st') = active_requests (rs_metrics st) \<and>
     total_requests (rs_metrics st') = total_requests (rs_metrics st)"

lemma same_counters_refl [simp]: "same_counters st st"
  by (simp add: same_counters_def)

lemma same_counters_trans: "same_counters a b \<Longrightarrow> same_counters b c \<Longrightarrow> same_counters a c"
  by (simp add: same_counters_def)

lemma count_status_frame [simp]:
  "same_counters a (count_status code st) = same_counters a st" "rs_handlers (count_status code st) = rs_handlers st"
  "rs_conns (count_status code st) = rs_conns st" "rs_active (count_status code st) = rs_active st"
  by (auto simp: same_counters_def count_status_def record_status_def)

lemma record_status_requests [simp]:
  "active_requests (record_status code m) = active_requests m" "total_requests (record_status code m) = total_requests m"
  by (auto simp: record_status_def)

lemma reject_frame [simp]:
  "same_counters a (snd (reject code st)) = same_counters a st" "rs_handlers (snd (reject code st)) = rs_handlers st"
  by (simp_all add: reject_def)

lemma call_handler_frame:
  "same_counters st (snd (call_handler env site loc rq call st))"
  "rs_handlers (snd (call_handler env site loc rq call st)) = snd (re_handler env site loc rq call (rs_handlers st))"
  by (simp_all add: call_handler_def same_counters_def split: prod.split)

text \<open>The static-file handler always gets the location that was matched.\<close>

definition static_call :: "location_config \<Rightarrow> handler_call \<Rightarrow> bool" where
  "static_call loc call \<longleftrightarrow> (\<forall>l. call = CallStatic l \<longrightarrow> l = loc\<lparr>loc_handler := Static\<rparr>)"

lemma dispatch_cases:
  "rs_handlers (snd (dispatch env site loc rq path ip st)) = rs_handlers st \<and> same_counters st (snd (dispatch env site loc rq path ip st)) \<or>
   (\<exists>call. static_call loc call \<and> dispatch env site loc rq path ip st = call_handler env site loc rq call st)"
  by (cases loc) (auto simp: dispatch_def static_call_def split: handler_type.splits try_files_result.splits option.splits)

lemma dispatch_frame: "same_counters st (snd (dispatch env site loc rq path ip st))"
  using dispatch_cases [of env site loc rq path ip st] call_handler_frame by metis

lemma finish_frame:
  "same_counters (snd r) (snd (finish env site loc rq ip hp r))"
  "rs_handlers (snd (finish env site loc rq ip hp r)) = rs_handlers (snd r)"
  by (auto simp: finish_def Let_def count_status_def same_counters_def record_bytes_sent_def split: prod.splits option.splits)

lemma guarded_dispatch_frame:
  assumes "guarded_dispatch env site cl rq path ip hp st = Val (resp, st')"
  shows "same_counters st st' \<and>
    (rs_handlers st' = rs_handlers st \<or>
     access_denied cl ip = Val False \<and> auth_denied env (cl_config cl) rq ip = None \<and>
     (\<exists>call. static_call (cl_config cl) call \<and>
        rs_handlers st' = snd (re_handler env site (cl_config cl) rq call (rs_handlers st))))"
proof -
  let ?d = "dispatch env site (cl_config cl) rq path ip st"
  let ?f = "finish env site (cl_config cl) rq ip hp ?d"
  from assms consider "same_counters st st' \<and> rs_handlers st' = rs_handlers st"
    | "access_denied cl ip = Val False" "auth_denied env (cl_config cl) rq ip = None" "st' = snd ?f"
    by (auto simp: guarded_dispatch_def reject_def Let_def outcome_simps split: if_splits option.splits)
  then show ?thesis
  proof cases
    case 2
    have "same_counters st st'"
      using same_counters_trans [OF dispatch_frame finish_frame(1)] 2(3) by blast
    moreover have "rs_handlers st' = rs_handlers (snd ?d)" using 2(3) by (simp add: finish_frame)
    ultimately show ?thesis
      using 2(1,2) dispatch_cases [of env site "cl_config cl" rq path ip st]
      by (auto simp: call_handler_frame)
  qed simp
qed

lemma bump_conn_frame [simp]:
  "rs_handlers (bump_conn c d st) = rs_handlers st" "rs_active (bump_conn c d st) = rs_active st"
  "rs_metrics (bump_conn c d st) = rs_metrics st"
  by (simp_all add: bump_conn_def)

lemma bump_back: "same_counters (bump_conn c 1 st) st' \<Longrightarrow> same_counters st (bump_conn c (- 1) st')"
  by (auto simp: same_counters_def bump_conn_def fun_eq_iff)

lemma location_limited_frame:
  assumes "location_limited env site cl rq path ip hp st = Val (resp, st')"
  shows "same_counters st st' \<and>
    (rs_handlers st' = rs_handlers st \<or>
     (0 < cl_limit_conn cl \<longrightarrow> unat (rs_conns st (cl_conn_count cl)) < cl_limit_conn cl) \<and>
     access_denied cl ip = Val False \<and> auth_denied env (cl_config cl) rq ip = None \<and>
     (\<exists>call. static_call (cl_config cl) call \<and>
        rs_handlers st' = snd (re_handler env site (cl_config cl) rq call (rs_handlers st))))"
proof (cases "0 < cl_limit_conn cl")
  case True
  let ?st = "bump_conn (cl_conn_count cl) 1 st"
  show ?thesis
  proof (cases "cl_limit_conn cl \<le> unat (rs_conns st (cl_conn_count cl))")
    case True
    with assms \<open>0 < cl_limit_conn cl\<close> show ?thesis
      by (auto simp: location_limited_def reject_def Let_def bump_back)
  next
    case False
    with assms True obtain st1 where g: "guarded_dispatch env site cl rq path ip hp ?st = Val (resp, st1)"
      and st': "st' = bump_conn (cl_conn_count cl) (- 1) st1"
      by (auto simp: location_limited_def Let_def outcome_simps)
    from guarded_dispatch_frame [OF g] False show ?thesis by (auto simp: st' bump_back)
  qed
next
  case False
  with assms guarded_dispatch_frame show ?thesis by (fastforce simp: location_limited_def)
qed

lemma site_guards_frame:
  "site_guards env site host rq st = Inl (resp, st') \<Longrightarrow> same_counters st st' \<and> rs_handlers st' = rs_handlers st"
  "site_guards env site host rq st = Inr (cl, path, st') \<Longrightarrow>
    same_counters st st' \<and> rs_handlers st' = rs_handlers st \<and> rs_conns st' = rs_conns st \<and>
    \<not> (si_force_https site \<and> \<not> cl_is_tls rq \<and> acme_cert_ready env site) \<and> \<not> is_sensitive_path (cl_uri_path rq) \<and>
    match_location (re_rx env) (si_locations site) path = Some cl"
  by (auto simp: site_guards_def reject_def count_status_def Let_def same_counters_def
      split: if_splits prod.splits option.splits rewrite_outcome.splits)

lemma location_answer_frame:
  "location_answer env loc rq st = Some (resp, st') \<Longrightarrow> same_counters st st' \<and> rs_handlers st' = rs_handlers st"
  "location_answer env loc rq st = None \<Longrightarrow> \<not> body_too_large (re_max_body_bytes env) rq \<and>
    loc_return_url loc = None \<and> loc_return_body loc = None \<and> loc_return_code loc = None"
  by (auto simp: location_answer_def reject_def Let_def split: if_splits prod.splits option.splits)

text \<open>What has to hold for a request to reach a content handler.\<close>

definition reaches_handler ::
  "('s, 're, 'l) router_env \<Rightarrow> client_request \<Rightarrow> ip_addr \<Rightarrow> ('s, 'l) router_state \<Rightarrow> ('re, 'l) site_info
     \<Rightarrow> 're compiled_location \<Rightarrow> ip_addr \<Rightarrow> bool" where
  "reaches_handler env rq conn_ip st site cl ip \<longleftrightarrow>
     find_site (re_registry env) (cl_is_tls rq) (fst (split_host (request_host rq))) = Inr site \<and>
     (\<exists>path. match_location (re_rx env) (si_locations site) path = Some cl) \<and>
     effective_client_ip site rq conn_ip = Val ip \<and>
     (si_force_https site \<and> acme_cert_ready env site \<longrightarrow> cl_is_tls rq) \<and>
     \<not> is_sensitive_path (cl_uri_path rq) \<and>
     \<not> body_too_large (re_max_body_bytes env) rq \<and>
     loc_return_url (cl_config cl) = None \<and> loc_return_body (cl_config cl) = None \<and> loc_return_code (cl_config cl) = None \<and>
     (0 < cl_limit_conn cl \<longrightarrow> unat (rs_conns st (cl_conn_count cl)) < cl_limit_conn cl) \<and>
     access_denied cl ip = Val False \<and> auth_denied env (cl_config cl) rq ip = None"

lemma routed_site_frame:
  assumes site: "find_site (re_registry env) (cl_is_tls rq) host = Inr site" "effective_client_ip site rq conn_ip = Val ip"
    and host: "split_host (request_host rq) = (host, hp)"
    and r: "(case site_guards env site host rq st of Inl routed \<Rightarrow> Val routed
      | Inr (cl, path, st) \<Rightarrow> (case location_answer env (cl_config cl) rq st of
          Some routed \<Rightarrow> Val routed | None \<Rightarrow> location_limited env site cl rq path ip hp st)) = Val (resp, st')"
  shows "same_counters st st' \<and>
    (rs_handlers st' = rs_handlers st \<or>
     (\<exists>cl call. reaches_handler env rq conn_ip st site cl ip \<and> static_call (cl_config cl) call \<and>
        rs_handlers st' = snd (re_handler env site (cl_config cl) rq call (rs_handlers st))))"
proof (cases "site_guards env site host rq st")
  case (Inl routed)
  with r have "site_guards env site host rq st = Inl (resp, st')" by simp
  from site_guards_frame(1) [OF this] show ?thesis by simp
next
  case (Inr b)
  obtain cl path st1 where b: "b = (cl, path, st1)" by (cases b) auto
  note g = site_guards_frame(2) [OF Inr [unfolded b]]
  show ?thesis
  proof (cases "location_answer env (cl_config cl) rq st1")
    case (Some routed)
    with r Inr b have "location_answer env (cl_config cl) rq st1 = Some (resp, st')" by simp
    from location_answer_frame(1) [OF this] g show ?thesis by (auto intro: same_counters_trans)
  next
    case None
    with r Inr b have "location_limited env site cl rq path ip hp st1 = Val (resp, st')" by simp
    from location_limited_frame [OF this] g location_answer_frame(2) [OF None] site host show ?thesis
      by (auto simp: reaches_handler_def intro: same_counters_trans)
  qed
qed

lemma route_frame:
  assumes "route env rq conn_ip st = Val (resp, st')"
  shows "same_counters st st' \<and>
    (rs_handlers st' = rs_handlers st \<or>
     (\<exists>site cl ip call. reaches_handler env rq conn_ip st site cl ip \<and> static_call (cl_config cl) call \<and>
        rs_handlers st' = snd (re_handler env site (cl_config cl) rq call (rs_handlers st))))"
proof (cases "acme_answer (re_acme_tokens env) (cl_uri_path rq)")
  case None
  obtain host hp where host: "split_host (request_host rq) = (host, hp)" by fastforce
  show ?thesis
  proof (cases "find_site (re_registry env) (cl_is_tls rq) host")
    case (Inl code)
    with assms None host show ?thesis by (auto simp: route_def reject_def)
  next
    case (Inr site)
    with assms None host obtain ip where ip: "effective_client_ip site rq conn_ip = Val ip"
      by (auto simp: route_def outcome_simps)
    with assms None host Inr routed_site_frame [OF Inr ip host, of st resp st'] show ?thesis
      by (auto simp: route_def)
  qed
qed (use assms in \<open>auto simp: route_def\<close>)

section \<open>The demonstration request reaches its handler\<close>

definition demo_router_cl :: "string compiled_location" where
  "demo_router_cl = \<lparr>cl_config = demo_loc_at ''/'', cl_kind = PrefixPath, cl_regex = None, cl_conn_count = 0, cl_limit_conn = 10,
     cl_access_rules = []\<rparr>"

lemma demo_site_guards:
  "site_guards (demo_router_env h False) (demo_router_site False) ''www.test'' (demo_static_req ''/'' []) st =
     Inr (demo_router_cl, ''/'', st)"
proof -
  have "\<not> is_sensitive_path ''/''" by code_simp
  moreover have "match_location demo_rx [demo_router_cl] ''/'' = Some demo_router_cl" by code_simp
  ultimately show ?thesis
    by (simp add: site_guards_def demo_router_site_def demo_router_env_def demo_static_req_def rewrite_decision_def
        demo_router_cl_def)
qed

lemma demo_found:
  "split_host (request_host (demo_static_req ''/'' [])) = (''www.test'', None)"
  "find_site (re_registry (demo_router_env h f)) True ''www.test'' = Inr (demo_router_site f)"
proof -
  have "list_all (\<lambda>c. \<not> is_ascii_upper c) ''www.test''" by code_simp
  then show "find_site (re_registry (demo_router_env h f)) True ''www.test'' = Inr (demo_router_site f)"
    by (simp add: find_site_def lookup_by_host_strict_def lookup_inner_def demo_router_env_def Let_def)
qed code_simp

lemma demo_dispatched:
  "\<exists>resp st'. guarded_dispatch (demo_router_env h False) (demo_router_site False) demo_router_cl (demo_static_req ''/'' []) ''/''
      ip hp st = Val (resp, st') \<and>
     rs_handlers st' = snd (h (demo_router_site False) (demo_loc_at ''/'') (demo_static_req ''/'' [])
       (CallStatic (demo_loc_at ''/'')) (rs_handlers st))"
proof -
  let ?env = "demo_router_env h False" and ?loc = "demo_loc_at ''/''" and ?rq = "demo_static_req ''/'' []"
  let ?f = "finish ?env (demo_router_site False) ?loc ?rq ip hp (dispatch ?env (demo_router_site False) ?loc ?rq ''/'' ip st)"
  have loc: "loc_handler ?loc = Static" "loc_auth_request ?loc = None"
    by (simp_all add: demo_loc_at_def default_location_config_def)
  have "guarded_dispatch ?env (demo_router_site False) demo_router_cl ?rq ''/'' ip hp st = Val ?f"
    by (simp add: guarded_dispatch_def access_denied_def demo_router_cl_def auth_denied_def plugin_answer_def Let_def loc)
  moreover have "rs_handlers (snd ?f) = snd (h (demo_router_site False) ?loc ?rq (CallStatic ?loc) (rs_handlers st))"
    by (simp add: finish_frame dispatch_def loc call_handler_frame) (simp add: demo_router_env_def)
  ultimately show ?thesis by (metis prod.collapse)
qed

lemma demo_routed:
  "\<exists>resp st'. multi_site_handler (demo_router_env h False) (demo_static_req ''/'' []) (V4 1) (demo_router_state s) = Val (resp, st') \<and>
     rs_handlers st' = snd (h (demo_router_site False) (demo_loc_at ''/'') (demo_static_req ''/'' [])
       (CallStatic (demo_loc_at ''/'')) s)"
proof -
  let ?env = "demo_router_env h False" and ?rq = "demo_static_req ''/'' []"
  let ?st = "demo_router_state s\<lparr>rs_active := 1, rs_metrics := inc_requests new_metrics\<rparr>"
  obtain resp st' where d: "guarded_dispatch ?env (demo_router_site False) demo_router_cl ?rq ''/'' (V4 1) None
      (bump_conn 0 1 ?st) = Val (resp, st')"
    "rs_handlers st' = snd (h (demo_router_site False) (demo_loc_at ''/'') ?rq (CallStatic (demo_loc_at ''/'')) s)"
    using demo_dispatched [of h "V4 1" None "bump_conn 0 1 ?st"] by (auto simp: demo_router_state_def)
  have "cl_is_tls ?rq" "cl_uri_path ?rq = ''/''" by (simp_all add: demo_static_req_def)
  moreover have "location_answer ?env (cl_config demo_router_cl) ?rq st = None" for st
    by (simp add: location_answer_def body_too_large_def demo_router_env_def demo_router_cl_def demo_loc_at_def
        default_location_config_def)
  moreover have "location_limited ?env (demo_router_site False) demo_router_cl ?rq ''/'' (V4 1) None ?st =
      Val (resp, bump_conn 0 (- 1) st')"
    using d(1) by (simp add: location_limited_def demo_router_cl_def demo_router_state_def)
  moreover have "effective_client_ip (demo_router_site False) ?rq (V4 1) = Val (V4 1)"
    by (simp add: effective_client_ip_def demo_router_site_def)
  ultimately have "route ?env ?rq (V4 1) ?st = Val (resp, bump_conn 0 (- 1) st')"
    using demo_found(2) [of h False] demo_site_guards [of h ?st]
    by (simp add: route_def acme_answer_def demo_found(1))
  then show ?thesis
    using d(2) by (simp add: multi_site_handler_def Let_def demo_router_state_def) (simp add: demo_router_env_def)
qed

text \<open>
  C27: every counter that a request raises is lowered again, on every path through the router, early
  answers included: after a request the number of active connections, the connection count of every
  location and the number of requests under way are what they were before, and the total of requests
  has grown by one unless the request was turned away at the connection limit.
\<close>

theorem counters_restored:
  assumes "multi_site_handler env rq conn_ip st = Val (resp, st')"
  shows "rs_active st' = rs_active st \<and> rs_conns st' = rs_conns st \<and>
    active_requests (rs_metrics st') = active_requests (rs_metrics st) \<and>
    total_requests (rs_metrics st') =
      (if 0 < re_max_connections env \<and> re_max_connections env \<le> rs_active st then total_requests (rs_metrics st)
       else total_requests (rs_metrics st) + 1)"
proof (cases "0 < re_max_connections env \<and> re_max_connections env \<le> rs_active st")
  case True
  with assms show ?thesis by (auto simp: multi_site_handler_def reject_def count_status_def Let_def)
next
  case False
  let ?st = "st\<lparr>rs_active := rs_active st + 1, rs_metrics := inc_requests (rs_metrics st)\<rparr>"
  from assms False obtain st1 where r: "route env rq conn_ip ?st = Val (resp, st1)"
    and st': "st' = st1\<lparr>rs_metrics := dec_active (rs_metrics st1), rs_active := rs_active st1 - 1\<rparr>"
    by (auto simp: multi_site_handler_def Let_def outcome_simps split: if_splits)
  from route_frame [OF r] False show ?thesis
    by (auto simp: st' same_counters_def inc_requests_def dec_active_def)
qed

theorem counters_restored_witness:
  "\<exists>resp st'. multi_site_handler (demo_router_env demo_counting False) (demo_static_req ''/'' []) (V4 1) (demo_router_state 0) = Val (resp, st') \<and>
     rs_active st' = 0 \<and> rs_conns st' = (\<lambda>_. 0) \<and> total_requests (rs_metrics st') = 1"
proof -
  obtain resp st' where r: "multi_site_handler (demo_router_env demo_counting False) (demo_static_req ''/'' []) (V4 1) (demo_router_state 0) =
      Val (resp, st')"
    using demo_routed [of demo_counting 0] by blast
  from r counters_restored [OF r] show ?thesis
    by (auto simp: demo_router_state_def demo_router_env_def new_metrics_def)
qed

lemma handler_frame:
  assumes "multi_site_handler env rq conn_ip st = Val (resp, st')" and "rs_handlers st' \<noteq> rs_handlers st"
  shows "(re_max_connections env = 0 \<or> rs_active st < re_max_connections env) \<and>
    (\<exists>site cl ip call. reaches_handler env rq conn_ip st site cl ip \<and> static_call (cl_config cl) call \<and>
       rs_handlers st' = snd (re_handler env site (cl_config cl) rq call (rs_handlers st)))"
proof -
  let ?st = "st\<lparr>rs_active := rs_active st + 1, rs_metrics := inc_requests (rs_metrics st)\<rparr>"
  from assms have lim: "\<not> (0 < re_max_connections env \<and> re_max_connections env \<le> rs_active st)"
    by (auto simp: multi_site_handler_def reject_def Let_def split: if_splits)
  with assms(1) obtain st1 where r: "route env rq conn_ip ?st = Val (resp, st1)"
    and "rs_handlers st' = rs_handlers st1"
    by (auto simp: multi_site_handler_def Let_def outcome_simps split: if_splits)
  moreover have "reaches_handler env rq conn_ip ?st = reaches_handler env rq conn_ip st"
    by (simp add: fun_eq_iff reaches_handler_def)
  ultimately obtain site cl ip call where "reaches_handler env rq conn_ip st site cl ip" "static_call (cl_config cl) call"
    "rs_handlers st' = snd (re_handler env site (cl_config cl) rq call (rs_handlers st))"
    using route_frame [OF r] assms(2) by auto
  moreover have "re_max_connections env = 0 \<or> rs_active st < re_max_connections env"
    using lim by (auto simp: word_gt_0)
  ultimately show ?thesis by blast
qed



section \<open>Redirect targets\<close>

text \<open>The scheme of a reference: the longest run of scheme characters in front of a colon.\<close>

definition uri_scheme :: "string \<Rightarrow> string option" where
  "uri_scheme s =
     (case find_idx CHR '':'' s of
        Some i \<Rightarrow> if 0 < i \<and> list_all scheme_char (take i s) then Some (take i s) else None
      | None \<Rightarrow> None)"

lemma find_idx_prefix: "starts_with s p \<Longrightarrow> find_idx c p = Some i \<Longrightarrow> find_idx c s = Some i \<and> take i s = take i p"
  by (induction s p arbitrary: i rule: starts_with.induct) (auto split: if_splits option.splits)

lemma http_scheme:
  "starts_with s ''https://'' \<Longrightarrow> uri_scheme s = Some ''https''" "starts_with s ''http://'' \<Longrightarrow> uri_scheme s = Some ''http''"
  using find_idx_prefix [of s "''https://''" "CHR '':''" 5] find_idx_prefix [of s "''http://''" "CHR '':''" 4]
  by (auto simp: uri_scheme_def scheme_char_def is_ascii_lower_def)

text \<open>
  A redirect never leaves through a dangerous scheme. Whatever target the rewrite rules or a return
  directive produce, the Location header that is sent refers, after surrounding blanks, to http or https, or
  has no scheme; it never is a network-path reference starting with two slashes, and a target that fails
  becomes the root.
\<close>

theorem redirect_target_scheme:
  assumes "make_redirect_resp Some target status = resp"
  shows "\<exists>v. hm_get ''location'' (wr_headers resp) = Some v \<and>
    (uri_scheme (trim v) = None \<or> uri_scheme (trim v) = Some ''http'' \<or> uri_scheme (trim v) = Some ''https'') \<and>
    \<not> starts_with (trim v) ''//'' \<and> (v = target \<or> v = ''/'')"
proof -
  have root: "trim ''/'' = ''/''" by code_simp
  have "uri_scheme ''/'' = None" by code_simp
  moreover have "is_safe_redirect_target target \<Longrightarrow> uri_scheme (trim target) \<noteq> None \<Longrightarrow>
      starts_with (trim target) ''https://'' \<or> starts_with (trim target) ''http://''"
    by (auto simp: is_safe_redirect_target_def uri_scheme_def Let_def split: if_splits option.splits)
  moreover have "is_safe_redirect_target target \<Longrightarrow> \<not> starts_with (trim target) ''//''"
    by (auto simp: is_safe_redirect_target_def Let_def split: if_splits)
  ultimately show ?thesis
    using assms root by (auto simp: make_redirect_resp_def hm_defs Let_def http_scheme)
qed

theorem redirect_target_scheme_witness:
  "hm_get ''location'' (wr_headers (make_redirect_resp Some ''javascript:alert(1)'' 302)) = Some ''/'' \<and>
   (\<exists>v. hm_get ''location'' (wr_headers (make_redirect_resp Some ''/next'' 302)) = Some v \<and> (v = ''/next'' \<or> v = ''/''))"
proof -
  have "hm_get ''location'' (wr_headers (make_redirect_resp Some ''javascript:alert(1)'' 302)) = Some ''/''" by code_simp
  then show ?thesis using redirect_target_scheme [OF refl, of "''/next''" 302] by auto
qed

text \<open>A backslash in second place, which browsers read as a slash, is let through.\<close>

lemma backslash_target_allowed:
  "is_safe_redirect_target (CHR ''/'' # CHR 0x5C # ''evil.test'')"
  by code_simp

section \<open>Plain HTTP\<close>

text \<open>
  A site that insists on HTTPS never serves plain HTTP. Once its certificate is there, a plain request
  that passes the connection limit and is no certificate challenge is sent to the same host, path and
  query over HTTPS, with the site's TLS port unless it is 443; no handler runs and nothing is logged.
\<close>

theorem force_https_redirects:
  assumes "find_site (re_registry env) False (fst (split_host (request_host rq))) = Inr site"
    and "si_force_https site" and "acme_cert_ready env site" and "\<not> cl_is_tls rq"
    and "acme_answer (re_acme_tokens env) (cl_uri_path rq) = None"
    and "effective_client_ip site rq conn_ip = Val ip"
    and "re_max_connections env = 0" and "re_value env = Some"
  shows "\<exists>resp st'. multi_site_handler env rq conn_ip st = Val (resp, st') \<and> wr_status resp = 301 \<and>
    hm_get ''location'' (wr_headers resp) = Some (https_url site (fst (split_host (request_host rq))) rq) \<and>
    rs_handlers st' = rs_handlers st \<and> rs_log st' = rs_log st"
proof -
  obtain host hp where host: "split_host (request_host rq) = (host, hp)" by fastforce
  let ?url = "https_url site host rq"
  have "starts_with (trim ?url) ''https://''"
    using trim_prefix [of "CHR ''h''" "''ttps://''"] by (simp add: https_url_def Let_def graphic_def)
  then have "is_safe_redirect_target ?url"
    by (auto simp: is_safe_redirect_target_def Let_def split: option.splits elim!: starts_with.elims(2))
  then show ?thesis
    using assms host
    by (auto simp: multi_site_handler_def route_def site_guards_def make_redirect_resp_def hm_defs count_status_def Let_def)
qed

lemma demo_plain_site:
  "find_site (re_registry (demo_router_env demo_counting True)) False (fst (split_host (request_host demo_plain_req))) = Inr (demo_router_site True)"
proof -
  have "fst (split_host (request_host demo_plain_req)) = ''www.test''" by code_simp
  moreover have "list_all (\<lambda>c. \<not> is_ascii_upper c) ''www.test''" by code_simp
  ultimately show ?thesis
    by (simp add: find_site_def lookup_by_host_def lookup_inner_def demo_router_env_def Let_def)
qed

theorem force_https_redirects_witness:
  "\<exists>resp st'. multi_site_handler (demo_router_env demo_counting True) demo_plain_req (V4 1) (demo_router_state 0) = Val (resp, st') \<and>
     hm_get ''location'' (wr_headers resp) = Some ''https://www.test/a'' \<and> rs_handlers st' = 0"
proof -
  have "https_url (demo_router_site True) (fst (split_host (request_host demo_plain_req))) demo_plain_req = ''https://www.test/a''"
    by code_simp
  then show ?thesis
    using force_https_redirects [OF demo_plain_site, of "V4 1" "V4 1" "demo_router_state 0"]
    by (auto simp: demo_router_site_def demo_router_env_def acme_cert_ready_def demo_plain_req_def acme_answer_def
        effective_client_ip_def demo_router_state_def demo_static_req_def)
qed

section \<open>Custom error pages\<close>

text \<open>
  A custom error page goes out without the headers every other answer of a handler has. When the site
  has a page for the status of an answer and the file can be read, the response carries the content
  type alone: no Strict-Transport-Security although the site asks for it, no Server and no
  X-Content-Type-Options header, none of the handler's headers, and the request is not logged.
\<close>

theorem error_page_bare:
  assumes "custom_error_page env site loc resp = Some page" and "\<forall>name. loc_handler loc \<noteq> Plugin name"
  shows "finish env site loc rq ip hp (resp, st) = (page, count_status (wr_status resp) st) \<and>
    wr_status page = wr_status resp \<and> (\<forall>k. k \<noteq> ''content-type'' \<longrightarrow> hm_get k (wr_headers page) = None) \<and>
    rs_log (snd (finish env site loc rq ip hp (resp, st))) = rs_log st"
proof -
  have "(case loc_handler loc of Plugin name \<Rightarrow> run_plugin_response (re_plugins env) name resp | _ \<Rightarrow> resp) = resp"
    using assms(2) by (auto split: handler_type.splits)
  then have "finish env site loc rq ip hp (resp, st) = (page, count_status (wr_status resp) st)"
    using assms(1) by (simp add: finish_def Let_def)
  moreover have "wr_status page = wr_status resp" "\<forall>k. k \<noteq> ''content-type'' \<longrightarrow> hm_get k (wr_headers page) = None"
    using assms(1) by (auto simp: custom_error_page_def Let_def hm_defs split: if_splits option.splits)
  ultimately show ?thesis by (simp add: count_status_def)
qed

theorem error_page_bare_witness:
  "\<exists>page. fst (finish (demo_router_env demo_counting False) (demo_router_site False) (demo_loc_at ''/'') (demo_static_req ''/'' []) (V4 1) None
      (error_resp 404, demo_router_state 0)) = page \<and>
    wr_status page = 404 \<and> hm_get ''strict-transport-security'' (wr_headers page) = None"
proof -
  have "case custom_error_page (demo_router_env demo_counting False) (demo_router_site False) (demo_loc_at ''/'') (error_resp 404) of
      Some page \<Rightarrow> wr_status page = 404 | None \<Rightarrow> False"
    by code_simp
  then obtain page where page:
    "custom_error_page (demo_router_env demo_counting False) (demo_router_site False) (demo_loc_at ''/'') (error_resp 404) = Some page"
    by (auto split: option.splits)
  from error_page_bare [OF page, of "demo_static_req ''/'' []" "V4 1" None "demo_router_state 0"] show ?thesis
    by (simp add: demo_loc_at_def default_location_config_def error_resp_def)
qed

text \<open>The other answers of handlers do carry them.\<close>

lemma final_headers_complete:
  assumes "si_hsts_header_value site = Some v" "cl_is_tls rq" "acme_cert_ready env site"
  shows "hm_get ''strict-transport-security'' (final_headers env site rq hp h) = Some v \<and>
    hm_get ''server'' (final_headers env site rq hp h) = Some ''Sweety'' \<and>
    hm_get ''x-content-type-options'' (final_headers env site rq hp h) = Some ''nosniff''"
  using assms by (auto simp: final_headers_def alt_svc_def hm_defs Let_def split: option.splits list.splits)

text \<open>The response hook of a plugin runs twice on the default answer.\<close>

lemma plugin_response_runs_twice:
  assumes "loc_handler loc = Plugin name" "re_custom env name = None" "re_plugins env name = Some p"
    and "si_error_pages site = []"
  shows "\<exists>h. fst (finish env site loc rq ip hp (dispatch env site loc rq path ip st)) =
    (pl_on_response p (pl_on_response p \<lparr>wr_status = 200, wr_headers = no_headers, wr_body = NoBody\<rparr>))\<lparr>wr_headers := h\<rparr>"
  using assms
  by (auto simp: finish_def dispatch_def run_custom_handler_def run_plugin_response_def custom_error_page_def Let_def
      split: option.splits)

section \<open>Static files behind the router\<close>

text \<open>The router with the static-file handler in its place; the other handlers do not touch its caches.\<close>

definition with_static ::
  "static_env \<Rightarrow> file_sys \<Rightarrow> global_config \<Rightarrow> (static_state, 're, 'l) router_env \<Rightarrow> (static_state, 're, 'l) router_env" where
  "with_static senv fs global env =
     env\<lparr>re_handler := (\<lambda>site loc rq call st.
        case call of CallStatic l \<Rightarrow> handle_static senv fs site global l rq st
          | _ \<Rightarrow> (fst (re_handler env site loc rq call st), st))\<rparr>"



end
