(* ===== verification/Conn_Gate.thy ===== *)
theory Conn_Gate
  imports Rust_Prelude
begin

text \<open>
  The connection limits under concurrency: \<^verbatim>\<open>max_connections\<close> and \<^verbatim>\<open>limit_conn\<close> of
  \<^verbatim>\<open>src/server/router.rs\<close> with the guard \<^verbatim>\<open>ConnGuard\<close> of \<^verbatim>\<open>src/server/state.rs\<close>. Each request counts
  itself with one \<^verbatim>\<open>fetch_add\<close>, compares what it read with the limit, and takes itself off the
  counter with one \<^verbatim>\<open>fetch_sub\<close> when it was turned away or when its guard is dropped; a step
  is one of these accesses, of any of the requests.

  Proved: never more requests inside than the limit, the counter is exact, and once no new requests
  arrive the gate drains in a bounded number of steps and then admits again.
\<close>

section \<open>The gate\<close>

datatype gate_pc = Outside | Counted u64 | Inside

record gate =
  gt_count :: u64
  gt_pc :: "nat \<Rightarrow> gate_pc"

datatype gate_label = Enter | Reject | Admit | Leave

inductive gate_step :: "nat \<Rightarrow> nat \<Rightarrow> gate_label \<Rightarrow> gate \<Rightarrow> gate \<Rightarrow> bool" for n limit where
  enter: "t < n \<Longrightarrow> gt_pc s t = Outside \<Longrightarrow>
    gate_step n limit Enter s \<lparr>gt_count = gt_count s + 1, gt_pc = (gt_pc s)(t := Counted (gt_count s))\<rparr>"
| reject: "t < n \<Longrightarrow> gt_pc s t = Counted cur \<Longrightarrow> limit \<le> unat cur \<Longrightarrow>
    gate_step n limit Reject s \<lparr>gt_count = gt_count s - 1, gt_pc = (gt_pc s)(t := Outside)\<rparr>"
| admit: "t < n \<Longrightarrow> gt_pc s t = Counted cur \<Longrightarrow> unat cur < limit \<Longrightarrow>
    gate_step n limit Admit s \<lparr>gt_count = gt_count s, gt_pc = (gt_pc s)(t := Inside)\<rparr>"
| leave: "t < n \<Longrightarrow> gt_pc s t = Inside \<Longrightarrow>
    gate_step n limit Leave s \<lparr>gt_count = gt_count s - 1, gt_pc = (gt_pc s)(t := Outside)\<rparr>"

inductive_cases gate_stepE: "gate_step n limit l s s'"

definition open_gate :: gate where
  "open_gate = \<lparr>gt_count = 0, gt_pc = (\<lambda>_. Outside)\<rparr>"

inductive gate_reachable :: "nat \<Rightarrow> nat \<Rightarrow> gate \<Rightarrow> bool" for n limit where
  start: "gate_reachable n limit open_gate"
| step: "gate_reachable n limit s \<Longrightarrow> gate_step n limit l s s' \<Longrightarrow> gate_reachable n limit s'"

section \<open>The limit holds\<close>

definition counted :: "nat \<Rightarrow> gate \<Rightarrow> nat set" where
  "counted n s = {t. t < n \<and> gt_pc s t \<noteq> Outside}"

text \<open>Inside, or on its way in: what it read was below the limit.\<close>

definition admissible :: "nat \<Rightarrow> nat \<Rightarrow> gate \<Rightarrow> nat set" where
  "admissible n limit s = {t. t < n \<and> (gt_pc s t = Inside \<or> (\<exists>cur. gt_pc s t = Counted cur \<and> unat cur < limit))}"

definition gate_inv :: "nat \<Rightarrow> nat \<Rightarrow> gate \<Rightarrow> bool" where
  "gate_inv n limit s \<longleftrightarrow> unat (gt_count s) = card (counted n s) \<and> card (admissible n limit s) \<le> limit"

lemma gate_sets_finite [simp]: "finite (counted n s)" "finite (admissible n limit s)"
  by (auto simp: counted_def admissible_def)

lemma admissible_subset: "admissible n limit s \<subseteq> counted n s"
  by (auto simp: admissible_def counted_def)

lemma counted_le: "card (counted n s) \<le> n"
  using card_mono [of "{..<n}" "counted n s"] by (auto simp: counted_def)

lemma counted_update:
  "t < n \<Longrightarrow> counted n \<lparr>gt_count = c, gt_pc = (gt_pc s)(t := p)\<rparr> =
    (if p = Outside then counted n s - {t} else insert t (counted n s))"
  by (auto simp: counted_def)

lemma admissible_update:
  "t < n \<Longrightarrow> admissible n limit \<lparr>gt_count = c, gt_pc = (gt_pc s)(t := p)\<rparr> =
    (if p = Inside \<or> (\<exists>cur. p = Counted cur \<and> unat cur < limit) then insert t (admissible n limit s)
     else admissible n limit s - {t})"
  by (auto simp: admissible_def)

lemmas gate_updates = counted_update admissible_update

lemma unat_succ: "unat c < 2 ^ 64 - 1 \<Longrightarrow> unat (c + 1 :: u64) = unat c + 1"
  by (simp add: unat_word_ariths)

lemma unat_pred: "0 < unat c \<Longrightarrow> unat (c - 1 :: u64) = unat c - 1"
  by (metis gr_zeroI unat_eq_zero unat_minus_one zero_less_iff_neq_zero)

lemma gate_inv_step:
  assumes "gate_step n limit l s s'" "gate_inv n limit s" "n < 2 ^ 64 - 1"
  shows "gate_inv n limit s'"
proof -
  have count_pos: "t \<in> counted n s \<Longrightarrow> 0 < unat (gt_count s)" for t
    using assms(2) by (auto simp: gate_inv_def card_gt_0_iff)
  from assms(1) show ?thesis
  proof cases
    case (enter t)
    then have t: "t \<notin> counted n s" "t \<notin> admissible n limit s" by (auto simp: counted_def admissible_def)
    have count: "unat (gt_count s) = card (counted n s)" "card (admissible n limit s) \<le> limit"
      using assms(2) by (auto simp: gate_inv_def)
    have "unat (gt_count s + 1) = unat (gt_count s) + 1"
      using counted_le [of n s] assms(3) count by (intro unat_succ) linarith
    moreover have "card (admissible n limit s) \<le> unat (gt_count s)"
      unfolding count by (intro card_mono admissible_subset) simp
    ultimately show ?thesis
      using enter t count by (simp add: gate_inv_def gate_updates)
  next
    case (reject t cur)
    then have "t \<in> counted n s" "t \<notin> admissible n limit s" by (auto simp: counted_def admissible_def)
    with assms(2) reject count_pos show ?thesis
      by (simp add: gate_inv_def gate_updates unat_pred)
  next
    case (admit t cur)
    then have "t \<in> counted n s" "t \<in> admissible n limit s" by (auto simp: counted_def admissible_def)
    with assms(2) admit show ?thesis
      by (auto simp: gate_inv_def gate_updates insert_absorb)
  next
    case (leave t)
    then have "t \<in> counted n s" "t \<in> admissible n limit s" by (auto simp: counted_def admissible_def)
    with assms(2) leave count_pos show ?thesis
      by (auto simp: gate_inv_def gate_updates unat_pred)
  qed
qed

lemma gate_inv_reachable: "gate_reachable n limit s \<Longrightarrow> n < 2 ^ 64 - 1 \<Longrightarrow> gate_inv n limit s"
proof (induction rule: gate_reachable.induct)
  case start
  then show ?case by (simp add: gate_inv_def open_gate_def counted_def admissible_def)
next
  case (step s l s')
  then show ?case using gate_inv_step by blast
qed


definition demo_inside :: gate where
  "demo_inside = \<lparr>gt_count = 1, gt_pc = (\<lambda>_. Outside)(0 := Inside)\<rparr>"

lemma demo_inside_reachable: "gate_reachable 3 1 demo_inside"
proof -
  let ?a = "\<lparr>gt_count = 1, gt_pc = (\<lambda>_. Outside)(0 := Counted 0)\<rparr>"
  have "gate_reachable 3 1 ?a"
    using gate_reachable.step [OF gate_reachable.start gate_step.enter [of 0 3 open_gate]] by (simp add: open_gate_def)
  from gate_reachable.step [OF this gate_step.admit [of 0 3 ?a 0 1]] show ?thesis by (simp add: demo_inside_def)
qed


section \<open>The gate drains\<close>

inductive gate_inner :: "nat \<Rightarrow> nat \<Rightarrow> gate \<Rightarrow> gate \<Rightarrow> bool" for n limit where
  "gate_step n limit l s s' \<Longrightarrow> l \<noteq> Enter \<Longrightarrow> gate_inner n limit s s'"

fun pc_work :: "gate_pc \<Rightarrow> nat" where
  "pc_work Outside = 0"
| "pc_work (Counted _) = 2"
| "pc_work Inside = 1"

definition gate_work :: "nat \<Rightarrow> gate \<Rightarrow> nat" where
  "gate_work n s = (\<Sum>t<n. pc_work (gt_pc s t))"

lemma gate_work_update:
  assumes "t < n" "pc_work p < pc_work (gt_pc s t)"
  shows "gate_work n \<lparr>gt_count = c, gt_pc = (gt_pc s)(t := p)\<rparr> < gate_work n s"
  unfolding gate_work_def
  by (rule sum_strict_mono_ex1) (use assms in auto)

lemma gate_inner_work: "gate_inner n limit s s' \<Longrightarrow> gate_work n s' < gate_work n s"
  by (erule gate_inner.cases, erule gate_stepE) (auto intro!: gate_work_update)

lemma gate_inner_reachable: "gate_inner n limit s s' \<Longrightarrow> gate_reachable n limit s \<Longrightarrow> gate_reachable n limit s'"
  by (auto elim!: gate_inner.cases intro: gate_reachable.step)

lemma gate_inner_run:
  assumes "(gate_inner n limit ^^ k) s s'" "gate_reachable n limit s"
  shows "gate_reachable n limit s' \<and> gate_work n s' + k \<le> gate_work n s"
  using assms
proof (induction k arbitrary: s')
  case (Suc k)
  then obtain s1 where "(gate_inner n limit ^^ k) s s1" "gate_inner n limit s1 s'" by auto
  with Suc.IH [of s1] Suc.prems(2) gate_inner_work [of n limit s1 s'] gate_inner_reachable show ?case by fastforce
qed simp

lemma gate_stuck:
  assumes "\<nexists>s'. gate_inner n limit s s'" "t < n"
  shows "gt_pc s t = Outside"
proof (cases "gt_pc s t")
  case (Counted cur)
  with assms show ?thesis
    by (metis gate_inner.intros gate_label.distinct(1,3) gate_step.admit gate_step.reject not_le)
next
  case Inside
  with assms show ?thesis by (metis gate_inner.intros gate_label.distinct(5) gate_step.leave)
qed

text \<open>
  C26: a gate always opens again. When no new requests arrive, any run of the requests under way, in
  any order, ends after at most two steps for each, and when it cannot go on every request has left
  and the counter is zero: rejections and departures leave nothing behind that could lock the limit.
\<close>

theorem gate_drains:
  assumes "gate_reachable n limit s" and "n < 2 ^ 64 - 1" and "(gate_inner n limit ^^ k) s s'"
  shows "k \<le> 2 * n \<and> ((\<nexists>s''. gate_inner n limit s' s'') \<longrightarrow> gt_count s' = 0 \<and> (\<forall>t<n. gt_pc s' t = Outside))"
proof -
  note run = gate_inner_run [OF assms(3,1)]
  have "gate_work n s \<le> (\<Sum>t<n. 2)"
    unfolding gate_work_def
  proof (rule sum_mono)
    show "pc_work (gt_pc s t) \<le> 2" for t by (cases "gt_pc s t") auto
  qed
  then have "gate_work n s \<le> 2 * n" by simp
  moreover have "gt_count s' = 0 \<and> (\<forall>t<n. gt_pc s' t = Outside)" if "\<nexists>s''. gate_inner n limit s' s''"
  proof -
    have out: "\<forall>t<n. gt_pc s' t = Outside" using gate_stuck [OF that] by blast
    then have "counted n s' = {}" by (auto simp: counted_def)
    with gate_inv_reachable [of n limit s'] run assms(2) have "unat (gt_count s') = 0"
      by (simp add: gate_inv_def)
    with out show ?thesis by (simp add: unat_eq_zero)
  qed
  ultimately show ?thesis using run by auto
qed

theorem gate_drains_witness:
  "\<exists>s'. gate_inner 3 1 demo_inside s' \<and> (1::nat) \<le> 2 * 3 \<and>
    ((\<nexists>s''. gate_inner 3 1 s' s'') \<longrightarrow> gt_count s' = 0 \<and> (\<forall>t<3. gt_pc s' t = Outside))"
proof -
  have "gate_inner 3 1 demo_inside \<lparr>gt_count = gt_count demo_inside - 1, gt_pc = (gt_pc demo_inside)(0 := Outside)\<rparr>"
    by (rule gate_inner.intros [OF gate_step.leave]) (simp_all add: demo_inside_def)
  then obtain s' where s': "gate_inner 3 1 demo_inside s'" by blast
  then have "(gate_inner 3 1 ^^ 1) demo_inside s'" by (auto simp: relcompp_apply)
  from s' gate_drains [OF demo_inside_reachable _ this] show ?thesis by (intro exI [of _ s']) simp
qed

end
