(* ===== verification/Fastcgi_Proto.thy ===== *)
theory Fastcgi_Proto
  imports Codec Ip_Addr Config
begin

text \<open>
  The FastCGI wire format (\<^verbatim>\<open>src/handler/fastcgi/proto.rs\<close>): records and name-value pairs as they are
  written, records as they are read, the end of the header block and its lines.

  Proved: what is written as records reads back as the data, cut at the largest content a record
  has; name-value pairs read back by a decoder after the specification of the protocol; where a header
  block ends does not depend on how much of the body has arrived.
\<close>

section \<open>Writing\<close>

definition FCGI_VERSION :: u8 where "FCGI_VERSION = 1"
definition FCGI_BEGIN_REQUEST :: u8 where "FCGI_BEGIN_REQUEST = 1"
definition FCGI_PARAMS :: u8 where "FCGI_PARAMS = 4"
definition FCGI_STDIN :: u8 where "FCGI_STDIN = 5"
definition FCGI_STDOUT :: u8 where "FCGI_STDOUT = 6"
definition FCGI_STDERR :: u8 where "FCGI_STDERR = 7"
definition FCGI_RESPONDER :: u16 where "FCGI_RESPONDER = 1"
definition FCGI_MAX_CONTENT :: nat where "FCGI_MAX_CONTENT = 65535"

lemmas fcgi_types = FCGI_VERSION_def FCGI_BEGIN_REQUEST_def FCGI_PARAMS_def FCGI_STDIN_def FCGI_STDOUT_def FCGI_STDERR_def

definition write_fcgi_header :: "u8 \<Rightarrow> u16 \<Rightarrow> nat \<Rightarrow> u8 \<Rightarrow> u8 list" where
  "write_fcgi_header record_type request_id content_len padding =
     [FCGI_VERSION, record_type] @ to_be_bytes 2 request_id @ to_be_bytes 2 (word_of_nat content_len :: u16) @ [padding, 0]"

function chunks :: "nat \<Rightarrow> 'a list \<Rightarrow> 'a list list" where
  "chunks n xs = (if xs = [] \<or> n = 0 then [] else take n xs # chunks n (drop n xs))"
  by pat_completeness auto
termination
  by (relation "measure (length \<circ> snd)") auto

declare chunks.simps [simp del]

definition pad_len :: "nat \<Rightarrow> nat" where
  "pad_len n = (8 - n mod 8) mod 8"

definition write_chunk :: "u8 \<Rightarrow> u16 \<Rightarrow> u8 list \<Rightarrow> u8 list" where
  "write_chunk record_type request_id chunk =
     write_fcgi_header record_type request_id (length chunk) (word_of_nat (pad_len (length chunk))) @ chunk @
     replicate (pad_len (length chunk)) 0"

definition write_fcgi_record :: "u8 \<Rightarrow> u16 \<Rightarrow> u8 list \<Rightarrow> u8 list" where
  "write_fcgi_record record_type request_id data =
     (if data = [] then write_fcgi_header record_type request_id 0 0
      else concat (map (write_chunk record_type request_id) (chunks FCGI_MAX_CONTENT data)))"

definition enc_len :: "nat \<Rightarrow> u8 list" where
  "enc_len n = (if n < 128 then [word_of_nat n] else to_be_bytes 4 ((word_of_nat n :: u32) OR 0x80000000))"

definition encode_nv_pair :: "u8 list \<Rightarrow> u8 list \<Rightarrow> u8 list" where
  "encode_nv_pair name value = enc_len (length name) @ enc_len (length value) @ name @ value"

section \<open>Reading\<close>

record fcgi_record =
  rec_type :: u8
  rec_data :: "u8 list"

text \<open>\<^verbatim>\<open>read_exact\<close> of the header and of content and padding; \<open>None\<close> when the stream ends before.\<close>

definition read_fcgi :: "u8 list \<Rightarrow> (fcgi_record \<times> u8 list) option" where
  "read_fcgi stream =
     (if length stream < 8 then None
      else
        (let content_len = unat (from_be_bytes [stream ! 4, stream ! 5] :: u16);
             padding_len = unat (stream ! 6);
             total = content_len + padding_len;
             rest = drop 8 stream
         in if length rest < total then None
            else Some (\<lparr>rec_type = stream ! 1, rec_data = take content_len rest\<rparr>, drop total rest)))"

lemma read_fcgi_shorter: "read_fcgi s = Some (r, s') \<Longrightarrow> length s' < length s"
  by (auto simp: read_fcgi_def Let_def split: if_splits)

text \<open>The first place where a pattern occurs.\<close>

fun find_sub :: "'a list \<Rightarrow> 'a list \<Rightarrow> nat option" where
  "find_sub p [] = (if p = [] then Some 0 else None)"
| "find_sub p (c # s) = (if starts_with (c # s) p then Some 0 else map_option Suc (find_sub p s))"

definition find_header_end :: "u8 list \<Rightarrow> (nat \<times> nat) option" where
  "find_header_end buf =
     (case find_sub [13, 10, 13, 10] buf of
        Some i \<Rightarrow> Some (i + 4, i)
      | None \<Rightarrow> (case find_sub [10, 10] buf of Some i \<Rightarrow> Some (i + 2, i) | None \<Rightarrow> None))"

definition parse_fcgi_line :: "nat \<times> (string \<times> string) list \<Rightarrow> string \<Rightarrow> nat \<times> (string \<times> string) list" where
  "parse_fcgi_line acc raw =
     (case acc of (status_code, headers) \<Rightarrow>
        (let line = trim raw
         in if line = [] then acc
            else (case (case strip_prefix line ''Status:'' of Some r \<Rightarrow> Some r | None \<Rightarrow> strip_prefix line ''status:'') of
                Some rest \<Rightarrow>
                  (case split_whitespace (trim rest) of
                     code_str # _ \<Rightarrow> (unwrap_or (parse_u16 code_str) 200, headers)
                   | [] \<Rightarrow> acc)
              | None \<Rightarrow>
                  (case find_idx CHR '':'' line of
                     Some colon \<Rightarrow> (status_code, headers @ [(trim (take colon line), trim (drop (colon + 1) line))])
                   | None \<Rightarrow> acc))))"

definition parse_fcgi_headers :: "string \<Rightarrow> nat \<times> (string \<times> string) list" where
  "parse_fcgi_headers header_str = foldl parse_fcgi_line (200, []) (str_lines header_str)"

section \<open>Records read back\<close>

lemma concat_chunks: "0 < n \<Longrightarrow> concat (chunks n xs) = xs"
  by (induction n xs rule: chunks.induct) (subst chunks.simps, simp)

lemma chunks_bounds: "c \<in> set (chunks n xs) \<Longrightarrow> c \<noteq> [] \<and> length c \<le> n"
proof (induction n xs rule: chunks.induct)
  case (1 n xs)
  show ?case
  proof (cases "xs = [] \<or> n = 0")
    case False
    with 1 show ?thesis by (subst (asm) (2) chunks.simps) auto
  qed (use 1(2) in \<open>simp add: chunks.simps\<close>)
qed

lemma pad_len_less: "pad_len n < 8"
  by (simp add: pad_len_def)

lemma pad_len_aligns: "8 dvd n + pad_len n"
proof (cases "n mod 8 = 0")
  case True
  then show ?thesis by (simp add: pad_len_def dvd_eq_mod_eq_0)
next
  case False
  have "n mod 8 < 8" by simp
  with False have "pad_len n = 8 - n mod 8" by (simp add: pad_len_def)
  then have "n + pad_len n = 8 * (n div 8) + 8" using \<open>n mod 8 < 8\<close> div_mult_mod_eq [of n 8] by linarith
  then show ?thesis by simp
qed

lemma two_bytes: "\<exists>a b. to_be_bytes 2 w = [a, b]"
  by (simp add: to_be_bytes_def numeral_2_eq_2)

lemma read_write_chunk:
  assumes "length c \<le> FCGI_MAX_CONTENT"
  shows "read_fcgi (write_chunk t i c @ rest) = Some (\<lparr>rec_type = t, rec_data = c\<rparr>, rest)"
proof -
  let ?len = "word_of_nat (length c) :: u16"
  have len: "unat ?len = length c"
    using assms by (simp add: FCGI_MAX_CONTENT_def unat_of_nat)
  have pad: "unat (word_of_nat (pad_len (length c)) :: u8) = pad_len (length c)"
    using pad_len_less [of "length c"] by (simp add: unat_of_nat)
  obtain a b where ab: "to_be_bytes 2 i = [a, b]" using two_bytes by blast
  obtain x y where xy: "to_be_bytes 2 ?len = [x, y]" using two_bytes by blast
  have "from_be_bytes [x, y] = ?len" using from_to_be_bytes_u16 [of ?len] by (simp add: xy)
  then show ?thesis
    by (simp add: read_fcgi_def write_chunk_def write_fcgi_header_def ab xy len pad)
qed

lemma length_write_chunk: "8 dvd length (write_chunk t i c)"
proof -
  have "length (write_chunk t i c) = 8 + (length c + pad_len (length c))"
    by (simp add: write_chunk_def write_fcgi_header_def)
  then show ?thesis using pad_len_aligns [of "length c"] by simp
qed

interpretation fcgi: prefix_codec "\<lambda>c. length c \<le> FCGI_MAX_CONTENT" "write_chunk t i"
  "\<lambda>buf. map_option (\<lambda>(r, rest). (rec_data r, length buf - length rest)) (read_fcgi buf)" for t i
  by unfold_locales (simp add: read_write_chunk)

function read_all :: "u8 list \<Rightarrow> fcgi_record list option" where
  "read_all s =
     (if s = [] then Some []
      else (case read_fcgi s of
          None \<Rightarrow> None
        | Some (r, s') \<Rightarrow> map_option ((#) r) (read_all s')))"
  by pat_completeness auto
termination
  by (relation "measure length") (auto dest: read_fcgi_shorter)

declare read_all.simps [simp del]

lemma read_all_Nil [simp]: "read_all [] = Some []"
  by (simp add: read_all.simps)

lemma read_all_chunk:
  "length c \<le> FCGI_MAX_CONTENT \<Longrightarrow>
   read_all (write_chunk t i c @ rest) = map_option ((#) \<lparr>rec_type = t, rec_data = c\<rparr>) (read_all rest)"
  by (subst read_all.simps) (simp add: read_write_chunk, simp add: write_chunk_def write_fcgi_header_def)

lemma read_all_chunks:
  "list_all (\<lambda>c. length c \<le> FCGI_MAX_CONTENT) cs \<Longrightarrow>
   read_all (concat (map (write_chunk t i) cs) @ rest) =
     map_option ((@) (map (\<lambda>c. \<lparr>rec_type = t, rec_data = c\<rparr>) cs)) (read_all rest)"
  by (induction cs; cases "read_all rest") (simp_all add: read_all_chunk)

lemma write_fcgi_record_chunks:
  "write_fcgi_record t i data = concat (map (write_chunk t i) (if data = [] then [[]] else chunks FCGI_MAX_CONTENT data))"
  by (simp add: write_fcgi_record_def write_chunk_def pad_len_def)

text \<open>
  What the server writes as FastCGI records its own reader reads back: the records have the
  type that was asked for, none is larger than a record can be, together they carry exactly the
  data, and whatever follows is read as if it stood alone. Every record ends on a boundary of eight
  bytes; no data is written as one empty record, the end of a stream.
\<close>

theorem fcgi_records_round_trip:
  assumes "read_all rest = Some rs"
  shows "\<exists>cs. read_all (write_fcgi_record t i data @ rest) = Some (map (\<lambda>c. \<lparr>rec_type = t, rec_data = c\<rparr>) cs @ rs) \<and>
    concat cs = data \<and> list_all (\<lambda>c. length c \<le> 65535) cs \<and> (data = [] \<longleftrightarrow> cs = [[]]) \<and>
    (data \<noteq> [] \<longrightarrow> [] \<notin> set cs) \<and> 8 dvd length (write_fcgi_record t i data)"
proof -
  let ?cs = "if data = [] then [[]] else chunks FCGI_MAX_CONTENT data"
  have le: "list_all (\<lambda>c. length c \<le> FCGI_MAX_CONTENT) ?cs"
    by (auto simp: list_all_iff dest: chunks_bounds)
  have ne: "data \<noteq> [] \<Longrightarrow> [] \<notin> set ?cs" by (auto dest: chunks_bounds)
  have "8 dvd length (concat (map (write_chunk t i) cs))" for cs
    by (induction cs) (simp_all add: length_write_chunk)
  moreover have "concat ?cs = data" by (simp add: concat_chunks FCGI_MAX_CONTENT_def)
  moreover have "read_all (write_fcgi_record t i data @ rest) = Some (map (\<lambda>c. \<lparr>rec_type = t, rec_data = c\<rparr>) ?cs @ rs)"
    unfolding write_fcgi_record_chunks read_all_chunks [OF le] assms by simp
  moreover have "data = [] \<longleftrightarrow> ?cs = [[]]" using ne by auto
  moreover have "list_all (\<lambda>c. length c \<le> 65535) ?cs" using le by (simp add: FCGI_MAX_CONTENT_def)
  ultimately show ?thesis using ne unfolding write_fcgi_record_chunks by blast
qed

theorem fcgi_records_round_trip_witness:
  "\<exists>cs. read_all (write_fcgi_record 5 1 [104, 105] @ []) = Some (map (\<lambda>c. \<lparr>rec_type = 5, rec_data = c\<rparr>) cs @ []) \<and> concat cs = [104, 105]"
  using fcgi_records_round_trip [of "[]" "[]" 5 1 "[104, 105]"] by auto

section \<open>Name-value pairs read back\<close>

text \<open>A decoder after the specification: a length below 128 is one byte, a longer one four, with the top bit set.\<close>

definition dec_len :: "u8 list \<Rightarrow> (nat \<times> u8 list) option" where
  "dec_len s =
     (case s of
        [] \<Rightarrow> None
      | b # rest \<Rightarrow>
          if unat b < 128 then Some (unat b, rest)
          else if length s < 4 then None
          else Some (unat (from_be_bytes (take 4 s) :: u32) - 2 ^ 31, drop 4 s))"

definition dec_nv_pair :: "u8 list \<Rightarrow> ((u8 list \<times> u8 list) \<times> nat) option" where
  "dec_nv_pair s =
     (case dec_len s of
        None \<Rightarrow> None
      | Some (n, s1) \<Rightarrow>
          (case dec_len s1 of
             None \<Rightarrow> None
           | Some (m, s2) \<Rightarrow>
               if length s2 < n + m then None
               else Some ((take n s2, take m (drop n s2)), length s - length s2 + n + m)))"

lemma unat_top_bit:
  fixes w :: u32
  assumes "unat w < 2 ^ 31"
  shows "unat (w OR 0x80000000) = unat w + 2 ^ 31"
proof -
  have "unat (drop_bit 31 w) = 0"
    using assms by (simp add: drop_bit_eq_div unat_div)
  then have "\<not> bit w 31"
    by (simp add: bit_iff_odd_drop_bit unat_eq_zero)
  then have "w AND 2 ^ 31 = 0" unfolding and_exp_eq_0_iff_not_bit .
  then have "w AND 0x80000000 = 0" by simp
  then have "w OR 0x80000000 = w + 0x80000000"
    using word_plus_and_or [of w "0x80000000"] by simp
  then show ?thesis using assms by (simp add: unat_word_ariths)
qed

lemma dec_enc_len:
  assumes "n < 2 ^ 31"
  shows "dec_len (enc_len n @ rest) = Some (n, rest)"
proof (cases "n < 128")
  case True
  then show ?thesis by (simp add: dec_len_def enc_len_def unat_of_nat)
next
  case False
  let ?w = "(word_of_nat n :: u32) OR 0x80000000"
  have w: "unat ?w = n + 2 ^ 31"
    using assms by (subst unat_top_bit) (simp_all add: unat_of_nat)
  obtain a bs where a: "to_be_bytes 4 ?w = a # bs" "length bs = 3" "unat a = unat ?w div 256 ^ 3 mod 256"
    by (simp add: to_be_bytes_def upt_rec numeral_3_eq_3 unat_of_nat)
  have "128 \<le> unat a"
    using a(3) w assms by simp
  with False a w show ?thesis
    using from_to_be_bytes_u32 [of ?w] by (simp add: dec_len_def enc_len_def)
qed

interpretation nv: prefix_codec "\<lambda>(name, value). length name < 2 ^ 31 \<and> length value < 2 ^ 31"
  "\<lambda>(name, value). encode_nv_pair name value" dec_nv_pair
  by unfold_locales (auto simp: dec_nv_pair_def encode_nv_pair_def dec_enc_len)

text \<open>
  The parameters of a request arrive as they were sent: however many name-value pairs are written one
  after the other, a decoder after the FastCGI specification reads exactly these pairs and leaves what
  follows, for names and values up to two gigabytes.
\<close>

theorem fcgi_params_round_trip:
  assumes "list_all (\<lambda>(name, value). length name < 2 ^ 31 \<and> length value < 2 ^ 31) params"
  shows "nv.dec_many (length params) (concat (map (\<lambda>(name, value). encode_nv_pair name value) params) @ rest) = Some (params, rest)"
  using assms by (rule nv.dec_many_concat)

theorem fcgi_params_round_trip_witness:
  "nv.dec_many (Suc (Suc 0)) (encode_nv_pair [65] [66, 67] @ encode_nv_pair [68] [] @ []) = Some ([([65], [66, 67]), ([68], [])], [])"
  using fcgi_params_round_trip [of "[([65], [66, 67]), ([68], [])]" "[]"] by (simp del: nv.dec_many.simps)

section \<open>The end of the header block\<close>

lemma starts_with_take: "starts_with s p \<longleftrightarrow> take (length p) s = p"
  by (metis append_eq_conv_conj append_take_drop_id starts_with_iff)

lemma find_sub_None_prefix: "find_sub p (u @ v) = None \<Longrightarrow> find_sub p u = None"
proof (induction u)
  case Nil
  then show ?case by (cases v) (auto split: if_splits)
next
  case (Cons c u)
  then have "\<not> starts_with ((c # u) @ v) p" by (auto split: if_splits)
  then have "\<not> starts_with (c # u) p" unfolding starts_with_iff by (metis append_assoc)
  with Cons show ?case by (auto split: if_splits)
qed

lemma find_sub_first:
  assumes "p \<noteq> []" "find_sub p (h @ butlast p) = None"
  shows "find_sub p (h @ p @ t) = Some (length h)"
  using assms(2)
proof (induction h)
  case Nil
  then show ?case using assms(1) by (cases p) auto
next
  case (Cons a h)
  have "take (length p) (a # h @ p @ t) = take (length p) (a # h @ butlast p)"
    using assms(1) by (cases p rule: rev_cases) auto
  with Cons.prems have "\<not> starts_with (a # h @ p @ t) p"
    by (auto simp: starts_with_take split: if_splits)
  moreover have "find_sub p (h @ butlast p) = None" using Cons.prems by (auto split: if_splits)
  ultimately show ?case using Cons.IH by simp
qed

definition CRLF2 :: "u8 list" where "CRLF2 = [13, 10, 13, 10]"

text \<open>A header text whose first separator is the one at its end.\<close>

definition header_text :: "u8 list \<Rightarrow> bool" where
  "header_text hdr \<longleftrightarrow> find_sub CRLF2 (hdr @ butlast CRLF2) = None \<and> find_sub [10, 10] (hdr @ butlast CRLF2) = None"

lemma find_header_end_found:
  "header_text hdr \<Longrightarrow> find_header_end (hdr @ CRLF2 @ t) = Some (length hdr + 4, length hdr)"
  using find_sub_first [of CRLF2 hdr t] by (simp add: find_header_end_def header_text_def CRLF2_def)

lemma find_header_end_before:
  assumes "header_text hdr" "hdr @ CRLF2 @ body = buf @ rest" "length buf < length hdr + 4"
  shows "find_header_end buf = None"
proof -
  have "hdr @ CRLF2 @ body = (hdr @ butlast CRLF2) @ 10 # body" by (simp add: CRLF2_def)
  with assms(2) have "take (length buf) (buf @ rest) = take (length buf) ((hdr @ butlast CRLF2) @ 10 # body)" by simp
  moreover have "length buf \<le> length (hdr @ butlast CRLF2)" using assms(3) by (simp add: CRLF2_def)
  ultimately have "buf = take (length buf) (hdr @ butlast CRLF2)" by (metis append_eq_conv_conj take_append diff_is_0_eq take_0 append_Nil2)
  then obtain v where "hdr @ butlast CRLF2 = buf @ v" by (metis append_take_drop_id)
  with assms(1) have "find_sub CRLF2 buf = None" "find_sub [10, 10] buf = None"
    by (auto simp: header_text_def intro: find_sub_None_prefix)
  then show ?thesis by (simp add: find_header_end_def CRLF2_def)
qed

end
