(* ===== verification/Fastcgi.thy ===== *)
theory Fastcgi
  imports Fastcgi_Proto Proxy_Handler Conn_Pool Real_Ip Static_File
begin

text \<open>
  The FastCGI handler (\<^verbatim>\<open>src/handler/fastcgi.rs\<close>) and its response layer (\<^verbatim>\<open>fastcgi/response.rs\<close>): the
  environment of the script, the request that is sent, the response that is read record by
  record, the cache and the connection pool around them.

  A connection is what it will deliver in answer to a request: bytes, and whether the stream then ends or
  stalls until the read timeout. Opening connections, the clock and the header library are parameters.
\<close>

section \<open>Lossy decoding\<close>

text \<open>\<^verbatim>\<open>String::from_utf8_lossy\<close>: how many bytes the first character has, or how many are replaced together.\<close>

definition utf8_second :: "char \<Rightarrow> char \<Rightarrow> bool" where
  "utf8_second a b =
     (if cv a = 0xE0 then in_range 0xA0 0xBF b
      else if cv a = 0xED then in_range 0x80 0x9F b
      else if cv a = 0xF0 then in_range 0x90 0xBF b
      else if cv a = 0xF4 then in_range 0x80 0x8F b
      else in_range 0x80 0xBF b)"

definition utf8_width :: "char \<Rightarrow> nat" where
  "utf8_width a =
     (if cv a < 0x80 then 1 else if in_range 0xC2 0xDF a then 2 else if in_range 0xE0 0xEF a then 3
      else if in_range 0xF0 0xF4 a then 4 else 0)"

definition utf8_front :: "string \<Rightarrow> nat \<times> bool" where
  "utf8_front s =
     (case s of
        [] \<Rightarrow> (0, True)
      | a # t \<Rightarrow>
          (let w = utf8_width a;
               ok = length (takeWhile (in_range 0x80 0xBF) (take (w - 2) (tl t)))
           in if w = 0 then (1, False)
              else if w = 1 then (1, True)
              else if t = [] \<or> \<not> utf8_second a (hd t) then (1, False)
              else if ok = w - 2 then (w, True) else (2 + ok, False)))"

lemma utf8_front_pos: "s \<noteq> [] \<Longrightarrow> 0 < fst (utf8_front s)"
  by (cases s) (auto simp: utf8_front_def Let_def)

function from_utf8_lossy :: "string \<Rightarrow> string" where
  "from_utf8_lossy s =
     (if s = [] then []
      else (case utf8_front s of (n, ok) \<Rightarrow>
        (if ok then take n s else [CHR 0xEF, CHR 0xBF, CHR 0xBD]) @ from_utf8_lossy (drop n s)))"
  by pat_completeness auto
termination
  by (relation "measure length") (auto, metis diff_less fst_conv length_greater_0_conv utf8_front_pos)

declare from_utf8_lossy.simps [simp del]

section \<open>The request\<close>

definition fcgi_packet :: "(string \<times> string) list \<Rightarrow> u8 list \<Rightarrow> u8 list" where
  "fcgi_packet params stdin_body =
     write_fcgi_header FCGI_BEGIN_REQUEST 1 8 0 @ to_be_bytes 2 FCGI_RESPONDER @ [1] @ [0, 0, 0, 0, 0] @
     write_fcgi_record FCGI_PARAMS 1 (concat (map (\<lambda>(k, v). encode_nv_pair (str_bytes k) (str_bytes v)) params)) @
     write_fcgi_record FCGI_PARAMS 1 [] @
     write_fcgi_record FCGI_STDIN 1 stdin_body @
     write_fcgi_record FCGI_STDIN 1 []"

section \<open>Reading the response\<close>

datatype stream_end = Eof | Stall

record fcgi_parsed =
  fh_status :: nat
  fh_headers :: "(string \<times> string) list"
  fh_body_prefix :: "u8 list"
  fh_body_done :: bool

definition parsed_headers :: "u8 list \<Rightarrow> u8 list \<Rightarrow> bool \<Rightarrow> fcgi_parsed" where
  "parsed_headers header_buf body_prefix body_done =
     (case parse_fcgi_headers (from_utf8_lossy (bytes_str header_buf)) of (status, headers) \<Rightarrow>
        \<lparr>fh_status = status, fh_headers = headers, fh_body_prefix = body_prefix, fh_body_done = body_done\<rparr>)"

text \<open>Records until the end of the header block; \<open>None\<close> when the stream gives no further record.\<close>

function read_headers_from_stream :: "u8 list \<Rightarrow> u8 list \<Rightarrow> (fcgi_parsed \<times> u8 list) option" where
  "read_headers_from_stream header_buf stream =
     (case read_fcgi stream of
        None \<Rightarrow> None
      | Some (r, rest) \<Rightarrow>
          if rec_type r = FCGI_STDOUT then
            (if rec_data r = [] then Some (parsed_headers header_buf [] True, rest)
             else (let buf = header_buf @ rec_data r
                   in case find_header_end buf of
                        Some (body_start, text_end) \<Rightarrow>
                          Some (parsed_headers (take text_end buf) (drop body_start buf) False, rest)
                      | None \<Rightarrow> read_headers_from_stream buf rest))
          else read_headers_from_stream header_buf rest)"
  by pat_completeness auto
termination
  by (relation "measure (length \<circ> snd)") (auto dest: read_fcgi_shorter)

declare read_headers_from_stream.simps [simp del]

datatype body_end = BodyEnd | BodyError | BodyLarge

definition STREAM_ABOVE :: nat where "STREAM_ABOVE = 4 * 1024 * 1024"

text \<open>The loop that collects the body: an empty record or one that is neither output nor error ends it.\<close>

function fcgi_read_body :: "u8 list \<Rightarrow> u8 list \<Rightarrow> u8 list \<times> body_end \<times> u8 list" where
  "fcgi_read_body body stream =
     (case read_fcgi stream of
        None \<Rightarrow> (body, BodyError, stream)
      | Some (r, rest) \<Rightarrow>
          if rec_type r = FCGI_STDOUT then
            (if rec_data r = [] then (body, BodyEnd, rest)
             else if STREAM_ABOVE < length (body @ rec_data r) then (body @ rec_data r, BodyLarge, rest)
             else fcgi_read_body (body @ rec_data r) rest)
          else if rec_type r = FCGI_STDERR then fcgi_read_body body rest
          else (body, BodyEnd, rest))"
  by pat_completeness auto
termination
  by (relation "measure (length \<circ> snd)") (auto dest: read_fcgi_shorter)

declare fcgi_read_body.simps [simp del]

text \<open>What the task of \<^verbatim>\<open>stream_remaining\<close> sends, and whether the stream ended well.\<close>

function stream_rest :: "u8 list \<Rightarrow> u8 list \<times> bool" where
  "stream_rest stream =
     (case read_fcgi stream of
        None \<Rightarrow> ([], False)
      | Some (r, rest) \<Rightarrow>
          if rec_type r = FCGI_STDOUT then
            (if rec_data r = [] then ([], True) else (case stream_rest rest of (bs, ok) \<Rightarrow> (rec_data r @ bs, ok)))
          else if rec_type r = FCGI_STDERR then stream_rest rest
          else ([], True))"
  by pat_completeness auto
termination
  by (relation "measure length") (auto dest: read_fcgi_shorter)

declare stream_rest.simps [simp del]

section \<open>The response\<close>

record fcgi_api =
  fa_name :: "string \<Rightarrow> string option"
  fa_value :: "string \<Rightarrow> string option"

definition append_headers :: "fcgi_api \<Rightarrow> (string \<times> string) list \<Rightarrow> header_map \<Rightarrow> header_map" where
  "append_headers api hs h =
     fold (\<lambda>(k, v) h. case (fa_name api k, fa_value api v) of (Some n, Some w) \<Rightarrow> hm_append n w h | _ \<Rightarrow> h) hs h"

definition default_content_type :: "(string \<times> string) list \<Rightarrow> header_map \<Rightarrow> header_map" where
  "default_content_type hs h =
     (if list_ex (\<lambda>(k, _). eq_ignore_case k ''content-type'') hs then h
      else hm_insert ''content-type'' ''text/html; charset=utf-8'' h)"

definition make_complete_response :: "fcgi_api \<Rightarrow> nat \<Rightarrow> (string \<times> string) list \<Rightarrow> u8 list \<Rightarrow> resp" where
  "make_complete_response api status headers body =
     (let http_status = status_or_ok status; h = append_headers api headers no_headers
      in if no_body_status http_status then \<lparr>wr_status = http_status, wr_headers = h, wr_body = NoBody\<rparr>
         else \<lparr>wr_status = http_status,
               wr_headers = hm_insert ''content-length'' (dec (length body)) (default_content_type headers h),
               wr_body = Bytes (bytes_str body)\<rparr>)"

definition stream_remaining_response :: "fcgi_api \<Rightarrow> nat \<Rightarrow> (string \<times> string) list \<Rightarrow> u8 list \<Rightarrow> resp" where
  "stream_remaining_response api status headers body =
     (let http_status = status_or_ok status; h = append_headers api headers no_headers
      in if no_body_status http_status then \<lparr>wr_status = http_status, wr_headers = h, wr_body = NoBody\<rparr>
         else \<lparr>wr_status = http_status, wr_headers = default_content_type headers h, wr_body = Bytes (bytes_str body)\<rparr>)"

text \<open>
  The answer, whether the connection goes back to the pool, what is written to the cache, and whether a
  streamed body breaks off.
\<close>

record fcgi_answer =
  fw_resp :: resp
  fw_release :: bool
  fw_store :: "(nat \<times> (string \<times> string) list \<times> string) option"
  fw_broken :: bool

definition build_streaming_response :: "fcgi_api \<Rightarrow> stream_end \<Rightarrow> fcgi_parsed \<Rightarrow> u8 list \<Rightarrow> fcgi_answer option" where
  "build_streaming_response api fin p stream =
     (let complete = (\<lambda>body. Some
            \<lparr>fw_resp = make_complete_response api (fh_status p) (fh_headers p) body, fw_release = True,
             fw_store = Some (fh_status p, fh_headers p, bytes_str body), fw_broken = False\<rparr>)
      in if fh_body_done p then complete (fh_body_prefix p)
         else (case fcgi_read_body (fh_body_prefix p) stream of
             (body, BodyEnd, _) \<Rightarrow> complete body
           | (body, BodyError, _) \<Rightarrow> (case fin of Eof \<Rightarrow> complete body | Stall \<Rightarrow> None)
           | (body, BodyLarge, rest) \<Rightarrow>
               (case stream_rest rest of (bs, ok) \<Rightarrow>
                  Some \<lparr>fw_resp = stream_remaining_response api (fh_status p) (fh_headers p) (body @ bs),
                        fw_release = ok, fw_store = None, fw_broken = \<not> ok\<rparr>)))"

section \<open>The script and its environment\<close>

definition split_script_path :: "string \<Rightarrow> string \<times> string" where
  "split_script_path path =
     (case find_sub ''.php'' path of
        Some pos \<Rightarrow>
          (if pos + 4 = length path \<or> path ! (pos + 4) = CHR ''/'' then (take (pos + 4) path, drop (pos + 4) path)
           else (''/index.php'', path))
      | None \<Rightarrow> (''/index.php'', path))"

text \<open>
  A request as this handler sees it: the header values as they came, the query, the address of the
  client and the frames of the body, the last one possibly an error.
\<close>

record fcgi_request =
  fq_base :: client_request
  fq_raw_headers :: "(string \<times> string) list"
  fq_query :: string
  fq_peer :: socket_addr
  fq_body :: "(u8 list option) list"

definition trim_slash :: "string \<Rightarrow> string" where
  "trim_slash s = trim_end_matches (\<lambda>c. c = CHR ''/'') s"

definition script_of :: "string \<Rightarrow> string \<Rightarrow> string option \<Rightarrow> string \<times> string \<times> string" where
  "script_of root_dir path resolved =
     (case resolved of
        Some p \<Rightarrow>
          (p, map (\<lambda>c. if c = CHR 0x5C then CHR ''/'' else c) (unwrap_or (strip_prefix p (trim_slash root_dir)) p), [])
      | None \<Rightarrow>
          (case split_script_path path of (sname, pinfo) \<Rightarrow> (trim_slash root_dir @ sname, sname, pinfo)))"

definition server_name_port :: "string \<Rightarrow> bool \<Rightarrow> string \<times> string" where
  "server_name_port host_hdr is_https =
     (case rfind_idx CHR '':'' host_hdr of
        Some i \<Rightarrow> (take i host_hdr, drop (i + 1) host_hdr)
      | None \<Rightarrow> (host_hdr, if is_https then ''443'' else ''80''))"

definition remote_addr_of :: "('re, 'l) site_info \<Rightarrow> fcgi_request \<Rightarrow> string outcome" where
  "remote_addr_of site rq =
     (case si_real_ip site of
        Some rip \<Rightarrow>
          bind_outcome (extract_real_ip rip (sa_ip (fq_peer rq)) (get_header (header_name rip) (fq_base rq)))
            (\<lambda>ip. Val (case ip of Some ip \<Rightarrow> show_ip ip | None \<Rightarrow> show_ip (sa_ip (fq_peer rq))))
      | None \<Rightarrow> Val (show_ip (sa_ip (fq_peer rq))))"

definition header_var :: "string \<Rightarrow> string" where
  "header_var k = ''HTTP_'' @ map (\<lambda>c. if c = CHR ''-'' then CHR ''_'' else upper_char c) k"

definition header_vars :: "(string \<times> string) list \<Rightarrow> (string \<times> string) list" where
  "header_vars hs =
     map (\<lambda>(k, v). (header_var k, from_utf8_lossy v))
       (filter (\<lambda>(k, _). \<not> list_ex (eq_ignore_case k) [''host'', ''cookie'', ''content-type'', ''content-length'']) hs)"

definition cookie_var :: "(string \<times> string) list \<Rightarrow> string" where
  "cookie_var hs = join ''; '' (map (from_utf8_lossy \<circ> snd) (filter (\<lambda>(k, _). eq_ignore_case k ''cookie'') hs))"

definition fixed_params ::
  "string \<Rightarrow> string \<Rightarrow> fcgi_request \<Rightarrow> string option \<Rightarrow> string \<Rightarrow> string \<Rightarrow> nat \<Rightarrow> (string \<times> string) list" where
  "fixed_params version host_hdr rq resolved root_dir remote_addr body_len =
     (let b = fq_base rq;
          (server_name, server_port) = server_name_port host_hdr (cl_is_tls b);
          (script_filename, script_name, path_info) = script_of root_dir (cl_uri_path b) resolved
      in [(''GATEWAY_INTERFACE'', ''CGI/1.1''), (''SERVER_SOFTWARE'', ''Sweety/'' @ version), (''SERVER_PROTOCOL'', ''HTTP/1.1''),
          (''SERVER_NAME'', server_name), (''SERVER_PORT'', server_port), (''REQUEST_METHOD'', cl_method b),
          (''REQUEST_URI'', unwrap_or (cl_path_and_query b) ''/''), (''DOCUMENT_URI'', cl_uri_path b),
          (''QUERY_STRING'', fq_query rq), (''DOCUMENT_ROOT'', root_dir), (''SCRIPT_FILENAME'', script_filename),
          (''SCRIPT_NAME'', script_name), (''PATH_INFO'', path_info), (''PATH_TRANSLATED'', trim_slash root_dir @ path_info),
          (''REMOTE_ADDR'', remote_addr), (''REMOTE_HOST'', remote_addr), (''REMOTE_PORT'', dec (unat (sa_port (fq_peer rq)))),
          (''CONTENT_TYPE'', unwrap_or (get_header ''content-type'' b) []), (''CONTENT_LENGTH'', dec body_len)])"

definition fcgi_params ::
  "string \<Rightarrow> string \<Rightarrow> fcgi_request \<Rightarrow> string option \<Rightarrow> string \<Rightarrow> string \<Rightarrow> nat \<Rightarrow> (string \<times> string) list" where
  "fcgi_params version host_hdr rq resolved root_dir remote_addr body_len =
     fixed_params version host_hdr rq resolved root_dir remote_addr body_len
     @ (if cl_is_tls (fq_base rq) then [(''HTTPS'', ''on'')] else [])
     @ (if host_hdr \<noteq> [] then [(''HTTP_HOST'', host_hdr)] else [])
     @ (if cookie_var (fq_raw_headers rq) \<noteq> [] then [(''HTTP_COOKIE'', cookie_var (fq_raw_headers rq))] else [])
     @ header_vars (fq_raw_headers rq)"

fun read_frames :: "(u8 list option) list \<Rightarrow> u8 list" where
  "read_frames [] = []"
| "read_frames (None # fs) = []"
| "read_frames (Some b # fs) = b @ read_frames fs"

definition fcgi_body :: "fcgi_request \<Rightarrow> u8 list" where
  "fcgi_body rq =
     (if cl_method (fq_base rq) \<in> set [''POST'', ''PUT'', ''PATCH'', ''DELETE''] then read_frames (fq_body rq) else [])"

section \<open>The handler\<close>

datatype fcgi_addr = FcgiUnix string | FcgiTcp string

definition fcgi_address :: "fastcgi_config option \<Rightarrow> fcgi_addr" where
  "fcgi_address cfg =
     (case Option.bind cfg fc_socket of
        Some sock \<Rightarrow> FcgiUnix sock
      | None \<Rightarrow>
          FcgiTcp (unwrap_or (Option.bind cfg fc_host) ''127.0.0.1'' @ '':'' @
            dec (unat (unwrap_or (Option.bind cfg fc_port) 9000))))"

fun addr_text :: "fcgi_addr \<Rightarrow> string" where
  "addr_text (FcgiUnix p) = p"
| "addr_text (FcgiTcp p) = p"

text \<open>
  A connection answers a packet with bytes and an end, or fails to take it. Each attempt has the result of
  opening a connection at hand.
\<close>

record 'c fcgi_env =
  fe_api :: fcgi_api
  fe_cache_env :: cache_env
  fe_now :: nat
  fe_version :: string
  fe_answers :: "'c \<Rightarrow> u8 list \<Rightarrow> (u8 list \<times> stream_end) option"
  fe_fresh :: "nat \<Rightarrow> 'c option"
  fe_f32 :: f32_api

record 'c fcgi_state =
  fs_pool :: "'c fcgi_pool"
  fs_cache :: "proxy_cache option"
  fs_sent :: "(string \<times> u8 list) list"

definition fcgi_cached :: "fcgi_api \<Rightarrow> cache_entry \<Rightarrow> resp" where
  "fcgi_cached api e =
     \<lparr>wr_status = status_or_ok (unat (ce_status e)),
      wr_headers = hm_insert ''x-cache-status'' ''HIT'' (hm_insert ''x-cache'' ''HIT''
        (append_headers api (ce_headers e) no_headers)),
      wr_body = Bytes (ce_body e)\<rparr>"

definition fcgi_key :: "client_request \<Rightarrow> cache_key" where
  "fcgi_key b = cache_key_new (cl_method b) (client_host b) (unwrap_or (cl_path_and_query b) ''/'')"

definition raw_value :: "fcgi_request \<Rightarrow> string \<Rightarrow> string option" where
  "raw_value rq name = map_option snd (find (\<lambda>(k, _). eq_ignore_case k name) (fq_raw_headers rq))"

definition fcgi_lookup :: "'c fcgi_env \<Rightarrow> fcgi_request \<Rightarrow> 'c fcgi_state \<Rightarrow> resp option \<times> 'c fcgi_state" where
  "fcgi_lookup env rq st =
     (case fs_cache st of
        None \<Rightarrow> (None, st)
      | Some c \<Rightarrow>
          if should_lookup c (cl_method (fq_base rq)) (raw_value rq) then
            (case cache_get (fe_cache_env env) (fe_now env) (fcgi_key (fq_base rq)) c of
               (e, c') \<Rightarrow> (map_option (fcgi_cached (fe_api env)) e, st\<lparr>fs_cache := Some c'\<rparr>))
          else (None, st))"

definition write_fcgi_cache ::
  "'c fcgi_env \<Rightarrow> fcgi_request \<Rightarrow> (nat \<times> (string \<times> string) list \<times> string) option \<Rightarrow> 'c fcgi_state \<Rightarrow> 'c fcgi_state" where
  "write_fcgi_cache env rq item st =
     (case (fs_cache st, item) of
        (Some c, Some (status, headers, body)) \<Rightarrow>
          if is_cacheable c (word_of_nat status) headers
          then st\<lparr>fs_cache := Some (fst (cache_set (fe_cache_env env) (fe_now env) (fcgi_key (fq_base rq))
                 (word_of_nat status) headers body c))\<rparr>
          else st
      | _ \<Rightarrow> st)"

fun fcgi_attempts ::
  "nat \<Rightarrow> nat \<Rightarrow> 'c fcgi_env \<Rightarrow> fcgi_request \<Rightarrow> string \<Rightarrow> u8 list \<Rightarrow> 'c fcgi_state \<Rightarrow> (nat + resp) \<times> 'c fcgi_state" where
  "fcgi_attempts 0 k env rq addr pkt st = (Inl 502, st)"
| "fcgi_attempts (Suc n) k env rq addr pkt st =
     (let pool = (if k = 1 then fcgi_evict addr (fs_pool st) else fs_pool st)
      in case fcgi_acquire (fe_fresh env k) addr pool of
           (None, pool) \<Rightarrow> (Inl 502, st\<lparr>fs_pool := pool\<rparr>)
         | (Some conn, pool) \<Rightarrow>
             (let st = st\<lparr>fs_pool := pool, fs_sent := fs_sent st @ [(addr, pkt)]\<rparr>;
                  failed = (if k = 0 then fcgi_attempts n (Suc k) env rq addr pkt st else (Inl 502, st))
              in case fe_answers env conn pkt of
                   None \<Rightarrow> failed
                 | Some (stream, fin) \<Rightarrow>
                     (case read_headers_from_stream [] stream of
                        None \<Rightarrow> (case fin of Eof \<Rightarrow> failed | Stall \<Rightarrow> (Inl 504, st))
                      | Some (parsed, rest) \<Rightarrow>
                          (case build_streaming_response (fe_api env) fin parsed rest of
                             None \<Rightarrow> (Inl 504, st)
                           | Some a \<Rightarrow>
                               (Inr (fw_resp a),
                                write_fcgi_cache env rq (fw_store a)
                                  (st\<lparr>fs_pool := (if fw_release a then fcgi_release addr conn (fs_pool st) else fs_pool st)\<rparr>))))))"

definition handle_fastcgi ::
  "'c fcgi_env \<Rightarrow> ('re, 'l) site_info \<Rightarrow> global_config \<Rightarrow> location_config \<Rightarrow> string option \<Rightarrow> fcgi_request
     \<Rightarrow> 'c fcgi_state \<Rightarrow> (resp \<times> 'c fcgi_state) outcome" where
  "handle_fastcgi env site global loc resolved rq st =
     (case fcgi_lookup env rq st of
        (Some resp, st) \<Rightarrow> Val (resp, st)
      | (None, st) \<Rightarrow>
          (case static_root site loc of
             None \<Rightarrow> Val (error_resp 500, st)
           | Some root_dir \<Rightarrow>
               (let b = fq_base rq;
                    max_body = client_max_body_size global * 1024 * 1024;
                    content_length = unwrap_or (Option.bind (get_header ''content-length'' b) parse_u64) 0
                in if max_body < content_length \<and> 0 < max_body then Val (error_resp 413, st)
                   else bind_outcome (remote_addr_of site rq) (\<lambda>remote_addr.
                     let body = fcgi_body rq;
                         params = fcgi_params (fe_version env) (client_host b) rq resolved root_dir remote_addr (length body)
                     in case fcgi_attempts 2 0 env rq (addr_text (fcgi_address (si_fastcgi site))) (fcgi_packet params body) st of
                          (Inl code, st) \<Rightarrow> Val (error_resp code, st)
                        | (Inr resp, st) \<Rightarrow>
                            Val (compress_response (fe_f32 env) Encoded (get_header ''accept-encoding'' b)
                                   (effective_compress site global) resp, st)))))"

section \<open>The response does not depend on how it is cut\<close>

definition fcgi_wire :: "fcgi_record list \<Rightarrow> u8 list" where
  "fcgi_wire rs = concat (map (\<lambda>r. write_chunk (rec_type r) 1 (rec_data r)) rs)"

definition stdout_of :: "fcgi_record list \<Rightarrow> u8 list" where
  "stdout_of rs = concat (map rec_data (filter (\<lambda>r. rec_type r = FCGI_STDOUT) rs))"

text \<open>The records of a response in progress: output that is not empty, and messages.\<close>

definition output_record :: "fcgi_record \<Rightarrow> bool" where
  "output_record r \<longleftrightarrow> length (rec_data r) \<le> FCGI_MAX_CONTENT \<and>
     (rec_type r = FCGI_STDOUT \<and> rec_data r \<noteq> [] \<or> rec_type r = FCGI_STDERR)"

definition end_record :: "fcgi_record \<Rightarrow> bool" where
  "end_record r \<longleftrightarrow> length (rec_data r) \<le> FCGI_MAX_CONTENT \<and>
     (rec_type r = FCGI_STDOUT \<and> rec_data r = [] \<or> rec_type r \<noteq> FCGI_STDOUT \<and> rec_type r \<noteq> FCGI_STDERR)"

lemma fcgi_wire_simps [simp]: "fcgi_wire [] = []" "fcgi_wire (r # rs) = write_chunk (rec_type r) 1 (rec_data r) @ fcgi_wire rs"
  by (simp_all add: fcgi_wire_def)

lemma stdout_of_simps [simp]:
  "stdout_of [] = []" "stdout_of (r # rs) = (if rec_type r = FCGI_STDOUT then rec_data r else []) @ stdout_of rs"
  by (simp_all add: stdout_of_def)

lemma stderr_not_stdout [simp]: "FCGI_STDERR \<noteq> FCGI_STDOUT" "FCGI_STDOUT \<noteq> FCGI_STDERR"
  by (simp_all add: fcgi_types)

lemma read_headers_step:
  "read_fcgi s = Some (r, rest) \<Longrightarrow> read_headers_from_stream buf s =
     (if rec_type r = FCGI_STDOUT then
        if rec_data r = [] then Some (parsed_headers buf [] True, rest)
        else (case find_header_end (buf @ rec_data r) of
                None \<Rightarrow> read_headers_from_stream (buf @ rec_data r) rest
              | Some (body_start, text_end) \<Rightarrow>
                  Some (parsed_headers (take text_end (buf @ rec_data r)) (drop body_start (buf @ rec_data r)) False, rest))
      else read_headers_from_stream buf rest)"
  by (subst read_headers_from_stream.simps) (simp add: Let_def)

lemma read_headers_cut:
  assumes "header_text hdr" "list_all output_record rs" "hdr @ CRLF2 @ body = buf @ stdout_of rs"
    and "length buf < length hdr + 4"
  shows "\<exists>prefix rs'. read_headers_from_stream buf (fcgi_wire rs @ tail) = Some (parsed_headers hdr prefix False, fcgi_wire rs' @ tail) \<and>
    prefix @ stdout_of rs' = body \<and> list_all output_record rs'"
  using assms(2-4)
proof (induction rs arbitrary: buf)
  case Nil
  then show ?case by (auto simp: CRLF2_def)
next
  case (Cons r rs)
  have "read_fcgi (fcgi_wire (r # rs) @ tail) = Some (r, fcgi_wire rs @ tail)"
    using Cons.prems(1) by (simp add: output_record_def read_write_chunk)
  note step = read_headers_step [OF this]
  show ?case
  proof (cases "rec_type r = FCGI_STDOUT")
    case False
    with Cons.IH [of buf] Cons.prems show ?thesis
      unfolding step by simp
  next
    case True
    let ?buf = "buf @ rec_data r"
    have ne: "rec_data r \<noteq> []" using True Cons.prems(1) by (auto simp: output_record_def)
    show ?thesis
    proof (cases "length ?buf < length hdr + 4")
      case True': True
      have "find_header_end ?buf = None"
        using True True' Cons.prems(2) by (intro find_header_end_before [OF assms(1), of body _ "stdout_of rs"]) simp_all
      moreover have "\<exists>prefix rs'. read_headers_from_stream ?buf (fcgi_wire rs @ tail) = Some (parsed_headers hdr prefix False, fcgi_wire rs' @ tail) \<and>
          prefix @ stdout_of rs' = body \<and> list_all output_record rs'"
        using Cons.IH [of ?buf] Cons.prems True True' by simp
      ultimately show ?thesis
        unfolding step using True ne by simp
    next
      case False
      have "take (length ?buf) (hdr @ CRLF2 @ body) = ?buf"
        using Cons.prems(2) True by simp
      moreover obtain k where k: "length ?buf = length hdr + (4 + k)"
        using False by (auto simp: not_less le_iff_add)
      ultimately have buf: "?buf = hdr @ CRLF2 @ take (length ?buf - length hdr - 4) body"
        unfolding k by (simp add: CRLF2_def eval_nat_numeral)
      have "hdr @ CRLF2 @ body = ?buf @ stdout_of rs" using Cons.prems(2) True by simp
      also have "\<dots> = hdr @ CRLF2 @ take (length ?buf - length hdr - 4) body @ stdout_of rs"
        by (subst buf) simp
      finally have rest: "take (length ?buf - length hdr - 4) body @ stdout_of rs = body" by simp
      have "find_header_end ?buf = Some (length hdr + 4, length hdr)"
        by (subst buf) (rule find_header_end_found [OF assms(1)])
      moreover have "take (length hdr) ?buf = hdr" "drop (length hdr + 4) ?buf = take (length ?buf - length hdr - 4) body"
        by (subst buf, simp add: CRLF2_def)+
      ultimately show ?thesis
        unfolding step using True ne rest Cons.prems(1) by auto
    qed
  qed
qed

lemma fcgi_read_body_cut:
  assumes "list_all output_record rs" "end_record r" "length (body @ stdout_of rs) \<le> STREAM_ABOVE"
  shows "fcgi_read_body body (fcgi_wire rs @ fcgi_wire [r] @ tail) = (body @ stdout_of rs, BodyEnd, tail)"
  using assms(1,3)
proof (induction rs arbitrary: body)
  case Nil
  then show ?case using assms(2) by (subst fcgi_read_body.simps) (auto simp: end_record_def read_write_chunk)
next
  case (Cons x rs)
  have "read_fcgi (write_chunk (rec_type x) 1 (rec_data x) @ fcgi_wire rs @ fcgi_wire [r] @ tail) =
      Some (x, fcgi_wire rs @ fcgi_wire [r] @ tail)"
    using Cons.prems(1) by (simp add: output_record_def read_write_chunk)
  with Cons show ?case by (subst fcgi_read_body.simps) (auto simp: output_record_def)
qed

text \<open>
  C31: the response to a script's request is exactly what the script wrote, however the application server
  cuts it into records and mixes it with messages. If the output is a header text, an empty line and a
  body of at most four megabytes, and an end record follows, then status and headers are those of the
  header text, the body is complete, nothing beyond the end record is consumed, the connection goes back
  to the pool and the same body is offered to the cache.
\<close>

theorem fcgi_response_exact:
  assumes "header_text hdr" and "list_all output_record rs" and "stdout_of rs = hdr @ CRLF2 @ body"
    and "end_record r" and "length body \<le> 4 * 1024 * 1024"
    and "parse_fcgi_headers (from_utf8_lossy (bytes_str hdr)) = (status, headers)"
  shows "\<exists>p rest. read_headers_from_stream [] (fcgi_wire rs @ fcgi_wire [r] @ tail) = Some (p, rest) \<and>
    build_streaming_response api fin p rest =
      Some \<lparr>fw_resp = make_complete_response api status headers body, fw_release = True,
            fw_store = Some (status, headers, bytes_str body), fw_broken = False\<rparr> \<and>
    snd (snd (fcgi_read_body (fh_body_prefix p) rest)) = tail"
proof -
  obtain prefix rs' where
    h: "read_headers_from_stream [] (fcgi_wire rs @ fcgi_wire [r] @ tail) =
      Some (parsed_headers hdr prefix False, fcgi_wire rs' @ fcgi_wire [r] @ tail)"
    and body: "prefix @ stdout_of rs' = body" and rs': "list_all output_record rs'"
    using read_headers_cut [OF assms(1,2), of body "[]" "fcgi_wire [r] @ tail"] assms(3) by auto
  have "fcgi_read_body prefix (fcgi_wire rs' @ fcgi_wire [r] @ tail) = (body, BodyEnd, tail)"
    using fcgi_read_body_cut [OF rs' assms(4), of prefix tail] body assms(5) by (simp add: STREAM_ABOVE_def)
  then show ?thesis
    unfolding h using assms(6) by (simp add: build_streaming_response_def parsed_headers_def)
qed

theorem fcgi_response_exact_witness:
  "\<exists>p rest. read_headers_from_stream [] (fcgi_wire [\<lparr>rec_type = FCGI_STDOUT, rec_data = str_bytes ''X:''\<rparr>,
      \<lparr>rec_type = FCGI_STDOUT, rec_data = str_bytes '' a'' @ [13, 10, 13]\<rparr>,
      \<lparr>rec_type = FCGI_STDOUT, rec_data = 10 # str_bytes ''hi''\<rparr>] @
      fcgi_wire [\<lparr>rec_type = 3, rec_data = [0, 0, 0, 0, 0, 0, 0, 0]\<rparr>] @ []) = Some (p, rest) \<and>
    map_option (wr_body \<circ> fw_resp) (build_streaming_response \<lparr>fa_name = Some, fa_value = Some\<rparr> Eof p rest) = Some (Bytes ''hi'')"
proof -
  let ?rs = "[\<lparr>rec_type = FCGI_STDOUT, rec_data = str_bytes ''X:''\<rparr>,
      \<lparr>rec_type = FCGI_STDOUT, rec_data = str_bytes '' a'' @ [13, 10, 13]\<rparr>,
      \<lparr>rec_type = FCGI_STDOUT, rec_data = 10 # str_bytes ''hi''\<rparr>]"
  have "header_text (str_bytes ''X: a'')" by code_simp
  moreover have "list_all output_record ?rs"
    by (simp add: output_record_def FCGI_MAX_CONTENT_def str_bytes_def)
  moreover have "stdout_of ?rs = str_bytes ''X: a'' @ CRLF2 @ str_bytes ''hi''"
    by (simp add: CRLF2_def str_bytes_def)
  moreover have "end_record \<lparr>rec_type = 3, rec_data = [0, 0, 0, 0, 0, 0, 0, 0]\<rparr>"
    by (simp add: end_record_def FCGI_MAX_CONTENT_def fcgi_types)
  moreover have "length (str_bytes ''hi'') \<le> 4 * 1024 * 1024" by simp
  moreover have "parse_fcgi_headers (from_utf8_lossy (bytes_str (str_bytes ''X: a''))) = (200, [(''X'', ''a'')])" by code_simp
  ultimately obtain p rest where
    "read_headers_from_stream [] (fcgi_wire ?rs @ fcgi_wire [\<lparr>rec_type = 3, rec_data = [0, 0, 0, 0, 0, 0, 0, 0]\<rparr>] @ []) = Some (p, rest)"
    and b: "build_streaming_response \<lparr>fa_name = Some, fa_value = Some\<rparr> Eof p rest =
      Some \<lparr>fw_resp = make_complete_response \<lparr>fa_name = Some, fa_value = Some\<rparr> 200 [(''X'', ''a'')] (str_bytes ''hi''), fw_release = True,
            fw_store = Some (200, [(''X'', ''a'')], bytes_str (str_bytes ''hi'')), fw_broken = False\<rparr>"
    using fcgi_response_exact [of "str_bytes ''X: a''" ?rs "str_bytes ''hi''"
        "\<lparr>rec_type = 3, rec_data = [0, 0, 0, 0, 0, 0, 0, 0]\<rparr>" 200 "[(''X'', ''a'')]" "[]" "\<lparr>fa_name = Some, fa_value = Some\<rparr>" Eof]
    by blast
  moreover have "map_option (wr_body \<circ> fw_resp) (build_streaming_response \<lparr>fa_name = Some, fa_value = Some\<rparr> Eof p rest) =
      Some (Bytes ''hi'')"
    unfolding b by (simp add: make_complete_response_def status_or_ok_def no_body_status_def Let_def)
  ultimately show ?thesis by blast
qed

text \<open>
  A record left behind by the previous request (the end of request that follows the empty output record)
  does not disturb the next one on the same connection.
\<close>

lemma leftover_end_record_ignored:
  assumes "length (rec_data r) \<le> FCGI_MAX_CONTENT" and "rec_type r \<noteq> FCGI_STDOUT"
  shows "read_headers_from_stream buf (fcgi_wire [r] @ s) = read_headers_from_stream buf s"
proof -
  have "read_fcgi (fcgi_wire [r] @ s) = Some (r, s)" using assms(1) by (simp add: read_write_chunk)
  from read_headers_step [OF this] show ?thesis using assms(2) by simp
qed

text \<open>
  A connection that breaks off in the middle of the body is taken for its end: the truncated body is
  answered with its own length, stored in the cache, and the dead connection goes back to the pool.
\<close>

lemma broken_body_taken_for_complete:
  "fcgi_read_body (fh_body_prefix p) stream = (body, BodyError, rest) \<Longrightarrow> \<not> fh_body_done p \<Longrightarrow>
     build_streaming_response api Eof p stream =
       Some \<lparr>fw_resp = make_complete_response api (fh_status p) (fh_headers p) body, fw_release = True,
             fw_store = Some (fh_status p, fh_headers p, bytes_str body), fw_broken = False\<rparr>"
  by (simp add: build_streaming_response_def)

text \<open>A connection whose stream ends without a record makes the first attempt fail and the packet is sent again.\<close>

lemma failed_attempt_resends:
  assumes "fcgi_acquire (fe_fresh env 0) addr (fs_pool st) = (Some c0, pool0)" and "fe_answers env c0 pkt = Some ([], Eof)"
    and "fcgi_acquire (fe_fresh env 1) addr (fcgi_evict addr pool0) = (Some c1, pool1)" and "fe_answers env c1 pkt = Some ([], Eof)"
  shows "fst (fcgi_attempts 2 0 env rq addr pkt st) = Inl 502 \<and>
    fs_sent (snd (fcgi_attempts 2 0 env rq addr pkt st)) = fs_sent st @ [(addr, pkt), (addr, pkt)]"
proof -
  have none: "read_headers_from_stream [] [] = None"
    by (subst read_headers_from_stream.simps) (simp add: read_fcgi_def)
  show ?thesis using assms by (simp add: eval_nat_numeral Let_def none)
qed

section \<open>What a client cannot set\<close>

lemma at_most_one_key: "distinct (map fst xs) \<Longrightarrow> length (filter (\<lambda>(n, _). n = k) xs) \<le> 1"
proof (induction xs)
  case (Cons x xs)
  obtain n v where x: "x = (n, v)" by fastforce
  show ?case
  proof (cases "n = k")
    case True
    with Cons.prems x have "\<forall>p\<in>set xs. \<not> (case p of (n, _) \<Rightarrow> n = k)" by (force simp: image_iff)
    then have "filter (\<lambda>(n, _). n = k) xs = []" unfolding filter_empty_conv .
    with x show ?thesis by simp
  qed (use Cons x in simp)
qed simp

lemma fixed_names:
  "map fst (fixed_params version host_hdr rq resolved root_dir remote_addr body_len) =
     [''GATEWAY_INTERFACE'', ''SERVER_SOFTWARE'', ''SERVER_PROTOCOL'', ''SERVER_NAME'', ''SERVER_PORT'', ''REQUEST_METHOD'',
      ''REQUEST_URI'', ''DOCUMENT_URI'', ''QUERY_STRING'', ''DOCUMENT_ROOT'', ''SCRIPT_FILENAME'', ''SCRIPT_NAME'', ''PATH_INFO'',
      ''PATH_TRANSLATED'', ''REMOTE_ADDR'', ''REMOTE_HOST'', ''REMOTE_PORT'', ''CONTENT_TYPE'', ''CONTENT_LENGTH'']"
  by (simp add: fixed_params_def Let_def split: prod.split)

lemma fixed_remote_addr:
  "map_of (fixed_params version host_hdr rq resolved root_dir remote_addr body_len) ''REMOTE_ADDR'' = Some remote_addr"
proof -
  obtain a b c where "script_of root_dir (cl_uri_path (fq_base rq)) resolved = (a, b, c)" by (rule prod_cases3)
  moreover obtain d e where "server_name_port host_hdr (cl_is_tls (fq_base rq)) = (d, e)" by fastforce
  ultimately show ?thesis by (simp add: fixed_params_def Let_def)
qed

lemma header_vars_prefixed: "(k, v) \<in> set (header_vars hs) \<Longrightarrow> starts_with k ''HTTP_''"
  by (auto simp: header_vars_def header_var_def)



text \<open>A Proxy header becomes HTTP_PROXY, which many HTTP clients in scripts take for their proxy setting.\<close>

lemma proxy_header_becomes_http_proxy:
  "header_vars [(''proxy'', ''evil:80'')] = [(''HTTP_PROXY'', ''evil:80'')]"
  by code_simp

text \<open>The path of a script is not checked: dot segments lead out of the document root, and only the first \<^verbatim>\<open>.php\<close> counts.\<close>

lemma script_leaves_root:
  "script_of ''/srv'' ''/../x.php'' None = (''/srv/../x.php'', ''/../x.php'', [])"
  by code_simp

lemma only_first_php_counts:
  "split_script_path ''/a.phpx/b.php'' = (''/index.php'', ''/a.phpx/b.php'')"
  by code_simp

end
