(* ===== verification/Tls_Certs.thy ===== *)
theory Tls_Certs
  imports Vhost
begin

text \<open>
  Certificates (\<^verbatim>\<open>src/server/tls.rs\<close>): loading the keys of a site, the resolver that picks a certificate
  by the name a client asks for, the protocol versions and protocol names of a port, and the grouping of
  sites by port (\<^verbatim>\<open>src/server/http.rs\<close>).

  A hash map is an association list; its order stands for the unspecified order of iteration. Reading files,
  the PEM parser, the key types of the cryptography library and self-signed certificates are parameters.
\<close>

section \<open>Keys of a site\<close>

datatype 'd pem_item = Pkcs1Key 'd | Pkcs8Key 'd | Sec1Key 'd | OtherItem

datatype 'd private_key = Pkcs1 'd | Pkcs8 'd | Sec1 'd

record ('c, 'd, 'k) tls_env =
  te_lower :: "string \<Rightarrow> string"
  te_cache_dir :: string
  te_exists :: "string \<Rightarrow> bool"
  te_read :: "string \<Rightarrow> string option"
  te_certs :: "string \<Rightarrow> 'c list option"
  te_items :: "string \<Rightarrow> 'd pem_item list"
  te_certified :: "'c list \<Rightarrow> 'd private_key \<Rightarrow> 'k option"
  te_self_signed :: "string \<Rightarrow> 'k option"
  te_quic :: "'c list \<Rightarrow> 'd private_key \<Rightarrow> 'k option"
  te_quic_self :: "string \<Rightarrow> 'k option"

fun load_private_key :: "'d pem_item list \<Rightarrow> 'd private_key option" where
  "load_private_key [] = None"
| "load_private_key (Pkcs1Key k # is) = Some (Pkcs1 k)"
| "load_private_key (Pkcs8Key k # is) = Some (Pkcs8 k)"
| "load_private_key (Sec1Key k # is) = Some (Sec1 k)"
| "load_private_key (OtherItem # is) = load_private_key is"

definition load_certified_key_from_path :: "('c, 'd, 'k) tls_env \<Rightarrow> string \<Rightarrow> string \<Rightarrow> 'k option" where
  "load_certified_key_from_path env cert_path key_path =
     (case Option.bind (te_read env cert_path) (te_certs env) of
        None \<Rightarrow> None
      | Some cs \<Rightarrow>
          if cs = [] then None
          else (case te_read env key_path of
                  None \<Rightarrow> None
                | Some key_bytes \<Rightarrow> Option.bind (load_private_key (te_items env key_bytes)) (te_certified env cs)))"

definition primary_domain :: "string list \<Rightarrow> string" where
  "primary_domain server_names =
     (case find (\<lambda>d. \<not> starts_with d ''*.'') server_names of
        Some d \<Rightarrow> d
      | None \<Rightarrow> (case server_names of d # _ \<Rightarrow> d | [] \<Rightarrow> ''localhost''))"

definition acme_cert_path :: "('c, 'd, 'k) tls_env \<Rightarrow> string \<Rightarrow> string" where
  "acme_cert_path env domain = path_join (te_cache_dir env) (domain @ ''.crt'')"

definition acme_key_path :: "('c, 'd, 'k) tls_env \<Rightarrow> string \<Rightarrow> string" where
  "acme_key_path env domain = path_join (te_cache_dir env) (domain @ ''.key'')"

definition generate_self_signed_key :: "('c, 'd, 'k) tls_env \<Rightarrow> string \<Rightarrow> 'k option" where
  "generate_self_signed_key env domain = te_self_signed env (if domain = [] then ''localhost'' else domain)"

definition build_certified_keys :: "('c, 'd, 'k) tls_env \<Rightarrow> tls_config \<Rightarrow> string list \<Rightarrow> 'k list" where
  "build_certified_keys env tls server_names =
     (if acme tls then
        (let domain = primary_domain server_names;
             cert_path = acme_cert_path env domain; key_path = acme_key_path env domain;
             loaded = (if te_exists env cert_path \<and> te_exists env key_path
                       then load_certified_key_from_path env cert_path key_path else None)
         in case loaded of
              Some ck \<Rightarrow> [ck]
            | None \<Rightarrow> (case generate_self_signed_key env domain of Some ck \<Rightarrow> [ck] | None \<Rightarrow> []))
      else if certs tls \<noteq> [] then
        filter_map (\<lambda>p. load_certified_key_from_path env (ckp_cert p) (ckp_key p)) (certs tls)
      else (case (tls_cert tls, tls_key tls) of
              (Some cert, Some key) \<Rightarrow>
                (case load_certified_key_from_path env cert key of Some ck \<Rightarrow> [ck] | None \<Rightarrow> [])
            | _ \<Rightarrow> []))"

section \<open>The resolver\<close>

record 'k sni_inner =
  sni_exact :: "(string \<times> 'k list) list"
  sni_wildcard :: "(string \<times> 'k list) list"
  sni_fallback :: "'k list"

definition sni_default :: "'k sni_inner" where
  "sni_default = \<lparr>sni_exact = [], sni_wildcard = [], sni_fallback = []\<rparr>"

definition sni_insert :: "(string \<Rightarrow> string) \<Rightarrow> 'k list \<Rightarrow> string \<Rightarrow> 'k sni_inner \<Rightarrow> 'k sni_inner" where
  "sni_insert lower arcs name r =
     (case strip_prefix name ''*.'' of
        Some suffix \<Rightarrow> r\<lparr>sni_wildcard := AList.update (lower suffix) arcs (sni_wildcard r)\<rparr>
      | None \<Rightarrow> r\<lparr>sni_exact := AList.update (lower name) arcs (sni_exact r)\<rparr>)"

definition sni_upsert :: "(string \<Rightarrow> string) \<Rightarrow> string list \<Rightarrow> 'k list \<Rightarrow> 'k sni_inner \<Rightarrow> 'k sni_inner" where
  "sni_upsert lower names keys r =
     fold (sni_insert lower keys) names
       (if sni_fallback r = [] then r\<lparr>sni_fallback := keys\<rparr> else r)"

definition sni_delete :: "(string \<Rightarrow> string) \<Rightarrow> string \<Rightarrow> 'k sni_inner \<Rightarrow> 'k sni_inner" where
  "sni_delete lower name r =
     (case strip_prefix name ''*.'' of
        Some suffix \<Rightarrow> r\<lparr>sni_wildcard := AList.delete (lower suffix) (sni_wildcard r)\<rparr>
      | None \<Rightarrow> r\<lparr>sni_exact := AList.delete (lower name) (sni_exact r)\<rparr>)"

definition sni_remove :: "(string \<Rightarrow> string) \<Rightarrow> string list \<Rightarrow> 'k sni_inner \<Rightarrow> 'k sni_inner" where
  "sni_remove lower names r =
     (let r = fold (sni_delete lower) names r
      in r\<lparr>sni_fallback := (case map snd (sni_exact r) @ map snd (sni_wildcard r) of ks # _ \<Rightarrow> ks | [] \<Rightarrow> [])\<rparr>)"

definition sni_new :: "(string \<Rightarrow> string) \<Rightarrow> (string list \<times> 'k list) list \<Rightarrow> 'k sni_inner" where
  "sni_new lower certs_map = fold (\<lambda>(names, keys). sni_upsert lower names keys) certs_map sni_default"

definition sni_lookup :: "'k sni_inner \<Rightarrow> string \<Rightarrow> 'k list" where
  "sni_lookup r name =
     (let low = (if list_ex is_ascii_upper name then ascii_lower name else name)
      in case map_of (sni_exact r) low of
           Some cks \<Rightarrow> cks
         | None \<Rightarrow>
             (case (case find_idx CHR ''.'' low of
                      Some dot \<Rightarrow> map_of (sni_wildcard r) (drop (dot + 1) low)
                    | None \<Rightarrow> None) of
                Some cks \<Rightarrow> cks
              | None \<Rightarrow> sni_fallback r))"

definition sni_choose :: "('k \<Rightarrow> bool) \<Rightarrow> 'k list \<Rightarrow> 'k option" where
  "sni_choose supports candidates =
     (case find supports candidates of
        Some ck \<Rightarrow> Some ck
      | None \<Rightarrow> (case candidates of ck # _ \<Rightarrow> Some ck | [] \<Rightarrow> None))"

definition sni_resolve :: "'k sni_inner \<Rightarrow> ('k \<Rightarrow> bool) \<Rightarrow> string option \<Rightarrow> 'k option" where
  "sni_resolve r supports asked =
     sni_choose supports (case asked of Some name \<Rightarrow> sni_lookup r name | None \<Rightarrow> sni_fallback r)"

section \<open>The configuration of a port\<close>

datatype tls_version = TLS12 | TLS13

definition resolve_tls_versions :: "site_config list \<Rightarrow> tls_version list" where
  "resolve_tls_versions sites =
     (let tls = filter_map site_tls sites;
          allow_12 = list_all (\<lambda>t. min_version t \<noteq> ''tls1.3'') tls;
          allow_13 = list_all (\<lambda>t. max_version t \<noteq> ''tls1.2'') tls
      in if allow_12 \<and> allow_13 then [TLS12, TLS13]
         else if allow_13 then [TLS13]
         else if allow_12 then [TLS12]
         else [TLS12, TLS13])"

definition site_protocols :: "site_config \<Rightarrow> string list" where
  "site_protocols s = (case site_tls s of Some t \<Rightarrow> protocols t | None \<Rightarrow> [])"

definition push_alpn :: "string \<Rightarrow> string list \<Rightarrow> string list" where
  "push_alpn p alpn = (if p \<in> set [''h2'', ''http/1.1''] \<and> p \<notin> set alpn then alpn @ [p] else alpn)"

definition alpn_protocols :: "site_config list \<Rightarrow> string list" where
  "alpn_protocols sites =
     (let alpn = fold push_alpn (concat (map site_protocols sites)) []
      in if alpn = [] then [''http/1.1''] else alpn)"

record 'k server_tls =
  st_versions :: "tls_version list"
  st_alpn :: "string list"
  st_resolver :: "'k sni_inner"

definition site_certs :: "('c, 'd, 'k) tls_env \<Rightarrow> site_config \<Rightarrow> (string list \<times> 'k list) option" where
  "site_certs env s = map_option (\<lambda>t. (server_name s, build_certified_keys env t (server_name s))) (site_tls s)"

definition build_sni_server_config :: "('c, 'd, 'k) tls_env \<Rightarrow> site_config list \<Rightarrow> 'k server_tls option" where
  "build_sni_server_config env sites =
     (let certs_map = filter (\<lambda>(_, keys). keys \<noteq> []) (filter_map (site_certs env) sites)
      in if certs_map = [] then None
         else Some \<lparr>st_versions = resolve_tls_versions sites, st_alpn = alpn_protocols sites,
                    st_resolver = sni_new (te_lower env) certs_map\<rparr>)"

definition tls_port_sites :: "u16 \<Rightarrow> site_config list \<Rightarrow> site_config list" where
  "tls_port_sites port sites =
     concat (map (\<lambda>s. map (\<lambda>_. s) (filter (\<lambda>p. p = port) (listen_tls s)))
       (filter (\<lambda>s. site_tls s \<noteq> None) sites))"

definition collect_tls_ports_grouped :: "site_config list \<Rightarrow> (u16 \<times> site_config list) list" where
  "collect_tls_ports_grouped sites =
     map (\<lambda>p. (p, tls_port_sites p sites))
       (sort (remdups (concat (map listen_tls (filter (\<lambda>s. site_tls s \<noteq> None) sites)))))"

definition start_resolvers :: "('c, 'd, 'k) tls_env \<Rightarrow> site_config list \<Rightarrow> (u16 \<times> 'k sni_inner) list" where
  "start_resolvers env sites =
     filter_map (\<lambda>(port, ss). map_option (\<lambda>c. (port, st_resolver c)) (build_sni_server_config env ss))
       (collect_tls_ports_grouped sites)"

definition collect_http_ports :: "site_config list \<Rightarrow> u16 list" where
  "collect_http_ports sites = sort (remdups (concat (map listen sites)))"

fun collect_h3 :: "u16 list \<Rightarrow> site_config list \<Rightarrow> (u16 \<times> tls_config \<times> string list) list" where
  "collect_h3 seen [] = []"
| "collect_h3 seen (s # ss) =
     (case site_tls s of
        None \<Rightarrow> collect_h3 seen ss
      | Some t \<Rightarrow>
          if ''h3'' \<in> set (protocols t)
          then (let ps = filter (\<lambda>p. p \<notin> set seen) (rev (remdups (rev (listen_tls s))))
                in map (\<lambda>p. (p, t, server_name s)) ps @ collect_h3 (ps @ seen) ss)
          else collect_h3 seen ss)"

definition collect_h3_ports :: "site_config list \<Rightarrow> (u16 \<times> tls_config \<times> string list) list" where
  "collect_h3_ports sites = collect_h3 [] sites"

section \<open>The tables of a resolver\<close>

text \<open>
  Both tables obey the same laws: inserting a site sets its keys, removing a site drops them, and nothing
  else changes.
\<close>

definition exact_of :: "(string \<Rightarrow> string) \<Rightarrow> string list \<Rightarrow> string set" where
  "exact_of lower names = set (map lower (filter (\<lambda>n. \<not> starts_with n ''*.'') names))"

definition wild_of :: "(string \<Rightarrow> string) \<Rightarrow> string list \<Rightarrow> string set" where
  "wild_of lower names = set (map (\<lambda>n. lower (drop 2 n)) (filter (\<lambda>n. starts_with n ''*.'') names))"

lemma keys_of_site: "exact_keys lower s = exact_of lower (server_name s)" "wild_keys lower s = wild_of lower (server_name s)"
  by (simp_all add: exact_keys_def exact_of_def wild_keys_def wild_of_def)

lemma strip_star: "strip_prefix n ''*.'' = (if starts_with n ''*.'' then Some (drop 2 n) else None)"
proof -
  have "strip_prefix n p = (if starts_with n p then Some (drop (length p) n) else None)" for p :: string
    by (induction n p rule: strip_prefix.induct) auto
  then show ?thesis by (simp add: eval_nat_numeral)
qed

locale cert_table =
  fixes lower :: "string \<Rightarrow> string" and sel :: "'k sni_inner \<Rightarrow> string \<Rightarrow> 'k list option"
    and keys_of :: "string list \<Rightarrow> string set"
  assumes sel_default: "sel sni_default k = None"
    and sel_upsert: "sel (sni_upsert lower names ks r) k = (if k \<in> keys_of names then Some ks else sel r k)"
    and sel_remove: "sel (sni_remove lower names r) k = (if k \<in> keys_of names then None else sel r k)"
begin

lemma sel_new:
  "sel (sni_new lower cm) k = map_option snd (find (\<lambda>(names, _). k \<in> keys_of names) (rev cm))"
  unfolding sni_new_def
proof (induction cm rule: rev_induct)
  case (snoc e cm)
  then show ?case by (cases e) (simp add: sel_upsert)
qed (simp add: sel_default)

text \<open>A key that a single site claims leads to the keys of that site.\<close>

lemma sel_new_owner:
  assumes "(names, ks) \<in> set cm" and "k \<in> keys_of names"
    and "\<And>ns ks'. (ns, ks') \<in> set cm \<Longrightarrow> k \<in> keys_of ns \<Longrightarrow> ks' = ks"
  shows "sel (sni_new lower cm) k = Some ks"
proof (cases "find (\<lambda>(names, _). k \<in> keys_of names) (rev cm)")
  case None
  with assms(1,2) show ?thesis by (auto simp: find_None_all)
next
  case (Some e)
  from find_SomeD [OF this] assms(3) Some show ?thesis by (cases e) (auto simp: sel_new)
qed

lemma sel_new_unclaimed:
  "(\<And>ns ks. (ns, ks) \<in> set cm \<Longrightarrow> k \<notin> keys_of ns) \<Longrightarrow> sel (sni_new lower cm) k = None"
  by (auto simp: sel_new find_None_all)

end

lemma sel_insert:
  "map_of (sni_exact (fold (sni_insert lower ks) names r)) k =
     (if k \<in> exact_of lower names then Some ks else map_of (sni_exact r) k)"
  "map_of (sni_wildcard (fold (sni_insert lower ks) names r)) k =
     (if k \<in> wild_of lower names then Some ks else map_of (sni_wildcard r) k)"
  by (induction names arbitrary: r) (auto simp: sni_insert_def strip_star exact_of_def wild_of_def update_conv')

lemma sel_delete:
  "map_of (sni_exact (fold (sni_delete lower) names r)) k =
     (if k \<in> exact_of lower names then None else map_of (sni_exact r) k)"
  "map_of (sni_wildcard (fold (sni_delete lower) names r)) k =
     (if k \<in> wild_of lower names then None else map_of (sni_wildcard r) k)"
  by (induction names arbitrary: r) (auto simp: sni_delete_def strip_star exact_of_def wild_of_def delete_conv')

lemmas sni_laws = sni_upsert_def sni_remove_def sni_default_def sel_insert sel_delete Let_def

interpretation exact_certs: cert_table lower "\<lambda>r. map_of (sni_exact r)" "exact_of lower" for lower
  by unfold_locales (simp_all add: sni_laws)

interpretation wild_certs: cert_table lower "\<lambda>r. map_of (sni_wildcard r)" "wild_of lower" for lower
  by unfold_locales (simp_all add: sni_laws)

lemma fallback_insert [simp]: "sni_fallback (fold (sni_insert lower ks) names r) = sni_fallback r"
  by (induction names arbitrary: r) (auto simp: sni_insert_def split: option.splits)

text \<open>The certificates shown to a client without a name, or with an unknown one, are those of the first site.\<close>

lemma fallback_new:
  assumes "ks \<noteq> []"
  shows "sni_fallback (sni_new lower ((names, ks) # cm)) = ks"
proof -
  have "sni_fallback (fold (\<lambda>(names, keys). sni_upsert lower names keys) cm r) = sni_fallback r" if "sni_fallback r \<noteq> []" for r
    using that by (induction cm arbitrary: r) (auto simp: sni_upsert_def)
  with assms show ?thesis by (simp add: sni_new_def sni_upsert_def sni_default_def)
qed

section \<open>The certificate of the site that answers\<close>

lemma sni_lookup_lower:
  "sni_lookup r name =
     (let h = ascii_lower name
      in case map_of (sni_exact r) h of
           Some cks \<Rightarrow> cks
         | None \<Rightarrow>
             (case (case find_idx CHR ''.'' h of
                      Some p \<Rightarrow> map_of (sni_wildcard r) (drop (p + 1) h)
                    | None \<Rightarrow> None) of
                Some cks \<Rightarrow> cks
              | None \<Rightarrow> sni_fallback r))"
  by (cases "list_ex is_ascii_upper name") (simp_all add: sni_lookup_def ascii_lower_fixed list_ex_iff list_all_iff)

lemma sni_choose_in: "cks \<noteq> [] \<Longrightarrow> \<exists>ck\<in>set cks. sni_choose supports cks = Some ck"
  by (cases cks; cases "find supports cks") (auto simp: sni_choose_def dest: find_SomeD split: if_splits)

lemma filter_map_set: "set (filter_map f xs) = {y. \<exists>x\<in>set xs. f x = Some y}"
  by (induction xs) (auto split: option.splits)

definition port_certs :: "('c, 'd, 'k) tls_env \<Rightarrow> u16 \<Rightarrow> site_config list \<Rightarrow> (string list \<times> 'k list) list" where
  "port_certs env port sites = filter (\<lambda>(_, keys). keys \<noteq> []) (filter_map (site_certs env) (tls_port_sites port sites))"

lemma in_tls_port_sites:
  "s \<in> set (tls_port_sites port sites) \<longleftrightarrow> s \<in> set sites \<and> site_tls s \<noteq> None \<and> port \<in> set (listen_tls s)"
  by (auto simp: tls_port_sites_def)

lemma in_port_certs:
  "(names, ks) \<in> set (port_certs env port sites) \<longleftrightarrow>
     (\<exists>s t. s \<in> set sites \<and> site_tls s = Some t \<and> port \<in> set (listen_tls s) \<and> names = server_name s \<and>
        ks = build_certified_keys env t (server_name s) \<and> ks \<noteq> [])"
  by (auto simp: port_certs_def filter_map_set in_tls_port_sites site_certs_def)

lemma in_start_resolvers:
  assumes "port_certs env port sites \<noteq> []"
  shows "(port, sni_new (te_lower env) (port_certs env port sites)) \<in> set (start_resolvers env sites)"
proof -
  obtain names ks where "(names, ks) \<in> set (port_certs env port sites)" using assms by (cases "port_certs env port sites") auto
  then obtain s t where "s \<in> set sites" "site_tls s = Some t" "port \<in> set (listen_tls s)" by (auto simp: in_port_certs)
  then have "(port, tls_port_sites port sites) \<in> set (collect_tls_ports_grouped sites)"
    by (auto simp: collect_tls_ports_grouped_def)
  moreover have "build_sni_server_config env (tls_port_sites port sites) =
      Some \<lparr>st_versions = resolve_tls_versions (tls_port_sites port sites), st_alpn = alpn_protocols (tls_port_sites port sites),
            st_resolver = sni_new (te_lower env) (port_certs env port sites)\<rparr>"
    using assms by (simp add: build_sni_server_config_def port_certs_def Let_def)
  ultimately show ?thesis by (force simp: start_resolvers_def filter_map_set)
qed

text \<open>A key that only one site of a configuration claims leads to the keys of that site.\<close>

lemma port_certs_owner:
  assumes "disjoint_keys keys sites" "s \<in> set sites" "k \<in> keys s" "\<And>u. keys u = keys_of (server_name u)"
    and "(ns, ks) \<in> set (port_certs env port sites)" "k \<in> keys_of ns"
    and "site_tls s = Some t"
  shows "ks = build_certified_keys env t (server_name s)"
proof -
  obtain u t' where u: "u \<in> set sites" "site_tls u = Some t'" "ns = server_name u" "ks = build_certified_keys env t' (server_name u)"
    using assms(5) by (auto simp: in_port_certs)
  then have "u = s" using assms(1-4,6) unfolding disjoint_keys_def by (metis disjoint_iff)
  with u assms(7) show ?thesis by simp
qed

lemma resolver_serves:
  assumes ok: "hosts_ok (te_lower env) sites" and pick: "pick_site (te_lower env) id sites host = Some s"
    and t: "site_tls s = Some t" and port: "port \<in> set (listen_tls s)"
    and ks: "build_certified_keys env t (server_name s) \<noteq> []"
  shows "s \<in> set sites \<and> port_certs env port sites \<noteq> [] \<and>
    sni_lookup (sni_new (te_lower env) (port_certs env port sites)) host = build_certified_keys env t (server_name s)"
proof -
  let ?l = "te_lower env" and ?h = "ascii_lower host" and ?cm = "port_certs env port sites"
  let ?ks = "build_certified_keys env t (server_name s)"
  have in_sites: "s \<in> set sites"
    using pick by (auto simp: pick_site_def Let_def split: option.splits dest: find_SomeD)
  then have mem: "(server_name s, ?ks) \<in> set ?cm" using t port ks unfolding in_port_certs by blast
  from ok have dis: "disjoint_keys (exact_keys ?l) sites" "disjoint_keys (wild_keys ?l) sites" by (simp_all add: hosts_ok_def)
  have "sni_lookup (sni_new ?l ?cm) host = ?ks"
  proof (cases "find (\<lambda>e. ?h \<in> exact_keys ?l e) sites")
    case (Some u)
    then have "?h \<in> exact_keys ?l s" using pick find_SomeD [OF Some] by (simp add: pick_site_def)
    then have "map_of (sni_exact (sni_new ?l ?cm)) ?h = Some ?ks"
      using exact_certs.sel_new_owner [OF mem] port_certs_owner [OF dis(1) in_sites _ keys_of_site(1) _ _ t]
      by (metis keys_of_site(1))
    then show ?thesis by (simp add: sni_lookup_lower)
  next
    case None
    then obtain p where p: "find_idx CHR ''.'' ?h = Some p" and hit: "drop (p + 1) ?h \<in> wild_keys ?l s"
      using pick by (auto simp: pick_site_def Let_def split: option.splits dest: find_SomeD)
    have "map_of (sni_exact (sni_new ?l ?cm)) ?h = None"
      using None by (intro exact_certs.sel_new_unclaimed) (auto simp: in_port_certs find_None_all keys_of_site)
    moreover have "map_of (sni_wildcard (sni_new ?l ?cm)) (drop (p + 1) ?h) = Some ?ks"
      using wild_certs.sel_new_owner [OF mem] hit port_certs_owner [OF dis(2) in_sites _ keys_of_site(2) _ _ t]
      by (metis keys_of_site(2))
    ultimately show ?thesis using p by (simp add: sni_lookup_lower)
  qed
  with in_sites mem show ?thesis by auto
qed

text \<open>
  The certificate a client is shown belongs to the site that answers it. At start-up, on every port on
  which a site listens with a loadable certificate, a handshake for a host that the site claims, exactly or
  by wildcard, gets one of that site's own certificates, and the request that follows is routed to that
  same site, provided no two sites claim the same host.
\<close>

theorem certificate_matches_site:
  assumes "running senv sites reg" and "se_to_lowercase senv = te_lower env"
    and "pick_site (te_lower env) id sites host = Some s" and "site_tls s = Some t" and "port \<in> set (listen_tls s)"
    and "build_certified_keys env t (server_name s) \<noteq> []"
  shows "(\<exists>v. lookup_inner reg host = Some v \<and> runs_config senv s v) \<and>
    (\<exists>r ck. (port, r) \<in> set (start_resolvers env sites) \<and> sni_resolve r supports (Some host) = Some ck \<and>
       ck \<in> set (build_certified_keys env t (server_name s)))"
proof
  have ok: "hosts_ok (te_lower env) sites" and serves: "registry_serves senv sites reg"
    using running_serves [OF assms(1)] assms(2) by simp_all
  show "\<exists>v. lookup_inner reg host = Some v \<and> runs_config senv s v"
    using lookup_served [OF serves, of host] assms(2,3) by simp
  let ?r = "sni_new (te_lower env) (port_certs env port sites)"
  note r = resolver_serves [OF ok assms(3-6)]
  have "(port, ?r) \<in> set (start_resolvers env sites)" using r by (intro in_start_resolvers) simp
  moreover obtain ck where "ck \<in> set (build_certified_keys env t (server_name s))" "sni_resolve ?r supports (Some host) = Some ck"
    using sni_choose_in [OF assms(6), of supports] r by (auto simp: sni_resolve_def)
  ultimately show "\<exists>r ck. (port, r) \<in> set (start_resolvers env sites) \<and> sni_resolve r supports (Some host) = Some ck \<and>
       ck \<in> set (build_certified_keys env t (server_name s))" by blast
qed

definition demo_tls_env :: "(string, string, string) tls_env" where
  "demo_tls_env = \<lparr>te_lower = ascii_lower, te_cache_dir = ''/acme'', te_exists = (\<lambda>_. False), te_read = Some,
     te_certs = (\<lambda>b. Some [b]), te_items = (\<lambda>b. [OtherItem, Pkcs8Key b]), te_certified = (\<lambda>cs k. Some (hd cs)),
     te_self_signed = Some, te_quic = (\<lambda>cs k. Some (hd cs)), te_quic_self = Some\<rparr>"

definition demo_tls_site :: "string \<Rightarrow> string list \<Rightarrow> string \<Rightarrow> site_config" where
  "demo_tls_site name hosts cert = (demo_site name hosts)\<lparr>listen_tls := [443],
     site_tls := Some (serde_tls_config\<lparr>tls_cert := Some cert, tls_key := Some ''k''\<rparr>)\<rparr>"

lemma demo_tls_site_simps [simp]:
  "site_name (demo_tls_site n hs c) = n" "server_name (demo_tls_site n hs c) = hs" "listen_tls (demo_tls_site n hs c) = [443]"
  "site_tls (demo_tls_site n hs c) = Some (serde_tls_config\<lparr>tls_cert := Some c, tls_key := Some ''k''\<rparr>)"
  "fallback (demo_tls_site n hs c) = False"
  by (simp_all add: demo_tls_site_def)

lemma demo_lower [simp]: "te_lower demo_tls_env = ascii_lower" "se_to_lowercase demo_site_env = ascii_lower"
  by (simp_all add: demo_tls_env_def demo_site_env_def)

lemma demo_keys [simp]:
  "build_certified_keys demo_tls_env (serde_tls_config\<lparr>tls_cert := Some c, tls_key := Some ''k''\<rparr>) names = [c]"
  by (simp add: build_certified_keys_def serde_tls_config_def demo_tls_env_def load_certified_key_from_path_def)

theorem certificate_matches_site_witness:
  "\<exists>r ck. (443, r) \<in> set (start_resolvers demo_tls_env
      [demo_tls_site ''a'' [''a.org''] ''a.crt'', demo_tls_site ''b'' [''b.org'', ''*.b.org''] ''b.crt'']) \<and>
    sni_resolve r (\<lambda>_. False) (Some ''WWW.b.org'') = Some ck \<and> ck = ''b.crt''"
proof -
  let ?a = "demo_tls_site ''a'' [''a.org''] ''a.crt''" and ?b = "demo_tls_site ''b'' [''b.org'', ''*.b.org''] ''b.crt''"
  let ?reg = "registry_from_config demo_site_env 0 [?a, ?b] :: (string, unit) vhost_inner"
  have "running demo_site_env [?a, ?b] ?reg"
    by (rule running.start) (auto simp: hosts_ok_def disjoint_keys_def exact_keys_def wild_keys_def demo_site_env_def case_eval)
  moreover have "pick_site (te_lower demo_tls_env) id [?a, ?b] ''WWW.b.org'' = Some ?b"
    by (simp add: vhost_eval)
  ultimately show ?thesis
    using certificate_matches_site [of demo_site_env "[?a, ?b]" ?reg demo_tls_env
        "''WWW.b.org''" ?b "serde_tls_config\<lparr>tls_cert := Some ''b.crt'', tls_key := Some ''k''\<rparr>" 443 "\<lambda>_. False"]
    by simp
qed

section \<open>Versions and protocol names\<close>

text \<open>
  The versions offered on a port satisfy every site on it, unless one site excludes the one version and
  another the other: then both are offered, against both sites' wishes.
\<close>

definition allows :: "tls_version \<Rightarrow> tls_config \<Rightarrow> bool" where
  "allows v t = (case v of TLS12 \<Rightarrow> min_version t \<noteq> ''tls1.3'' | TLS13 \<Rightarrow> max_version t \<noteq> ''tls1.2'')"

lemma tls_versions_strictest:
  "resolve_tls_versions sites =
     (let common = filter (\<lambda>v. \<forall>s\<in>set sites. \<forall>t. site_tls s = Some t \<longrightarrow> allows v t) [TLS12, TLS13]
      in if common = [] then [TLS12, TLS13] else common)"
proof -
  have "list_all P (filter_map site_tls sites) \<longleftrightarrow> (\<forall>s\<in>set sites. \<forall>t. site_tls s = Some t \<longrightarrow> P t)" for P
    by (auto simp: list_all_iff filter_map_set)
  then show ?thesis unfolding resolve_tls_versions_def Let_def by (auto simp: allows_def)
qed

lemma push_alpn_set: "set (fold push_alpn ps acc) = set acc \<union> (set ps \<inter> {''h2'', ''http/1.1''})"
  by (induction ps arbitrary: acc) (auto simp: push_alpn_def)

lemma push_alpn_distinct: "distinct acc \<Longrightarrow> distinct (fold push_alpn ps acc)"
  by (induction ps arbitrary: acc) (auto simp: push_alpn_def)

text \<open>A port offers what any of its sites asks for, never HTTP/3, never nothing, and each name once.\<close>

lemma alpn_union:
  "distinct (alpn_protocols sites)"
  "p \<in> set (alpn_protocols sites) \<longleftrightarrow>
     (p \<in> {''h2'', ''http/1.1''} \<and> (\<exists>s\<in>set sites. p \<in> set (site_protocols s))) \<or>
     (p = ''http/1.1'' \<and> (\<forall>s\<in>set sites. set (site_protocols s) \<inter> {''h2'', ''http/1.1''} = {}))"
proof -
  let ?a = "fold push_alpn (concat (map site_protocols sites)) []"
  show "distinct (alpn_protocols sites)" by (simp add: alpn_protocols_def push_alpn_distinct Let_def)
  have "?a = [] \<longleftrightarrow> (\<forall>s\<in>set sites. set (site_protocols s) \<inter> {''h2'', ''http/1.1''} = {})"
    unfolding set_empty [symmetric] push_alpn_set by auto
  then show "p \<in> set (alpn_protocols sites) \<longleftrightarrow>
     (p \<in> {''h2'', ''http/1.1''} \<and> (\<exists>s\<in>set sites. p \<in> set (site_protocols s))) \<or>
     (p = ''http/1.1'' \<and> (\<forall>s\<in>set sites. set (site_protocols s) \<inter> {''h2'', ''http/1.1''} = {}))"
    by (auto simp: alpn_protocols_def push_alpn_set Let_def)
qed

end
