(* ===== verification/Hot_Reload.thy ===== *)
theory Hot_Reload
  imports Tls_Certs Config_Load
begin

text \<open>
  Hot reload (\<^verbatim>\<open>src/config/hot_reload.rs\<close>) as a whole: the events of the file watcher, the checks a new
  configuration passes before it is used, and the changes to the registry of hosts, to the certificate
  resolvers of the ports and to the configuration in force.

  The serialisations \<open>ser\<close> and \<open>tser\<close> are those of the TOML library, applied to a site and to its TLS block;
  the three name lists are the iteration orders of the hash sets. The registry and the resolvers are disjoint
  state, so the loops of \<^verbatim>\<open>apply_diff\<close> are modelled once for each.
\<close>

section \<open>Certificates of changed sites\<close>

type_synonym 'k resolvers = "(u16 \<times> 'k sni_inner) list"

definition upsert_port :: "(string \<Rightarrow> string) \<Rightarrow> string list \<Rightarrow> 'k list \<Rightarrow> u16 \<Rightarrow> 'k resolvers \<Rightarrow> 'k resolvers" where
  "upsert_port lower names keys port rs =
     map (\<lambda>(p, r). (p, if p = port then sni_upsert lower names keys r else r)) rs"

definition upsert_site_to_resolvers :: "('c, 'd, 'k) tls_env \<Rightarrow> site_config \<Rightarrow> 'k resolvers \<Rightarrow> 'k resolvers" where
  "upsert_site_to_resolvers env site rs =
     (case site_tls site of
        None \<Rightarrow> rs
      | Some tls \<Rightarrow>
          (let keys = build_certified_keys env tls (server_name site)
           in if keys = [] then rs
              else fold (upsert_port (te_lower env) (server_name site) keys) (listen_tls site) rs))"

definition remove_site_from_resolvers :: "('c, 'd, 'k) tls_env \<Rightarrow> site_config \<Rightarrow> 'k resolvers \<Rightarrow> 'k resolvers" where
  "remove_site_from_resolvers env site rs = map (\<lambda>(p, r). (p, sni_remove (te_lower env) (server_name site) r)) rs"

definition tls_changed :: "(tls_config option \<Rightarrow> string option) \<Rightarrow> site_config \<Rightarrow> site_config \<Rightarrow> bool" where
  "tls_changed tser old new = (tser (site_tls old) \<noteq> tser (site_tls new))"

definition update_changed_tls ::
  "('c, 'd, 'k) tls_env \<Rightarrow> (site_config \<Rightarrow> string option) \<Rightarrow> (tls_config option \<Rightarrow> string option)
     \<Rightarrow> (string \<rightharpoonup> site_config) \<Rightarrow> (string \<rightharpoonup> site_config) \<Rightarrow> string \<Rightarrow> 'k resolvers \<Rightarrow> 'k resolvers" where
  "update_changed_tls env ser tser old_map new_map name rs =
     (case (old_map name, new_map name) of
        (Some old_site, Some new_site) \<Rightarrow>
          if site_changed ser old_site new_site \<and> tls_changed tser old_site new_site
          then upsert_site_to_resolvers env new_site (remove_site_from_resolvers env old_site rs)
          else rs
      | _ \<Rightarrow> rs)"

definition apply_diff_tls ::
  "('c, 'd, 'k) tls_env \<Rightarrow> (site_config \<Rightarrow> string option) \<Rightarrow> (tls_config option \<Rightarrow> string option)
     \<Rightarrow> string list \<Rightarrow> string list \<Rightarrow> string list \<Rightarrow> site_config list \<Rightarrow> site_config list \<Rightarrow> 'k resolvers \<Rightarrow> 'k resolvers" where
  "apply_diff_tls env ser tser removed added common old new rs =
     (let old_map = site_map old; new_map = site_map new
      in fold (update_changed_tls env ser tser old_map new_map) common
           (fold (\<lambda>n rs. case new_map n of Some s \<Rightarrow> upsert_site_to_resolvers env s rs | None \<Rightarrow> rs) added
             (fold (\<lambda>n rs. case old_map n of Some s \<Rightarrow> remove_site_from_resolvers env s rs | None \<Rightarrow> rs) removed rs)))"

section \<open>Checks before a reload\<close>

definition preflight_site :: "('c, 'd, 'k) tls_env \<Rightarrow> site_config \<Rightarrow> bool" where
  "preflight_site env site =
     (case site_tls site of
        None \<Rightarrow> True
      | Some tls \<Rightarrow>
          acme tls \<or>
          ((tls_cert tls \<noteq> None \<or> tls_key tls \<noteq> None \<longrightarrow> build_certified_keys env tls (server_name site) \<noteq> []) \<and>
           list_all (\<lambda>c. build_certified_keys env
               (tls\<lparr>tls_cert := Some (ckp_cert c), tls_key := Some (ckp_key c), certs := [], acme := False\<rparr>)
               (server_name site) \<noteq> []) (certs tls)))"

definition preflight_tls :: "('c, 'd, 'k) tls_env \<Rightarrow> app_config \<Rightarrow> bool" where
  "preflight_tls env cfg = list_all (preflight_site env) (app_sites cfg)"

section \<open>One round of the watcher\<close>

record ('re, 'l, 'k) hot_state =
  hs_registry :: "('re, 'l) vhost_inner"
  hs_resolvers :: "'k resolvers"
  hs_cfg :: app_config
  hs_log_level :: string

text \<open>
  What a round finds: the kinds of the events drained from the channel (removal or not), whether the file
  exists, what the parser makes of it, the iteration orders, and whether the log level can be changed.
\<close>

record reload_round =
  rr_events :: "bool list"
  rr_exists :: bool
  rr_parsed :: "app_config option"
  rr_removed :: "string list"
  rr_added :: "string list"
  rr_common :: "string list"
  rr_alloc :: "string \<Rightarrow> nat"
  rr_level_ok :: "string \<Rightarrow> bool"

definition hot_apply ::
  "'re site_env \<Rightarrow> ('c, 'd, 'k) tls_env \<Rightarrow> (site_config \<Rightarrow> string option) \<Rightarrow> (tls_config option \<Rightarrow> string option)
     \<Rightarrow> reload_round \<Rightarrow> app_config \<Rightarrow> ('re, 'l, 'k) hot_state \<Rightarrow> ('re, 'l, 'k) hot_state" where
  "hot_apply senv env ser tser rd new st =
     (let old = hs_cfg st
      in \<lparr>hs_registry = apply_diff senv (rr_alloc rd) ser (rr_removed rd) (rr_added rd) (rr_common rd)
            (app_sites old) (app_sites new) (hs_registry st),
          hs_resolvers = apply_diff_tls env ser tser (rr_removed rd) (rr_added rd) (rr_common rd)
            (app_sites old) (app_sites new) (hs_resolvers st),
          hs_cfg = new,
          hs_log_level = (if log_level (app_global old) \<noteq> log_level (app_global new) \<and>
                             rr_level_ok rd (log_level (app_global new))
                          then log_level (app_global new) else hs_log_level st)\<rparr>)"

definition reload_once ::
  "'re site_env \<Rightarrow> ('c, 'd, 'k) tls_env \<Rightarrow> (site_config \<Rightarrow> string option) \<Rightarrow> (tls_config option \<Rightarrow> string option)
     \<Rightarrow> reload_round \<Rightarrow> ('re, 'l, 'k) hot_state \<Rightarrow> ('re, 'l, 'k) hot_state" where
  "reload_once senv env ser tser rd st =
     (if rr_events rd = [] \<or> last (rr_events rd) \<or> \<not> rr_exists rd then st
      else (case rr_parsed rd of
              None \<Rightarrow> st
            | Some raw \<Rightarrow>
                (case load_config raw of
                   Inl _ \<Rightarrow> st
                 | Inr new \<Rightarrow>
                     (case validate_config new of
                        Inl _ \<Rightarrow> st
                      | Inr _ \<Rightarrow>
                          if preflight_tls env new then hot_apply senv env ser tser rd new st else st))))"

section \<open>A reload as a list of operations\<close>

type_synonym tls_op = "site_config option \<times> site_config option"

definition tls_run_op :: "('c, 'd, 'k) tls_env \<Rightarrow> tls_op \<Rightarrow> 'k resolvers \<Rightarrow> 'k resolvers" where
  "tls_run_op env x rs =
     (let rs1 = (case fst x of Some s \<Rightarrow> remove_site_from_resolvers env s rs | None \<Rightarrow> rs)
      in case snd x of Some s \<Rightarrow> upsert_site_to_resolvers env s rs1 | None \<Rightarrow> rs1)"

definition tls_ops ::
  "(site_config \<Rightarrow> string option) \<Rightarrow> (tls_config option \<Rightarrow> string option) \<Rightarrow> string list \<Rightarrow> string list \<Rightarrow> string list
     \<Rightarrow> site_config list \<Rightarrow> site_config list \<Rightarrow> tls_op list" where
  "tls_ops ser tser removed added common old new =
     map (\<lambda>n. (site_map old n, None)) removed @ map (\<lambda>n. (None, site_map new n)) added @
     map (\<lambda>n. (site_map old n, site_map new n))
       (filter (\<lambda>n. \<exists>s s'. site_map old n = Some s \<and> site_map new n = Some s' \<and> site_changed ser s s' \<and> tls_changed tser s s')
         common)"

lemma apply_diff_tls_ops:
  "apply_diff_tls env ser tser removed added common old new rs =
     fold (tls_run_op env) (tls_ops ser tser removed added common old new) rs"
proof -
  have step: "update_changed_tls env ser tser (site_map old) (site_map new) =
      (\<lambda>n. if \<exists>s s'. site_map old n = Some s \<and> site_map new n = Some s' \<and> site_changed ser s s' \<and> tls_changed tser s s'
       then tls_run_op env (site_map old n, site_map new n) else id)"
    by (auto simp: fun_eq_iff update_changed_tls_def tls_run_op_def split: option.splits)
  have common: "fold (update_changed_tls env ser tser (site_map old) (site_map new)) common rs' =
      fold (tls_run_op env) (map (\<lambda>n. (site_map old n, site_map new n)) (filter (\<lambda>n. \<exists>s s'. site_map old n = Some s \<and>
        site_map new n = Some s' \<and> site_changed ser s s' \<and> tls_changed tser s s') common)) rs'" for rs'
    unfolding step fold_if by (simp add: fold_map comp_def)
  show ?thesis
    unfolding apply_diff_tls_def Let_def common tls_ops_def
    by (simp add: fold_map comp_def tls_run_op_def [abs_def])
qed

lemma map_of_ports:
  "map_of (map (\<lambda>(p, r). (p, f p r)) rs) p = map_option (f p) (map_of rs p)"
  by (induction rs) auto

lemma bound_upserts [simp]: "map_of (fold (upsert_port lower names ks) ports rs) p = None \<longleftrightarrow> map_of rs p = None"
  by (induction ports arbitrary: rs) (simp_all add: upsert_port_def map_of_ports)

lemma bound_run_op [simp]: "map_of (tls_run_op env x rs) p = None \<longleftrightarrow> map_of rs p = None"
  by (auto simp: tls_run_op_def upsert_site_to_resolvers_def remove_site_from_resolvers_def map_of_ports Let_def split: option.splits)

context cert_table
begin

lemma sel_ports:
  assumes "map_of rs p = Some r"
  obtains r' where "map_of (fold (upsert_port lower names ks) ports rs) p = Some r'"
    and "\<And>k. sel r' k = (if p \<in> set ports \<and> k \<in> keys_of names then Some ks else sel r k)"
proof -
  have "\<exists>r'. map_of (fold (upsert_port lower names ks) ports rs) p = Some r' \<and>
      (\<forall>k. sel r' k = (if p \<in> set ports \<and> k \<in> keys_of names then Some ks else sel r k))"
    using assms
  proof (induction ports arbitrary: rs r)
    case (Cons q ports)
    have "map_of (upsert_port lower names ks q rs) p = Some (if p = q then sni_upsert lower names ks r else r)"
      using Cons.prems by (simp add: upsert_port_def map_of_ports)
    from Cons.IH [OF this] show ?case by (auto simp: sel_upsert)
  qed simp
  then show thesis using that by blast
qed

lemma sel_run_op:
  assumes "te_lower env = lower" and "map_of rs p = Some r"
  obtains r' where "map_of (tls_run_op env (d, u) rs) p = Some r'"
    and "\<And>k. (\<And>s. d = Some s \<or> u = Some s \<Longrightarrow> k \<notin> keys_of (server_name s)) \<Longrightarrow> sel r' k = sel r k"
    and "\<And>s t k. u = Some s \<Longrightarrow> site_tls s = Some t \<Longrightarrow> p \<in> set (listen_tls s) \<Longrightarrow> k \<in> keys_of (server_name s) \<Longrightarrow>
           build_certified_keys env t (server_name s) \<noteq> [] \<Longrightarrow> sel r' k = Some (build_certified_keys env t (server_name s))"
proof -
  define rs1 where "rs1 = (case d of Some s \<Rightarrow> remove_site_from_resolvers env s rs | None \<Rightarrow> rs)"
  obtain r1 where r1: "map_of rs1 p = Some r1"
    and keep: "\<And>k. (\<And>s. d = Some s \<Longrightarrow> k \<notin> keys_of (server_name s)) \<Longrightarrow> sel r1 k = sel r k"
    using assms by (cases d) (auto simp: rs1_def remove_site_from_resolvers_def map_of_ports sel_remove)
  have run: "tls_run_op env (d, u) rs = (case u of Some s \<Rightarrow> upsert_site_to_resolvers env s rs1 | None \<Rightarrow> rs1)"
    by (simp only: tls_run_op_def rs1_def Let_def fst_conv snd_conv)
  show thesis
  proof (cases "\<exists>s t. u = Some s \<and> site_tls s = Some t \<and> build_certified_keys env t (server_name s) \<noteq> []")
    case False
    then have "tls_run_op env (d, u) rs = rs1"
      unfolding run by (auto simp: upsert_site_to_resolvers_def Let_def split: option.splits)
    with r1 keep False show thesis by (intro that [of r1]) auto
  next
    case True
    then obtain s t where u: "u = Some s" "site_tls s = Some t" "build_certified_keys env t (server_name s) \<noteq> []" by blast
    then have "tls_run_op env (d, u) rs =
        fold (upsert_port lower (server_name s) (build_certified_keys env t (server_name s))) (listen_tls s) rs1"
      using assms(1) unfolding run by (simp add: upsert_site_to_resolvers_def)
    moreover obtain r' where
      "map_of (fold (upsert_port lower (server_name s) (build_certified_keys env t (server_name s))) (listen_tls s) rs1) p = Some r'"
      "\<And>k. sel r' k = (if p \<in> set (listen_tls s) \<and> k \<in> keys_of (server_name s)
          then Some (build_certified_keys env t (server_name s)) else sel r1 k)"
      using sel_ports [OF r1] by metis
    ultimately show thesis using u keep by (intro that [of r']) auto
  qed
qed

text \<open>
  A key that only one site claims, in the old configuration and in the new, leads after the operations to
  that site's new keys, in whatever order they run.
\<close>

lemma sel_ops:
  assumes "te_lower env = lower" and "site_tls s = Some t" and "p \<in> set (listen_tls s)" and "k \<in> keys_of (server_name s)"
    and "build_certified_keys env t (server_name s) \<noteq> []" and "map_of rs p \<noteq> None"
    and "\<exists>x\<in>set ops. snd x = Some s"
    and "\<And>x u. x \<in> set ops \<Longrightarrow> snd x \<noteq> Some s \<Longrightarrow> fst x = Some u \<or> snd x = Some u \<Longrightarrow> k \<notin> keys_of (server_name u)"
  shows "\<exists>r. map_of (fold (tls_run_op env) ops rs) p = Some r \<and> sel r k = Some (build_certified_keys env t (server_name s))"
  using assms(7,8)
proof (induction ops rule: rev_induct)
  case (snoc x ops)
  obtain d u where x: "x = (d, u)" by fastforce
  have "map_of (fold (tls_run_op env) ops rs) p \<noteq> None"
    using assms(6) by (induction ops rule: rev_induct) simp_all
  then obtain r where r: "map_of (fold (tls_run_op env) ops rs) p = Some r" by blast
  from sel_run_op [OF assms(1) r, of d u] obtain r' where
    r': "map_of (tls_run_op env (d, u) (fold (tls_run_op env) ops rs)) p = Some r'"
    and keep: "\<And>k. (\<And>s. d = Some s \<or> u = Some s \<Longrightarrow> k \<notin> keys_of (server_name s)) \<Longrightarrow> sel r' k = sel r k"
    and put: "u = Some s \<Longrightarrow> sel r' k = Some (build_certified_keys env t (server_name s))"
    using assms(2-5) by metis
  show ?case
  proof (cases "u = Some s")
    case False
    then have "sel r k = Some (build_certified_keys env t (server_name s))"
      using snoc.IH snoc.prems x r by fastforce
    moreover have "sel r' k = sel r k" using snoc.prems(2) [of x] False x by (intro keep) auto
    ultimately show ?thesis using r' x by simp
  qed (use r' put x in simp)
qed simp

end

section \<open>What a reload guarantees\<close>

lemma filter_map_nonempty: "xs \<noteq> [] \<Longrightarrow> list_all (\<lambda>x. f x \<noteq> None) xs \<Longrightarrow> filter_map f xs \<noteq> []"
  by (cases xs) auto

lemma single_cert_keys:
  "build_certified_keys env (t\<lparr>tls_cert := Some c, tls_key := Some k, certs := [], acme := False\<rparr>) names \<noteq> [] \<longleftrightarrow>
     load_certified_key_from_path env c k \<noteq> None"
  by (simp add: build_certified_keys_def split: option.splits)

text \<open>A configuration that is valid and passes the preflight has a certificate for every site that brings its own.\<close>

lemma preflight_keys:
  assumes "validate_site s = Inr ()" and "preflight_site env s" and "site_tls s = Some t" and "\<not> acme t"
  shows "build_certified_keys env t (server_name s) \<noteq> []"
proof (cases "certs t = []")
  case True
  with assms show ?thesis
    by (auto simp: validate_site_def preflight_site_def split: if_splits sum.splits)
next
  case False
  have "list_all (\<lambda>p. load_certified_key_from_path env (ckp_cert p) (ckp_key p) \<noteq> None) (certs t)"
    using assms(2-4) by (auto simp: preflight_site_def single_cert_keys list_all_iff)
  from filter_map_nonempty [OF False this] assms(4) False show ?thesis by (simp add: build_certified_keys_def)
qed

lemma reload_once_cases:
  assumes "reload_once senv env ser tser rd st \<noteq> st"
  obtains raw new where "rr_parsed rd = Some raw" "load_config raw = Inr new" "validate_config new = Inr ()"
    "preflight_tls env new" "rr_events rd \<noteq> []" "\<not> last (rr_events rd)" "rr_exists rd"
    "reload_once senv env ser tser rd st = hot_apply senv env ser tser rd new st"
  using assms by (auto simp: reload_once_def split: if_splits option.splits sum.splits)

text \<open>
  C10: a reload is all or nothing. A round of the watcher leaves the whole state as it was, or it applies a
  configuration that the parser accepted, that the checks found valid, and in which every site with its own
  certificate files can load them; in particular a deleted, unreadable or invalid file changes nothing.
\<close>

theorem reload_all_or_nothing:
  assumes "st' = reload_once senv env ser tser rd st" and "st' \<noteq> st"
  shows "\<exists>raw new. rr_parsed rd = Some raw \<and> load_config raw = Inr new \<and> hs_cfg st' = new \<and> rr_exists rd \<and>
    st' = hot_apply senv env ser tser rd new st \<and>
    (\<forall>s\<in>set (app_sites new). \<forall>t. site_tls s = Some t \<longrightarrow> \<not> acme t \<longrightarrow> build_certified_keys env t (server_name s) \<noteq> [])"
proof -
  from assms have "reload_once senv env ser tser rd st \<noteq> st" by simp
  then obtain raw new where r: "rr_parsed rd = Some raw" "load_config raw = Inr new" "validate_config new = Inr ()"
    "preflight_tls env new" "rr_exists rd" "st' = hot_apply senv env ser tser rd new st"
    using assms(1) by (auto elim!: reload_once_cases)
  have "build_certified_keys env t (server_name s) \<noteq> []"
    if "s \<in> set (app_sites new)" "site_tls s = Some t" "\<not> acme t" for s t
  proof (rule preflight_keys)
    show "validate_site s = Inr ()" using r(3) that(1) by (simp add: validate_config_def validate_sites_ok)
    show "preflight_site env s" using r(4) that(1) by (simp add: preflight_tls_def list_all_iff)
  qed (use that in simp_all)
  with r show ?thesis by (auto simp: hot_apply_def Let_def)
qed


section \<open>What a reload forgets\<close>

lemma pick_none_lookup:
  assumes "pick_site (te_lower env) id sites host = None"
  shows "sni_lookup (sni_new (te_lower env) (port_certs env port sites)) host =
    sni_fallback (sni_new (te_lower env) (port_certs env port sites))"
proof -
  let ?h = "ascii_lower host" and ?r = "sni_new (te_lower env) (port_certs env port sites)"
  have ex: "\<forall>s\<in>set sites. ?h \<notin> exact_keys (te_lower env) s"
    and wi: "\<And>p s. find_idx CHR ''.'' ?h = Some p \<Longrightarrow> s \<in> set sites \<Longrightarrow> drop (p + 1) ?h \<notin> wild_keys (te_lower env) s"
    using assms by (auto simp: pick_site_def Let_def find_None_all split: option.splits)
  have "map_of (sni_exact ?r) ?h = None"
    using ex by (intro exact_certs.sel_new_unclaimed) (auto simp: in_port_certs keys_of_site)
  moreover have "map_of (sni_wildcard ?r) (drop (p + 1) ?h) = None" if "find_idx CHR ''.'' ?h = Some p" for p
    using wi [OF that] by (intro wild_certs.sel_new_unclaimed) (auto simp: in_port_certs keys_of_site)
  ultimately show ?thesis by (auto simp: sni_lookup_lower Let_def split: option.split)
qed

lemma port_certs_first:
  assumes "site_tls s = Some t" "port \<in> set (listen_tls s)" "build_certified_keys env t (server_name s) \<noteq> []"
  obtains cm where "port_certs env port (s # sites) = (server_name s, build_certified_keys env t (server_name s)) # cm"
proof -
  have "filter (\<lambda>p. p = port) (listen_tls s) \<noteq> []" using assms(2) by (auto simp: filter_empty_conv)
  then obtain x xs where "filter (\<lambda>p. p = port) (listen_tls s) = x # xs" by (cases "filter (\<lambda>p. p = port) (listen_tls s)") auto
  then show thesis using assms(1,3) that by (auto simp: port_certs_def tls_port_sites_def site_certs_def)
qed

text \<open>
  A host added to a site whose TLS settings stay the same is routed but gets another site's certificate.
  After such a reload the registry leads the new host to the changed site, while the resolver, which a
  reload only touches when the TLS block differs, still answers with the certificates of the first site of
  the port.
\<close>

theorem added_host_gets_foreign_certificate:
  assumes "running senv [s0, s] reg" and "se_to_lowercase senv = te_lower env"
    and "hosts_ok (te_lower env) [s0, s']" and "site_name s' = site_name s" and "site_tls s' = site_tls s"
    and "ser_faithful ser [s0, s] [s0, s']"
    and "site_tls s0 = Some t0" and "build_certified_keys env t0 (server_name s0) \<noteq> []" and "port \<in> set (listen_tls s0)"
    and "pick_site (te_lower env) id [s0, s'] host = Some s'" and "pick_site (te_lower env) id [s0, s] host = None"
  shows "(\<exists>v. lookup_inner (apply_diff senv alloc ser [] [] [site_name s0, site_name s] [s0, s] [s0, s'] reg) host = Some v \<and>
       runs_config senv s' v) \<and>
    (\<exists>r. (port, r) \<in> set (apply_diff_tls env ser tser [] [] [site_name s0, site_name s] [s0, s] [s0, s'] (start_resolvers env [s0, s])) \<and>
       sni_lookup r host = build_certified_keys env t0 (server_name s0))"
proof
  have d: "site_name s0 \<noteq> site_name s"
    using running_serves [OF assms(1)] by (auto simp: hosts_ok_def)
  let ?reg = "apply_diff senv alloc ser [] [] [site_name s0, site_name s] [s0, s] [s0, s'] reg"
  have "running senv [s0, s'] ?reg"
    using assms(1,3,6) by (rule_tac running.reload) (use assms(2,4) d in \<open>auto simp: diff_lists_def\<close>)
  then show "\<exists>v. lookup_inner ?reg host = Some v \<and> runs_config senv s' v"
    using lookup_served [of senv "[s0, s']" ?reg host] running_serves assms(2,10) by fastforce
  have "tls_ops ser tser [] [] [site_name s0, site_name s] [s0, s] [s0, s'] = []"
    using assms(4,5) d by (simp add: tls_ops_def site_map_def tls_changed_def)
  then have same: "apply_diff_tls env ser tser [] [] [site_name s0, site_name s] [s0, s] [s0, s'] rs = rs" for rs :: "'e resolvers"
    by (simp add: apply_diff_tls_ops)
  obtain cm where cm: "port_certs env port [s0, s] = (server_name s0, build_certified_keys env t0 (server_name s0)) # cm"
    by (rule port_certs_first [OF assms(7,9,8)])
  have "(port, sni_new (te_lower env) (port_certs env port [s0, s])) \<in> set (start_resolvers env [s0, s])"
    by (rule in_start_resolvers) (simp add: cm)
  moreover have "sni_lookup (sni_new (te_lower env) (port_certs env port [s0, s])) host = build_certified_keys env t0 (server_name s0)"
    unfolding pick_none_lookup [OF assms(11)] unfolding cm by (rule fallback_new) (rule assms(8))
  ultimately show "\<exists>r. (port, r) \<in> set (apply_diff_tls env ser tser [] [] [site_name s0, site_name s] [s0, s] [s0, s'] (start_resolvers env [s0, s])) \<and>
       sni_lookup r host = build_certified_keys env t0 (server_name s0)"
    unfolding same by blast
qed

text \<open>
  A name that moves from one changed site to another may end up without a certificate: when the site that
  gains it is processed first, removing the old names of the other site takes it away again.
\<close>

lemma moved_name_lost:
  assumes "k \<in> exact_of (te_lower env) (server_name a_old)" and "k \<notin> exact_of (te_lower env) (server_name a_new)"
    and "map_of rs port = Some r"
  shows "\<exists>r'. map_of (tls_run_op env (Some a_old, Some a_new) (tls_run_op env (Some b_old, Some b_new) rs)) port = Some r' \<and>
    map_of (sni_exact r') k = None"
proof -
  obtain r1 where r1: "map_of (tls_run_op env (Some b_old, Some b_new) rs) port = Some r1"
    using assms(3) by (cases "map_of (tls_run_op env (Some b_old, Some b_new) rs) port") auto
  have split: "tls_run_op env (Some a_old, Some a_new) x = tls_run_op env (None, Some a_new) (tls_run_op env (Some a_old, None) x)" for x
    by (simp add: tls_run_op_def Let_def)
  obtain r2 where r2: "map_of (tls_run_op env (Some a_old, None) (tls_run_op env (Some b_old, Some b_new) rs)) port = Some r2"
    and none: "map_of (sni_exact r2) k = None"
    using r1 assms(1) by (auto simp: tls_run_op_def Let_def remove_site_from_resolvers_def map_of_ports exact_certs.sel_remove)
  obtain r3 where "map_of (tls_run_op env (None, Some a_new) (tls_run_op env (Some a_old, None) (tls_run_op env (Some b_old, Some b_new) rs))) port = Some r3"
    and "map_of (sni_exact r3) k = map_of (sni_exact r2) k"
    using exact_certs.sel_run_op [where env = env and d = None and u = "Some a_new", OF refl r2] assms(2) by (metis option.distinct(1) option.inject)
  with none show ?thesis unfolding split by auto
qed

section \<open>Witnesses\<close>

definition demo_round :: "app_config option \<Rightarrow> reload_round" where
  "demo_round parsed = \<lparr>rr_events = [True, False], rr_exists = True, rr_parsed = parsed, rr_removed = [], rr_added = [''a''], rr_common = [],
     rr_alloc = (\<lambda>_. 1), rr_level_ok = (\<lambda>_. True)\<rparr>"

definition demo_state :: "(string, unit, string) hot_state" where
  "demo_state = \<lparr>hs_registry = default_registry, hs_resolvers = [], hs_cfg = default_app_config, hs_log_level = ''info''\<rparr>"

definition demo_new :: app_config where
  "demo_new = \<lparr>app_global = default_global_config, app_sites = [demo_tls_site ''a'' [''a.org''] ''a.crt'']\<rparr>"

definition demo_tser :: "tls_config option \<Rightarrow> string option" where
  "demo_tser t = Some (case t of None \<Rightarrow> [] | Some t \<Rightarrow> unwrap_or (tls_cert t) [])"

lemma demo_load: "load_config demo_new = Inr demo_new"
  by (simp add: load_config_def demo_new_def expand_config_def expand_site_def expand_tls_auto_def expand_php_fastcgi_def
      expand_preset_def demo_tls_site_def serde_site_config_def validate_config_def validate_site_def serde_tls_config_def)

theorem reload_all_or_nothing_witness:
  "\<exists>new. rr_parsed (demo_round (Some demo_new)) = Some demo_new \<and> load_config demo_new = Inr new \<and>
     hs_cfg (reload_once demo_site_env demo_tls_env demo_ser demo_tser (demo_round (Some demo_new)) demo_state) = new"
proof -
  have ok: "validate_config demo_new = Inr ()"
    using demo_load by (auto simp: load_config_def Let_def split: sum.splits)
  have "preflight_tls demo_tls_env demo_new"
    by (simp add: preflight_tls_def demo_new_def preflight_site_def serde_tls_config_def build_certified_keys_def
        load_certified_key_from_path_def demo_tls_env_def)
  then have "hs_cfg (reload_once demo_site_env demo_tls_env demo_ser demo_tser (demo_round (Some demo_new)) demo_state) = demo_new"
    by (simp add: reload_once_def demo_round_def demo_load ok hot_apply_def Let_def)
  moreover have "hs_cfg demo_state \<noteq> demo_new"
    by (simp add: demo_state_def demo_new_def default_app_config_def)
  ultimately have "reload_once demo_site_env demo_tls_env demo_ser demo_tser (demo_round (Some demo_new)) demo_state \<noteq> demo_state"
    by auto
  from reload_all_or_nothing [OF refl this] show ?thesis by (auto simp: demo_round_def)
qed


theorem added_host_gets_foreign_certificate_witness:
  "\<exists>r. (443, r) \<in> set (apply_diff_tls demo_tls_env demo_ser demo_tser [] [] [''a'', ''b'']
        [demo_tls_site ''a'' [''a.org''] ''a.crt'', demo_tls_site ''b'' [''b.org''] ''b.crt'']
        [demo_tls_site ''a'' [''a.org''] ''a.crt'', demo_tls_site ''b'' [''b.org'', ''c.org''] ''b.crt'']
        (start_resolvers demo_tls_env [demo_tls_site ''a'' [''a.org''] ''a.crt'', demo_tls_site ''b'' [''b.org''] ''b.crt''])) \<and>
     sni_lookup r ''c.org'' = [''a.crt'']"
proof -
  let ?a = "demo_tls_site ''a'' [''a.org''] ''a.crt''" and ?b = "demo_tls_site ''b'' [''b.org''] ''b.crt''"
  let ?b' = "demo_tls_site ''b'' [''b.org'', ''c.org''] ''b.crt''"
  let ?reg = "registry_from_config demo_site_env 0 [?a, ?b] :: (string, unit) vhost_inner"
  have ok: "hosts_ok ascii_lower [?a, ?b]" "hosts_ok ascii_lower [?a, ?b']"
    by (auto simp: hosts_ok_def disjoint_keys_def exact_keys_def wild_keys_def case_eval)
  then have "running demo_site_env [?a, ?b] ?reg" by (intro running.start) simp
  moreover have "ser_faithful demo_ser [?a, ?b] [?a, ?b']" by (auto simp: ser_faithful_def demo_ser_def)
  moreover have "pick_site ascii_lower id [?a, ?b'] ''c.org'' = Some ?b'" "pick_site ascii_lower id [?a, ?b] ''c.org'' = None"
    by (simp_all add: vhost_eval)
  ultimately show ?thesis
    using added_host_gets_foreign_certificate [of demo_site_env ?a ?b ?reg demo_tls_env ?b' demo_ser
        "serde_tls_config\<lparr>tls_cert := Some ''a.crt'', tls_key := Some ''k''\<rparr>" 443 "''c.org''" _ demo_tser] ok
    by simp
qed

end
