(* ===== verification/Admin_Config.thy ===== *)
theory Admin_Config
  imports Hot_Reload
begin

text \<open>
  The configuration end points of the admin interface (\<^verbatim>\<open>src/admin_api/handlers/config.rs\<close>): reading and
  changing the tree of the configuration as JSON, loading a whole configuration, saving and reloading it.

  A JSON object is an association list ordered by key, as the library's map is; a number is its text. The
  conversions between configurations, JSON and TOML are parameters. The texts of answers are abbreviated.
\<close>

section \<open>JSON\<close>

datatype json = JNull | JBool bool | JNum string | JStr string | JArr "json list" | JObj "(string \<times> json) list"

fun str_less :: "string \<Rightarrow> string \<Rightarrow> bool" where
  "str_less _ [] = False"
| "str_less [] (b # bs) = True"
| "str_less (a # as) (b # bs) = (cv a < cv b \<or> a = b \<and> str_less as bs)"

fun obj_insert :: "string \<Rightarrow> json \<Rightarrow> (string \<times> json) list \<Rightarrow> (string \<times> json) list" where
  "obj_insert k v [] = [(k, v)]"
| "obj_insert k v ((k', v') # kvs) =
     (if k = k' then (k, v) # kvs
      else if str_less k k' then (k, v) # (k', v') # kvs
      else (k', v') # obj_insert k v kvs)"

definition obj_remove :: "string \<Rightarrow> (string \<times> json) list \<Rightarrow> (string \<times> json) list" where
  "obj_remove k kvs = filter (\<lambda>(k', _). k' \<noteq> k) kvs"

text \<open>\<^verbatim>\<open>str::parse::<usize>\<close> on a 64-bit machine.\<close>

definition parse_usize :: "string \<Rightarrow> nat option" where
  "parse_usize s = parse_u64 s"

fun json_navigate :: "string list \<Rightarrow> json \<Rightarrow> json option" where
  "json_navigate [] j = Some j"
| "json_navigate (seg # segs) j =
     (if seg = [] then json_navigate segs j
      else (case j of
              JObj kvs \<Rightarrow> (case map_of kvs seg of Some sub \<Rightarrow> json_navigate segs sub | None \<Rightarrow> None)
            | JArr xs \<Rightarrow>
                (case parse_usize seg of
                   Some i \<Rightarrow> if i < length xs then json_navigate segs (xs ! i) else None
                 | None \<Rightarrow> None)
            | _ \<Rightarrow> None))"

datatype tree_error =
    BadIndex | OutOfRange | KeyExists | KeyMissing | NotContainer | NullTarget

text \<open>\<^verbatim>\<open>json_navigate_mut\<close> with the change made at the node it returns; \<open>None\<close> when there is no such node.\<close>

fun json_modify :: "string list \<Rightarrow> (json \<Rightarrow> tree_error + json) \<Rightarrow> json \<Rightarrow> (tree_error + json) option" where
  "json_modify [] f j = Some (f j)"
| "json_modify (seg # segs) f j =
     (if seg = [] then json_modify segs f j
      else (case j of
              JObj kvs \<Rightarrow>
                (case map_of kvs seg of
                   Some sub \<Rightarrow> map_option (map_sum id (\<lambda>sub'. JObj (AList.update seg sub' kvs))) (json_modify segs f sub)
                 | None \<Rightarrow> None)
            | JArr xs \<Rightarrow>
                (case parse_usize seg of
                   Some i \<Rightarrow>
                     if i < length xs then map_option (map_sum id (\<lambda>sub'. JArr (xs[i := sub']))) (json_modify segs f (xs ! i))
                     else None
                 | None \<Rightarrow> None)
            | _ \<Rightarrow> None))"

fun find_by_id :: "string \<Rightarrow> json \<Rightarrow> json option" and find_in_values :: "string \<Rightarrow> (string \<times> json) list \<Rightarrow> json option"
  and find_in_items :: "string \<Rightarrow> json list \<Rightarrow> json option" where
  "find_by_id target (JObj kvs) =
     (if map_of kvs ''@id'' = Some (JStr target) then Some (JObj kvs) else find_in_values target kvs)"
| "find_by_id target (JArr xs) = find_in_items target xs"
| "find_by_id target _ = None"
| "find_in_values target [] = None"
| "find_in_values target ((_, v) # kvs) =
     (case find_by_id target v of Some j \<Rightarrow> Some j | None \<Rightarrow> find_in_values target kvs)"
| "find_in_items target [] = None"
| "find_in_items target (x # xs) = (case find_by_id target x of Some j \<Rightarrow> Some j | None \<Rightarrow> find_in_items target xs)"

section \<open>Changes of a node\<close>

definition post_change :: "json \<Rightarrow> json \<Rightarrow> tree_error + json" where
  "post_change value target = Inr
     (case target of
        JArr xs \<Rightarrow> JArr (xs @ [value])
      | JObj kvs \<Rightarrow> (case value of JObj new \<Rightarrow> JObj (fold (\<lambda>(k, v). obj_insert k v) new kvs) | _ \<Rightarrow> value)
      | _ \<Rightarrow> value)"

definition put_change :: "string \<Rightarrow> json \<Rightarrow> json \<Rightarrow> tree_error + json" where
  "put_change last_seg value parent =
     (case parent of
        JArr xs \<Rightarrow>
          (case parse_usize last_seg of
             None \<Rightarrow> Inl BadIndex
           | Some i \<Rightarrow> if length xs < i then Inl OutOfRange else Inr (JArr (take i xs @ value # drop i xs)))
      | JObj kvs \<Rightarrow> if map_of kvs last_seg \<noteq> None then Inl KeyExists else Inr (JObj (obj_insert last_seg value kvs))
      | _ \<Rightarrow> Inl NotContainer)"

definition patch_change :: "json \<Rightarrow> json \<Rightarrow> tree_error + json" where
  "patch_change value target = (if target = JNull then Inl NullTarget else Inr value)"

definition delete_change :: "string \<Rightarrow> json \<Rightarrow> tree_error + json" where
  "delete_change last_seg parent =
     (case parent of
        JObj kvs \<Rightarrow> if map_of kvs last_seg = None then Inl KeyMissing else Inr (JObj (obj_remove last_seg kvs))
      | JArr xs \<Rightarrow>
          (case parse_usize last_seg of
             None \<Rightarrow> Inl BadIndex
           | Some i \<Rightarrow> if length xs \<le> i then Inl OutOfRange else Inr (JArr (take i xs @ drop (i + 1) xs)))
      | _ \<Rightarrow> Inl NotContainer)"

section \<open>The state behind the interface\<close>

record ('re, 'l, 'k) admin_state =
  ad_registry :: "('re, 'l) vhost_inner"
  ad_cfg :: app_config
  ad_resolvers :: "'k resolvers"
  ad_h3_max :: nat
  ad_file :: "string option"

record 're config_env =
  ce_site :: "'re site_env"
  ce_base :: nat
  ce_json :: "string \<Rightarrow> json option"
  ce_to_value :: "app_config \<Rightarrow> json option"
  ce_from_value :: "json \<Rightarrow> app_config option"
  ce_parse_cfg :: "string \<Rightarrow> app_config option"
  ce_to_toml :: "app_config \<Rightarrow> string option"
  ce_from_toml :: "string \<Rightarrow> app_config option"
  ce_has_path :: bool
  ce_write_ok :: bool

datatype admin_body = Msg bool string | Tree json | Verdict bool nat

type_synonym answer = "nat \<times> admin_body"

definition h3_max_handlers :: "site_config list \<Rightarrow> nat" where
  "h3_max_handlers sites =
     (case filter (\<lambda>t. ''h3'' \<in> set (protocols t)) (filter_map site_tls sites) of
        t # _ \<Rightarrow> max_handlers (http3 t) | [] \<Rightarrow> 0)"

definition admin_apply :: "'re config_env \<Rightarrow> app_config \<Rightarrow> ('re, 'l, 'k) admin_state \<Rightarrow> ('re, 'l, 'k) admin_state" where
  "admin_apply env new st =
     st\<lparr>ad_registry := apply_config (ce_site env) (ce_base env) (app_sites new) (ad_registry st),
        ad_h3_max := h3_max_handlers (app_sites new), ad_cfg := new\<rparr>"

definition save_config_to_disk :: "'re config_env \<Rightarrow> ('re, 'l, 'k) admin_state \<Rightarrow> ('re, 'l, 'k) admin_state" where
  "save_config_to_disk env st =
     (case ce_to_toml env (ad_cfg st) of
        Some text \<Rightarrow> if ce_has_path env \<and> ce_write_ok env then st\<lparr>ad_file := Some text\<rparr> else st
      | None \<Rightarrow> st)"

section \<open>The end points\<close>

definition route_load :: "'re config_env \<Rightarrow> string \<Rightarrow> bool \<Rightarrow> ('re, 'l, 'k) admin_state \<Rightarrow> answer \<times> ('re, 'l, 'k) admin_state" where
  "route_load env body should_save st =
     (case ce_parse_cfg env body of
        None \<Rightarrow> ((400, Msg False ''json''), st)
      | Some new \<Rightarrow>
          (let st' = admin_apply env new st
           in ((200, Msg True ''loaded''), if should_save then save_config_to_disk env st' else st')))"

definition config_tree_mutate ::
  "'re config_env \<Rightarrow> bool \<Rightarrow> string list \<Rightarrow> (json \<Rightarrow> tree_error + json) \<Rightarrow> ('re, 'l, 'k) admin_state
     \<Rightarrow> answer \<times> ('re, 'l, 'k) admin_state" where
  "config_tree_mutate env should_save segs mutate_fn st =
     (case ce_to_value env (ad_cfg st) of
        None \<Rightarrow> ((500, Msg False ''serialise''), st)
      | Some root_val \<Rightarrow>
          (case json_modify segs mutate_fn root_val of
             None \<Rightarrow> ((404, Msg False ''path''), st)
           | Some (Inl e) \<Rightarrow> ((400, Msg False ''change''), st)
           | Some (Inr root') \<Rightarrow>
               (case ce_from_value env root' of
                  None \<Rightarrow> ((400, Msg False ''invalid''), st)
                | Some new \<Rightarrow>
                    (let st' = admin_apply env new st
                     in ((200, Msg True ''updated''), if should_save then save_config_to_disk env st' else st')))))"

text \<open>The path after \<^verbatim>\<open>/config\<close>, cut at slashes.\<close>

definition config_segments :: "string \<Rightarrow> string list" where
  "config_segments path =
     (let p = unwrap_or (strip_prefix path ''/config'') [];
          p = unwrap_or (strip_prefix p ''/'') p
      in if p = [] then [] else split_on CHR ''/'' p)"

definition route_config_tree ::
  "'re config_env \<Rightarrow> string \<Rightarrow> string \<Rightarrow> string \<Rightarrow> bool \<Rightarrow> ('re, 'l, 'k) admin_state \<Rightarrow> answer \<times> ('re, 'l, 'k) admin_state" where
  "route_config_tree env meth path body should_save st =
     (let segs = config_segments path
      in if meth = ''GET'' then
           (case ce_to_value env (ad_cfg st) of
              None \<Rightarrow> ((500, Msg False ''serialise''), st)
            | Some root_val \<Rightarrow>
                (case json_navigate segs root_val of
                   Some sub \<Rightarrow> ((200, Tree sub), st)
                 | None \<Rightarrow> ((404, Msg False ''path''), st)))
         else if meth = ''POST'' then
           (case ce_json env body of
              None \<Rightarrow> ((400, Msg False ''json''), st)
            | Some value \<Rightarrow> config_tree_mutate env should_save segs (post_change value) st)
         else if meth = ''PUT'' then
           (case ce_json env body of
              None \<Rightarrow> ((400, Msg False ''json''), st)
            | Some value \<Rightarrow>
                if segs = [] then ((400, Msg False ''root''), st)
                else config_tree_mutate env should_save (butlast segs) (put_change (last segs) value) st)
         else if meth = ''PATCH'' then
           (case ce_json env body of
              None \<Rightarrow> ((400, Msg False ''json''), st)
            | Some value \<Rightarrow> config_tree_mutate env should_save segs (patch_change value) st)
         else if meth = ''DELETE'' then
           (if segs = [] then ((200, Msg True ''cleared''), admin_apply env default_app_config st)
            else config_tree_mutate env should_save (butlast segs) (delete_change (last segs)) st)
         else ((405, Msg False ''method''), st))"

definition route_config_save :: "'re config_env \<Rightarrow> ('re, 'l, 'k) admin_state \<Rightarrow> answer \<times> ('re, 'l, 'k) admin_state" where
  "route_config_save env st =
     (if \<not> ce_has_path env then ((400, Msg False ''no path''), st)
      else (case ce_to_toml env (ad_cfg st) of
              None \<Rightarrow> ((500, Msg False ''serialise''), st)
            | Some text \<Rightarrow>
                if ce_write_ok env then ((200, Msg True ''saved''), st\<lparr>ad_file := Some text\<rparr>)
                else ((500, Msg False ''write''), st)))"

definition read_config :: "'re config_env \<Rightarrow> ('re, 'l, 'k) admin_state \<Rightarrow> app_config option" where
  "read_config env st =
     (case Option.bind (ad_file st) (ce_from_toml env) of
        None \<Rightarrow> None
      | Some raw \<Rightarrow> (case load_config raw of Inr cfg \<Rightarrow> Some cfg | Inl _ \<Rightarrow> None))"

definition route_config_reload :: "'re config_env \<Rightarrow> ('re, 'l, 'k) admin_state \<Rightarrow> answer \<times> ('re, 'l, 'k) admin_state" where
  "route_config_reload env st =
     (if \<not> ce_has_path env then ((400, Msg False ''no path''), st)
      else (case read_config env st of
              Some new \<Rightarrow> ((200, Msg True ''reloaded''), admin_apply env new st)
            | None \<Rightarrow> ((400, Msg False ''load''), st)))"

definition route_config_test :: "'re config_env \<Rightarrow> ('re, 'l, 'k) admin_state \<Rightarrow> answer" where
  "route_config_test env st =
     (if \<not> ce_has_path env then (400, Msg False ''no path'')
      else (case read_config env st of
              Some cfg \<Rightarrow> (200, Verdict True (length (app_sites cfg)))
            | None \<Rightarrow> (200, Verdict False 0)))"

definition route_id_lookup :: "'re config_env \<Rightarrow> string \<Rightarrow> string \<Rightarrow> ('re, 'l, 'k) admin_state \<Rightarrow> answer" where
  "route_id_lookup env meth path st =
     (if meth \<noteq> ''GET'' then (405, Msg False ''method'')
      else (let rest = drop 4 path;
                (ident, sub_path) = (case find_idx CHR ''/'' rest of
                   Some pos \<Rightarrow> (take pos rest, drop (pos + 1) rest) | None \<Rightarrow> (rest, []))
            in case ce_to_value env (ad_cfg st) of
                 None \<Rightarrow> (500, Msg False ''serialise'')
               | Some root_val \<Rightarrow>
                   (case find_by_id ident root_val of
                      None \<Rightarrow> (404, Msg False ''id'')
                    | Some node \<Rightarrow>
                        if sub_path = [] then (200, Tree node)
                        else (case json_navigate (split_on CHR ''/'' sub_path) node of
                                Some sub \<Rightarrow> (200, Tree sub)
                              | None \<Rightarrow> (404, Msg False ''path'')))))"

definition route_adapt :: "'re config_env \<Rightarrow> string \<Rightarrow> answer" where
  "route_adapt env body =
     (if \<not> utf8_ok body then (400, Msg False ''utf8'')
      else (case ce_from_toml env body of
              None \<Rightarrow> (400, Msg False ''toml'')
            | Some cfg \<Rightarrow> (case ce_to_value env cfg of Some j \<Rightarrow> (200, Tree j) | None \<Rightarrow> (500, Msg False ''serialise''))))"

definition route_certs_reload :: "'re config_env \<Rightarrow> ('re, 'l, 'k) admin_state \<Rightarrow> answer \<times> ('re, 'l, 'k) admin_state" where
  "route_certs_reload env st =
     (case route_config_reload env st of
        ((code, body), st') \<Rightarrow> ((code, if code = 200 then Msg True ''certificates reloaded'' else body), st'))"

section \<open>Reading and changing the tree\<close>

lemma map_sum_Inr: "map_sum id f x = Inr y \<longleftrightarrow> (\<exists>z. x = Inr z \<and> y = f z)"
  by (cases x) auto

lemma modify_get:
  "json_modify segs f j = Some (Inr j') \<Longrightarrow>
     \<exists>t t'. json_navigate segs j = Some t \<and> f t = Inr t' \<and> json_navigate segs j' = Some t'"
proof (induction segs f j arbitrary: j' rule: json_modify.induct)
  case (2 seg segs f j)
  show ?case
  proof (cases "seg = []")
    case False
    with "2.prems" "2.IH" show ?thesis
      by (cases j) (auto simp: update_conv' map_sum_Inr split: option.splits if_splits)
  qed (use 2 in simp)
qed simp

lemma modify_frame:
  assumes "json_modify (pre @ k # segs) f j = Some (Inr j')" and "json_navigate pre j = Some (JObj kvs)"
    and "k \<noteq> []" and "k' \<noteq> []" and "k \<noteq> k'"
  shows "json_navigate (pre @ k' # rest) j' = json_navigate (pre @ k' # rest) j"
  using assms(1,2)
proof (induction pre arbitrary: j j')
  case Nil
  then show ?case using assms(3-5) by (auto simp: update_conv' map_sum_Inr split: option.splits)
next
  case (Cons p pre)
  show ?case
  proof (cases "p = []")
    case False
    with Cons show ?thesis
      by (cases j) (auto simp: update_conv' map_sum_Inr split: option.splits if_splits)
  qed (use Cons in simp)
qed



section \<open>All or nothing\<close>

lemma mutate_cases:
  "config_tree_mutate env save segs f st = ((code, ans), st') \<Longrightarrow>
     code \<noteq> 200 \<and> st' = st \<or>
     code = 200 \<and> (\<exists>v v' new. ce_to_value env (ad_cfg st) = Some v \<and> json_modify segs f v = Some (Inr v') \<and>
       ce_from_value env v' = Some new \<and>
       st' = (if save then save_config_to_disk env (admin_apply env new st) else admin_apply env new st))"
  by (auto simp: config_tree_mutate_def Let_def split: option.splits sum.splits)

lemma saved_same [simp]:
  "ad_cfg (save_config_to_disk env st) = ad_cfg st" "ad_registry (save_config_to_disk env st) = ad_registry st"
  "ad_resolvers (save_config_to_disk env st) = ad_resolvers st"
  by (auto simp: save_config_to_disk_def split: option.splits)

lemma applied_same [simp]:
  "ad_cfg (admin_apply env new st) = new" "ad_resolvers (admin_apply env new st) = ad_resolvers st"
  "ad_file (admin_apply env new st) = ad_file st"
  "ad_registry (admin_apply env new st) = apply_config (ce_site env) (ce_base env) (app_sites new) (ad_registry st)"
  by (simp_all add: admin_apply_def)

text \<open>The change a request asks for: where, and what.\<close>

definition requested_change :: "string \<Rightarrow> string list \<Rightarrow> json option \<Rightarrow> (string list \<times> (json \<Rightarrow> tree_error + json)) option" where
  "requested_change meth segs value =
     (if meth = ''POST'' then map_option (\<lambda>v. (segs, post_change v)) value
      else if meth = ''PATCH'' then map_option (\<lambda>v. (segs, patch_change v)) value
      else if meth = ''PUT'' \<and> segs \<noteq> [] then map_option (\<lambda>v. (butlast segs, put_change (last segs) v)) value
      else if meth = ''DELETE'' \<and> segs \<noteq> [] then Some (butlast segs, delete_change (last segs))
      else None)"


definition demo_from_value :: "json \<Rightarrow> app_config option" where
  "demo_from_value j = (case json_navigate [''level''] j of
     Some (JStr l) \<Rightarrow> Some (default_app_config\<lparr>app_global := default_global_config\<lparr>log_level := l\<rparr>\<rparr>) | _ \<Rightarrow> None)"

definition demo_config_env :: "string config_env" where
  "demo_config_env = \<lparr>ce_site = demo_site_env, ce_base = 1, ce_json = (\<lambda>s. Some (JStr s)),
     ce_to_value = (\<lambda>c. Some (JObj [(''level'', JStr (log_level (app_global c)))])), ce_from_value = demo_from_value,
     ce_parse_cfg = (\<lambda>_. None), ce_to_toml = (\<lambda>_. Some []), ce_from_toml = (\<lambda>_. None), ce_has_path = True, ce_write_ok = True\<rparr>"

definition demo_admin_state :: "(string, unit, string) admin_state" where
  "demo_admin_state = \<lparr>ad_registry = default_registry, ad_cfg = default_app_config, ad_resolvers = [], ad_h3_max = 0, ad_file = None\<rparr>"


text \<open>No end point for the configuration touches the certificates in use, not even the one that reports them reloaded.\<close>

lemma certificates_not_reloaded:
  "ad_resolvers (snd (route_certs_reload env st)) = ad_resolvers st"
  by (auto simp: route_certs_reload_def route_config_reload_def split: option.splits)

text \<open>A configuration sent as JSON is applied as it is, expanded and validated by nobody.\<close>

lemma load_skips_validation:
  "ce_parse_cfg env body = Some new \<Longrightarrow> fst (fst (route_load env body save st)) = 200 \<and> ad_cfg (snd (route_load env body save st)) = new"
  by (simp add: route_load_def Let_def)

text \<open>A site known by wildcard names only is overlooked when a new configuration without it is applied.\<close>

lemma wildcard_site_survives:
  "vh_exact r = [] \<Longrightarrow> vh_wildcard (apply_config env base [] r) = vh_wildcard r"
  by (simp add: apply_config_def all_sites_def Let_def)

lemma patch_cannot_set_null: "json_navigate segs j = Some JNull \<Longrightarrow> json_modify segs (patch_change v) j = Some (Inl NullTarget)"
proof (induction segs "patch_change v" j rule: json_modify.induct)
  case (2 seg segs j)
  then show ?case by (cases j) (auto split: option.splits if_splits)
qed (simp add: patch_change_def)

section \<open>Objects stay well-formed\<close>

text \<open>An object is a map ordered by its keys: ascending, no key twice, at every depth.\<close>

function wf_json :: "json \<Rightarrow> bool" where
  "wf_json JNull = True" | "wf_json (JBool b) = True" | "wf_json (JNum t) = True" | "wf_json (JStr t) = True"
| "wf_json (JArr xs) = (\<forall>x\<in>set xs. wf_json x)"
| "wf_json (JObj kvs) = (sorted_wrt str_less (map fst kvs) \<and> (\<forall>kv\<in>set kvs. wf_json (snd kv)))"
  by pat_completeness auto
termination
proof (relation "measure size")
  fix kvs :: "(string \<times> json) list" and kv
  assume "kv \<in> set kvs"
  then have "size_prod (\<lambda>_. 0) size kv \<le> size_list (size_prod (\<lambda>_. 0) size) kvs" by (rule size_list_estimation') simp
  then show "(snd kv, JObj kvs) \<in> measure size" by (cases kv) simp
qed (auto simp: less_Suc_eq_le size_list_estimation')

lemma str_less_irrefl [simp]: "\<not> str_less a a"
  by (induction a) auto

lemma str_less_trans: "str_less a b \<Longrightarrow> str_less b c \<Longrightarrow> str_less a c"
  by (induction a b arbitrary: c rule: str_less.induct) (case_tac c; auto)+

lemma str_less_total: "a \<noteq> b \<Longrightarrow> str_less a b \<or> str_less b a"
proof (induction a b rule: str_less.induct)
  case (1 a)
  then show ?case by (cases a) simp_all
next
  case (3 a as b bs)
  then show ?case by (metis linorder_neqE_nat of_char_eq_iff str_less.simps(3))
qed simp

lemma obj_insert_keys: "fst ` set (obj_insert k v kvs) = insert k (fst ` set kvs)"
  by (induction k v kvs rule: obj_insert.induct) (simp_all add: insert_commute)

lemma obj_insert_sorted: "sorted_wrt str_less (map fst kvs) \<Longrightarrow> sorted_wrt str_less (map fst (obj_insert k v kvs))"
proof (induction kvs)
  case (Cons kv kvs)
  obtain a b where kv: "kv = (a, b)" by (cases kv)
  consider "k = a" | "k \<noteq> a" "str_less k a" | "k \<noteq> a" "\<not> str_less k a" "str_less a k" using str_less_total by blast
  then show ?case
  proof cases
    case 3
    have "\<forall>x\<in>fst ` set (obj_insert k v kvs). str_less a x"
      unfolding obj_insert_keys using Cons.prems 3(3) by (simp add: kv)
    then show ?thesis using Cons 3(1,2) by (simp add: kv)
  qed (use Cons.prems kv in \<open>auto dest: str_less_trans\<close>)
qed simp

lemma obj_insert_values: "kv \<in> set (obj_insert k v kvs) \<Longrightarrow> kv = (k, v) \<or> kv \<in> set kvs"
  by (induction kvs) (auto split: if_splits)

lemma wf_obj_insert: "wf_json (JObj kvs) \<Longrightarrow> wf_json v \<Longrightarrow> wf_json (JObj (obj_insert k v kvs))"
  by (auto simp: obj_insert_sorted dest!: obj_insert_values)

lemma wf_obj_inserts:
  "wf_json (JObj kvs) \<Longrightarrow> \<forall>kv\<in>set new. wf_json (snd kv) \<Longrightarrow> wf_json (JObj (fold (\<lambda>(k, v). obj_insert k v) new kvs))"
proof (induction new arbitrary: kvs)
  case (Cons kv new)
  have "wf_json (JObj (obj_insert (fst kv) (snd kv) kvs))" by (rule wf_obj_insert) (use Cons.prems in simp_all)
  then show ?case using Cons.IH Cons.prems(2) by (simp add: split_beta del: wf_json.simps)
qed simp

lemma wf_update:
  assumes "wf_json (JObj kvs)" "wf_json v" "map_of kvs k \<noteq> None"
  shows "wf_json (JObj (AList.update k v kvs))"
proof -
  have "map fst (AList.update k v kvs) = map fst kvs"
    using assms(3) by (induction kvs) (auto split: if_splits)
  moreover have "kv = (k, v) \<or> kv \<in> set kvs" if "kv \<in> set (AList.update k v kvs)" for kv
    using that by (induction kvs) (auto split: if_splits)
  ultimately show ?thesis using assms(1,2) by fastforce
qed

lemma wf_post:
  assumes "wf_json new" "wf_json v" "post_change new v = Inr v'"
  shows "wf_json v'"
proof (cases "\<exists>kvs kvs'. v = JObj kvs \<and> new = JObj kvs'")
  case True
  then obtain kvs kvs' where "v = JObj kvs" "new = JObj kvs'" by blast
  then show ?thesis using wf_obj_inserts [of kvs kvs'] assms by (auto simp: post_change_def)
next
  case False
  then show ?thesis using assms by (auto simp: post_change_def split: json.splits)
qed

lemma wf_splice:
  "wf_json (JArr xs) \<Longrightarrow> wf_json (JArr (take i xs @ ys @ drop j xs)) \<longleftrightarrow> wf_json (JArr ys)"
  by (auto dest: in_set_takeD in_set_dropD)

lemma wf_put:
  assumes "wf_json new" "wf_json v" "put_change k new v = Inr v'"
  shows "wf_json v'"
proof (cases v)
  case (JObj kvs)
  then have "v' = JObj (obj_insert k new kvs)" using assms(3) by (auto simp: put_change_def split: if_splits)
  then show ?thesis using wf_obj_insert [of kvs new k] assms(1,2) JObj by simp
next
  case (JArr xs)
  then obtain i where "v' = JArr (take i xs @ [new] @ drop i xs)"
    using assms(3) by (auto simp: put_change_def split: option.splits if_splits)
  then show ?thesis using assms(1,2) JArr by (simp only: wf_splice) simp
qed (use assms(3) in \<open>simp_all add: put_change_def\<close>)

lemma wf_delete:
  assumes "wf_json v" "delete_change k v = Inr v'"
  shows "wf_json v'"
proof (cases v)
  case (JObj kvs)
  then show ?thesis using assms
    by (auto simp: delete_change_def obj_remove_def sorted_wrt_map sorted_wrt_filter split: if_splits)
next
  case (JArr xs)
  then obtain i where "v' = JArr (take i xs @ [] @ drop (i + 1) xs)"
    using assms(2) by (auto simp: delete_change_def split: option.splits if_splits)
  then show ?thesis using assms(1) JArr by (simp only: wf_splice) simp
qed (use assms(2) in \<open>simp_all add: delete_change_def\<close>)

lemma wf_change:
  assumes "requested_change meth segs (Some value) = Some (p, f)" "wf_json value" "wf_json v" "f v = Inr v'"
  shows "wf_json v'"
  using assms by (auto simp: requested_change_def patch_change_def split: if_splits intro: wf_post wf_put wf_delete)

lemma json_modify_wf:
  assumes "\<And>u u'. wf_json u \<Longrightarrow> f u = Inr u' \<Longrightarrow> wf_json u'" and "wf_json v" "json_modify p f v = Some (Inr v')"
  shows "wf_json v'"
  using assms(2,3)
proof (induction p arbitrary: v v')
  case (Cons seg p)
  show ?case
  proof (cases "seg = []")
    case False
    show ?thesis
    proof (cases v)
      case (JObj kvs)
      then obtain u u' where "map_of kvs seg = Some u" "json_modify p f u = Some (Inr u')" "v' = JObj (AList.update seg u' kvs)"
        using Cons.prems(2) False by (auto simp: map_sum_Inr split: option.splits)
      moreover from this have "wf_json u'" using Cons.IH [of u u'] Cons.prems(1) JObj by (force dest: map_of_SomeD)
      ultimately show ?thesis using wf_update [of kvs u' seg] Cons.prems(1) JObj by simp
    next
      case (JArr xs)
      then obtain i u where "i < length xs" "json_modify p f (xs ! i) = Some (Inr u)" "v' = JArr (xs[i := u])"
        using Cons.prems(2) False by (auto simp: map_sum_Inr split: option.splits if_splits)
      moreover from this have "wf_json u" using Cons.IH [of "xs ! i" u] Cons.prems(1) JArr by simp
      ultimately show ?thesis using Cons.prems(1) JArr set_update_subset_insert [of xs i u] by auto
    qed (use Cons.prems False in simp_all)
  qed (use Cons in simp)
qed (use assms(1) in simp)



end
