(* ===== verification/Quic_Config.thy ===== *)
theory Quic_Config
  imports Tls_Certs
begin

text \<open>
  The certificate and the transport settings of an HTTP/3 port (\<^verbatim>\<open>src/server/tls.rs\<close>,
  \<^verbatim>\<open>build_quic_config\<close> and what it calls). The QUIC library's own defaults are a parameter; settings are kept
  in milliseconds and bytes as configured.

  Proved: what the configured settings become, and which certificate an HTTP/3 port shows.
\<close>

section \<open>Transport settings\<close>

datatype congestion = DefaultController | Bbr u64

record quic_transport =
  qt_bidi_streams :: u32
  qt_uni_streams :: u32
  qt_idle_timeout :: "u64 option"
  qt_keep_alive :: "u64 option"
  qt_receive_window :: u64
  qt_stream_receive_window :: u64
  qt_send_window :: u64
  qt_mtu_discovery :: bool
  qt_initial_rtt :: u64
  qt_max_ack_delay :: "u64 option"
  qt_congestion :: congestion

text \<open>A variable-length integer of QUIC has 62 bits.\<close>

definition var_int :: "u64 \<Rightarrow> u64 option" where
  "var_int x = (if x < 2 ^ 62 then Some x else None)"

definition apply_transport_config :: "quic_transport \<Rightarrow> http3_config \<Rightarrow> quic_transport" where
  "apply_transport_config dflt h3 =
     (let tc = dflt\<lparr>qt_bidi_streams := max_concurrent_bidi_streams h3, qt_uni_streams := max_concurrent_uni_streams h3\<rparr>;
          tc = (if 0 < idle_timeout_ms h3
                then (case var_int (idle_timeout_ms h3) of Some t \<Rightarrow> tc\<lparr>qt_idle_timeout := Some t\<rparr> | None \<Rightarrow> tc)
                else tc\<lparr>qt_idle_timeout := None\<rparr>);
          tc = (if 0 < keep_alive_interval_ms h3 then tc\<lparr>qt_keep_alive := Some (keep_alive_interval_ms h3)\<rparr>
                else tc\<lparr>qt_keep_alive := None\<rparr>);
          tc = (case var_int (receive_window h3) of Some w \<Rightarrow> tc\<lparr>qt_receive_window := w\<rparr> | None \<Rightarrow> tc);
          tc = (case var_int (stream_receive_window h3) of Some w \<Rightarrow> tc\<lparr>qt_stream_receive_window := w\<rparr> | None \<Rightarrow> tc);
          tc = tc\<lparr>qt_send_window := send_window h3\<rparr>;
          tc = (if mtu_discovery h3 then tc else tc\<lparr>qt_mtu_discovery := False\<rparr>);
          tc = (if initial_rtt_ms h3 \<noteq> 333 then tc\<lparr>qt_initial_rtt := max (initial_rtt_ms h3) 1\<rparr> else tc);
          tc = (if max_ack_delay_ms h3 \<noteq> 25 then tc\<lparr>qt_max_ack_delay := Some (max (max_ack_delay_ms h3) 1)\<rparr> else tc)
      in tc\<lparr>qt_congestion := Bbr (128 * 1024)\<rparr>)"

section \<open>The configuration of a port\<close>

record 'k quic_config =
  qc_key :: 'k
  qc_alpn :: "string list"
  qc_shared_sessions :: bool
  qc_early_data :: u32
  qc_transport :: quic_transport

definition build_quinn_config_from_pem ::
  "('c, 'd, 'k) tls_env \<Rightarrow> quic_transport \<Rightarrow> string \<Rightarrow> string \<Rightarrow> bool \<Rightarrow> 'k quic_config option" where
  "build_quinn_config_from_pem env dflt cert_path key_path zero_rtt =
     (case Option.bind (te_read env cert_path) (te_certs env) of
        None \<Rightarrow> None
      | Some cs \<Rightarrow>
          (case te_read env key_path of
             None \<Rightarrow> None
           | Some key_bytes \<Rightarrow>
               map_option (\<lambda>k. \<lparr>qc_key = k, qc_alpn = [''h3''], qc_shared_sessions = True,
                     qc_early_data = (if zero_rtt then - 1 else 0), qc_transport = dflt\<rparr>)
                 (Option.bind (load_private_key (te_items env key_bytes)) (te_quic env cs))))"

definition build_quinn_config_self_signed ::
  "('c, 'd, 'k) tls_env \<Rightarrow> quic_transport \<Rightarrow> string \<Rightarrow> 'k quic_config option" where
  "build_quinn_config_self_signed env dflt domain =
     map_option (\<lambda>k. \<lparr>qc_key = k, qc_alpn = [''h3''], qc_shared_sessions = False, qc_early_data = 0, qc_transport = dflt\<rparr>)
       (te_quic_self env (if domain = [] then ''localhost'' else domain))"

definition build_quic_config ::
  "('c, 'd, 'k) tls_env \<Rightarrow> quic_transport \<Rightarrow> tls_config \<Rightarrow> string list \<Rightarrow> 'k quic_config option" where
  "build_quic_config env dflt tls server_names =
     (let h3 = http3 tls;
          server_config =
            (if acme tls then
               (let domain = primary_domain server_names;
                    cert_path = acme_cert_path env domain; key_path = acme_key_path env domain
                in if te_exists env cert_path \<and> te_exists env key_path
                   then build_quinn_config_from_pem env dflt cert_path key_path (enable_0rtt h3)
                   else build_quinn_config_self_signed env dflt domain)
             else (case certs tls of
                     first # _ \<Rightarrow> build_quinn_config_from_pem env dflt (ckp_cert first) (ckp_key first) (enable_0rtt h3)
                   | [] \<Rightarrow>
                       (case (tls_cert tls, tls_key tls) of
                          (Some cert, Some key) \<Rightarrow> build_quinn_config_from_pem env dflt cert key (enable_0rtt h3)
                        | _ \<Rightarrow> None)))
      in map_option (\<lambda>c. c\<lparr>qc_transport := apply_transport_config (qc_transport c) h3\<rparr>) server_config)"

definition h3_bindings ::
  "('c, 'd, 'k) tls_env \<Rightarrow> quic_transport \<Rightarrow> site_config list \<Rightarrow> (u16 \<times> 'k quic_config) list" where
  "h3_bindings env dflt sites =
     filter_map (\<lambda>(port, tls, names). map_option (Pair port) (build_quic_config env dflt tls names)) (collect_h3_ports sites)"

section \<open>What the settings become\<close>

text \<open>Configured limits reach the transport; a window or an idle time of 62 bits or more is dropped silently, and a zero delay becomes one millisecond.\<close>

lemma transport_as_configured:
  "qt_bidi_streams (apply_transport_config d h3) = max_concurrent_bidi_streams h3"
  "qt_uni_streams (apply_transport_config d h3) = max_concurrent_uni_streams h3"
  "qt_send_window (apply_transport_config d h3) = send_window h3"
  "qt_receive_window (apply_transport_config d h3) = (if receive_window h3 < 2 ^ 62 then receive_window h3 else qt_receive_window d)"
  "qt_stream_receive_window (apply_transport_config d h3) =
     (if stream_receive_window h3 < 2 ^ 62 then stream_receive_window h3 else qt_stream_receive_window d)"
  "qt_idle_timeout (apply_transport_config d h3) =
     (if idle_timeout_ms h3 = 0 then None
      else if idle_timeout_ms h3 < 2 ^ 62 then Some (idle_timeout_ms h3) else qt_idle_timeout d)"
  "qt_keep_alive (apply_transport_config d h3) = (if keep_alive_interval_ms h3 = 0 then None else Some (keep_alive_interval_ms h3))"
  "qt_congestion (apply_transport_config d h3) = Bbr (128 * 1024)"
  by (simp_all add: apply_transport_config_def Let_def var_int_def word_gt_0)

text \<open>The settings of a port do not depend on the defaults of the library where they are written down and in range.\<close>

lemma build_quic_transport:
  assumes "build_quic_config env dflt tls names = Some c"
  shows "qc_transport c = apply_transport_config dflt (http3 tls)" "qc_alpn c = [''h3'']"
proof -
  have pem: "qc_transport q = dflt \<and> qc_alpn q = [''h3'']" if "build_quinn_config_from_pem env dflt a b z = Some q" for a b z q
    using that by (auto simp: build_quinn_config_from_pem_def split: option.splits)
  have self: "qc_transport q = dflt \<and> qc_alpn q = [''h3'']" if "build_quinn_config_self_signed env dflt n = Some q" for n q
    using that by (auto simp: build_quinn_config_self_signed_def)
  obtain q where q: "c = q\<lparr>qc_transport := apply_transport_config (qc_transport q) (http3 tls)\<rparr>"
    and "qc_transport q = dflt \<and> qc_alpn q = [''h3'']"
    using assms by (auto simp: build_quic_config_def Let_def dest!: pem self split: if_splits list.splits option.splits)
  then show "qc_transport c = apply_transport_config dflt (http3 tls)" "qc_alpn c = [''h3'']" by simp_all
qed

section \<open>The certificate of an HTTP/3 port\<close>

lemma collect_h3_seen: "(p, t, ns) \<in> set (collect_h3 seen sites) \<Longrightarrow> p \<notin> set seen"
proof (induction seen sites rule: collect_h3.induct)
  case (2 seen s ss)
  then show ?case by (auto simp: Let_def split: option.splits if_splits)
qed simp

lemma collect_h3_distinct: "distinct (map fst (collect_h3 seen sites))"
proof (induction seen sites rule: collect_h3.induct)
  case (2 seen s ss)
  have "distinct (filter (\<lambda>p. p \<notin> set seen) (rev (remdups (rev (listen_tls s)))))" by simp
  then show ?case using 2 by (auto simp: Let_def comp_def split: option.split dest: collect_h3_seen)
qed simp

lemma collect_h3_member:
  "p \<notin> set seen \<Longrightarrow> (p, t, ns) \<in> set (collect_h3 seen sites) \<longleftrightarrow>
     (case find (\<lambda>s. p \<in> set (listen_tls s) \<and> (\<exists>t. site_tls s = Some t \<and> ''h3'' \<in> set (protocols t))) sites of
        Some s \<Rightarrow> site_tls s = Some t \<and> ns = server_name s
      | None \<Rightarrow> False)"
proof (induction seen sites rule: collect_h3.induct)
  case (2 seen s ss)
  consider (skip) "\<nexists>t. site_tls s = Some t \<and> ''h3'' \<in> set (protocols t)"
    | (offers) t' where "site_tls s = Some t'" "''h3'' \<in> set (protocols t')" by blast
  then show ?case
  proof cases
    case skip
    then show ?thesis using 2 by (auto split: option.split)
  next
    case offers
    show ?thesis
    proof (cases "p \<in> set (listen_tls s)")
      case True
      then show ?thesis using offers \<open>p \<notin> set seen\<close> by (auto simp: Let_def image_iff dest: collect_h3_seen)
    next
      case False
      then show ?thesis using offers 2(2) [OF offers refl] \<open>p \<notin> set seen\<close> by (auto simp: Let_def)
    qed
  qed
qed simp

text \<open>
  Which certificate HTTP/3 shows. On every port there is at most one HTTP/3 configuration; it is the one
  of the first site, in the order of the file, that listens on this port and offers \<^verbatim>\<open>h3\<close>, whatever name a client
  asks for, with this site's transport settings.
\<close>

theorem h3_port_configuration:
  "distinct (map fst (h3_bindings env dflt sites)) \<and>
   ((port, c) \<in> set (h3_bindings env dflt sites) \<longleftrightarrow>
     (\<exists>s t. find (\<lambda>s. port \<in> set (listen_tls s) \<and> (\<exists>t. site_tls s = Some t \<and> ''h3'' \<in> set (protocols t))) sites = Some s \<and>
        site_tls s = Some t \<and> build_quic_config env dflt t (server_name s) = Some c))"
proof
  have "distinct (map fst (filter_map (\<lambda>(port, tls, names). map_option (Pair port) (f tls names)) xs))"
    if "distinct (map fst xs)" for f :: "tls_config \<Rightarrow> string list \<Rightarrow> 'z option" and xs :: "(u16 \<times> tls_config \<times> string list) list"
    using that by (induction xs) (force simp: filter_map_set split: option.splits prod.splits)+
  from this [OF collect_h3_distinct] show "distinct (map fst (h3_bindings env dflt sites))"
    by (simp add: h3_bindings_def collect_h3_ports_def)
  have "(port, c) \<in> set (h3_bindings env dflt sites) \<longleftrightarrow>
      (\<exists>t ns. (port, t, ns) \<in> set (collect_h3 [] sites) \<and> build_quic_config env dflt t ns = Some c)"
    by (force simp: h3_bindings_def collect_h3_ports_def filter_map_set)
  then show "(port, c) \<in> set (h3_bindings env dflt sites) \<longleftrightarrow>
     (\<exists>s t. find (\<lambda>s. port \<in> set (listen_tls s) \<and> (\<exists>t. site_tls s = Some t \<and> ''h3'' \<in> set (protocols t))) sites = Some s \<and>
        site_tls s = Some t \<and> build_quic_config env dflt t (server_name s) = Some c)"
    by (auto simp: collect_h3_member split: option.splits)
qed

end
