(* ===== verification/Acme.thy ===== *)
theory Acme
  imports Hot_Reload Quic_Config "HOL-Library.Signed_Division"
begin

text \<open>
  Automatic certificates (\<^verbatim>\<open>src/server/acme.rs\<close>): the order dialogue with the certificate authority, the
  tokens and records it publishes, the decision to renew, saving and installing a certificate, the round of
  the renewal loop with its retries, and renewal on request.

  The authority is a parameter: a session lists what it answers at each step. So are the parser of a
  certificate's expiry date, the file system's willingness to write, and the account handling, which is a
  sequence of library calls.
\<close>

section \<open>The order dialogue\<close>

datatype authz_status = AuthValid | AuthPending | AuthOther

record authz =
  az_status :: authz_status
  az_domain :: string
  az_challenge :: "(string \<times> string) option"
  az_ready :: bool

datatype order_status = OrderReady | OrderValid | OrderInvalid | OrderOther

text \<open>One look at the order: seconds since the first, and the state with its error, unless the call fails.\<close>

record poll =
  pl_time :: nat
  pl_state :: "(order_status \<times> bool) option"

record ca_session =
  ca_account :: bool
  ca_order :: bool
  ca_authz :: "authz option list"
  ca_polls :: "nat \<Rightarrow> poll"
  ca_poll_ready :: "order_status option"
  ca_dns_set :: "string \<Rightarrow> string \<Rightarrow> bool"
  ca_dns_delete :: "string \<Rightarrow> string \<Rightarrow> bool"
  ca_finalize :: "string option"
  ca_certificate :: "string option"

type_synonym tokens = "(string \<times> string) list"

text \<open>The authorisations, HTTP-01: publish a token and report it ready; the flag says that no step failed.\<close>

fun http01_authz :: "authz option list \<Rightarrow> tokens \<Rightarrow> string list \<Rightarrow> bool \<times> tokens \<times> string list" where
  "http01_authz [] tk cleanup = (True, tk, cleanup)"
| "http01_authz (None # azs) tk cleanup = (False, tk, cleanup)"
| "http01_authz (Some az # azs) tk cleanup =
     (case az_status az of
        AuthValid \<Rightarrow> http01_authz azs tk cleanup
      | AuthOther \<Rightarrow> (False, tk, cleanup)
      | AuthPending \<Rightarrow>
          (case az_challenge az of
             None \<Rightarrow> (False, tk, cleanup)
           | Some (token, key_auth) \<Rightarrow>
               if token = [] then http01_authz azs tk cleanup
               else (let tk' = AList.update token key_auth tk; cleanup' = cleanup @ [token]
                     in if az_ready az then http01_authz azs tk' cleanup' else (False, tk', cleanup'))))"

datatype poll_end = PollReady | PollFailed | PollBroken

fun poll_order :: "nat \<Rightarrow> nat \<Rightarrow> (nat \<Rightarrow> poll) \<Rightarrow> poll_end option" where
  "poll_order 0 i polls = None"
| "poll_order (Suc fuel) i polls =
     (case pl_state (polls i) of
        None \<Rightarrow> Some PollBroken
      | Some (status, err) \<Rightarrow>
          if err then Some PollFailed
          else (case status of
                  OrderReady \<Rightarrow> Some PollReady
                | OrderValid \<Rightarrow> Some PollReady
                | OrderInvalid \<Rightarrow> Some PollFailed
                | OrderOther \<Rightarrow>
                    if 300 < pl_time (polls i) then Some PollFailed else poll_order fuel (Suc i) polls))"

definition POLL_FUEL :: nat where "POLL_FUEL = 101"

definition finish_order :: "ca_session \<Rightarrow> (string \<times> string) option" where
  "finish_order ca =
     (case (ca_finalize ca, ca_certificate ca) of (Some key, Some cert) \<Rightarrow> Some (cert, key) | _ \<Rightarrow> None)"

definition clean_tokens :: "string list \<Rightarrow> tokens \<Rightarrow> tokens" where
  "clean_tokens cleanup tk = fold AList.delete cleanup tk"

definition request_acme_cert :: "ca_session \<Rightarrow> string list \<Rightarrow> tokens \<Rightarrow> (string \<times> string) option \<times> tokens" where
  "request_acme_cert ca domains tk =
     (if domains = [] \<or> \<not> ca_account ca \<or> \<not> ca_order ca then (None, tk)
      else (case http01_authz (ca_authz ca) tk [] of
          (False, tk', cleanup) \<Rightarrow> (None, tk')
        | (True, tk', cleanup) \<Rightarrow>
            if cleanup = [] then (None, tk')
            else (case poll_order POLL_FUEL 0 (ca_polls ca) of
                    Some PollReady \<Rightarrow> (finish_order ca, clean_tokens cleanup tk')
                  | Some PollFailed \<Rightarrow> (None, clean_tokens cleanup tk')
                  | _ \<Rightarrow> (None, tk'))))"

text \<open>DNS-01: the records are set one by one and deleted once the order has been looked at.\<close>

fun dns01_authz ::
  "ca_session \<Rightarrow> authz option list \<Rightarrow> (string \<times> string) list \<Rightarrow> (string \<times> string) list
     \<Rightarrow> bool \<times> (string \<times> string) list \<times> (string \<times> string) list" where
  "dns01_authz ca [] recs cleanup = (True, recs, cleanup)"
| "dns01_authz ca (None # azs) recs cleanup = (False, recs, cleanup)"
| "dns01_authz ca (Some az # azs) recs cleanup =
     (case az_status az of
        AuthValid \<Rightarrow> dns01_authz ca azs recs cleanup
      | AuthOther \<Rightarrow> (False, recs, cleanup)
      | AuthPending \<Rightarrow>
          (case az_challenge az of
             None \<Rightarrow> (False, recs, cleanup)
           | Some (_, txt) \<Rightarrow>
               if \<not> ca_dns_set ca (az_domain az) txt then (False, recs, cleanup)
               else (let r = (az_domain az, txt)
                     in if az_ready az then dns01_authz ca azs (r # recs) (cleanup @ [r]) else (False, r # recs, cleanup @ [r]))))"

definition clean_records :: "ca_session \<Rightarrow> (string \<times> string) list \<Rightarrow> (string \<times> string) list \<Rightarrow> (string \<times> string) list" where
  "clean_records ca cleanup recs =
     fold (\<lambda>(d, v) rs. if ca_dns_delete ca d v then removeAll (d, v) rs else rs) cleanup recs"

definition request_acme_cert_dns01 ::
  "ca_session \<Rightarrow> string list \<Rightarrow> (string \<times> string) list \<Rightarrow> (string \<times> string) option \<times> (string \<times> string) list" where
  "request_acme_cert_dns01 ca domains recs =
     (if domains = [] \<or> \<not> ca_account ca \<or> \<not> ca_order ca then (None, recs)
      else (case dns01_authz ca (ca_authz ca) recs [] of
          (False, recs', cleanup) \<Rightarrow> (None, recs')
        | (True, recs', cleanup) \<Rightarrow>
            (case ca_poll_ready ca of
               None \<Rightarrow> (None, recs')
             | Some status \<Rightarrow>
                 (if status = OrderReady then finish_order ca else None, clean_records ca cleanup recs'))))"

section \<open>Certificates on disk and in use\<close>

record 'k acme_state =
  as_files :: "string \<rightharpoonup> string"
  as_ready :: "string list"
  as_tokens :: tokens
  as_records :: "(string \<times> string) list"
  as_resolvers :: "'k resolvers"
  as_quic :: "(nat \<times> 'k quic_config) list"

record ('c, 'd, 'k) acme_env =
  ae_tls :: "('c, 'd, 'k) tls_env"
  ae_not_after :: "string \<Rightarrow> int option"
  ae_now :: int
  ae_write_ok :: "string \<Rightarrow> bool"
  ae_transport :: quic_transport
  ae_session :: "string \<Rightarrow> nat \<Rightarrow> ca_session"

definition with_files :: "('c, 'd, 'k) tls_env \<Rightarrow> (string \<rightharpoonup> string) \<Rightarrow> ('c, 'd, 'k) tls_env" where
  "with_files env files = env\<lparr>te_read := files, te_exists := (\<lambda>p. files p \<noteq> None)\<rparr>"

text \<open>\<open>ae_not_after\<close> is \<open>None\<close> when no certificate can be parsed. The division of \<^verbatim>\<open>i64\<close> truncates towards zero.\<close>

definition cert_needs_renewal :: "('c, 'd, 'k) acme_env \<Rightarrow> (string \<rightharpoonup> string) \<Rightarrow> string \<Rightarrow> u64 \<Rightarrow> bool" where
  "cert_needs_renewal env files cert_path renew_days_before =
     (case Option.bind (files cert_path) (ae_not_after env) of
        None \<Rightarrow> True
      | Some not_after \<Rightarrow> (not_after - ae_now env) sdiv 86400 < sint renew_days_before)"

definition save_cert_files ::
  "('c, 'd, 'k) acme_env \<Rightarrow> string \<Rightarrow> string \<Rightarrow> string \<times> string \<Rightarrow> (string \<rightharpoonup> string) \<Rightarrow> bool \<times> (string \<rightharpoonup> string)" where
  "save_cert_files env cert_path key_path pem files =
     (if \<not> ae_write_ok env cert_path then (False, files)
      else if \<not> ae_write_ok env key_path then (False, files(cert_path \<mapsto> fst pem))
      else (True, files(cert_path \<mapsto> fst pem, key_path \<mapsto> snd pem)))"

definition reload_acme_cert_in_resolvers ::
  "('c, 'd, 'k) acme_env \<Rightarrow> string \<Rightarrow> string \<Rightarrow> string list \<Rightarrow> 'k acme_state \<Rightarrow> 'k acme_state" where
  "reload_acme_cert_in_resolvers env cert_path key_path server_names st =
     (let tenv = with_files (ae_tls env) (as_files st);
          rs = (case load_certified_key_from_path tenv cert_path key_path of
                  Some ck \<Rightarrow> map (\<lambda>(p, r). (p, sni_upsert (te_lower tenv) server_names [ck] r)) (as_resolvers st)
                | None \<Rightarrow> as_resolvers st);
          quic = (case build_quinn_config_from_pem tenv (ae_transport env) cert_path key_path False of
                    Some q \<Rightarrow> map (\<lambda>(e, _). (e, q)) (as_quic st)
                  | None \<Rightarrow> as_quic st)
      in st\<lparr>as_resolvers := rs, as_quic := quic\<rparr>)"

section \<open>Renewal\<close>

definition usable_domains :: "tls_config \<Rightarrow> string list \<Rightarrow> string list" where
  "usable_domains tls names = filter (\<lambda>d. acme_challenge tls = ''dns01'' \<or> \<not> starts_with d ''*.'') names"

text \<open>One request, by the configured challenge; \<^verbatim>\<open>dns01\<close> without a provider fails.\<close>

definition request_once :: "ca_session \<Rightarrow> tls_config \<Rightarrow> string list \<Rightarrow> 'k acme_state \<Rightarrow> (string \<times> string) option \<times> 'k acme_state" where
  "request_once ca tls domains st =
     (if acme_challenge tls = ''dns01'' then
        (case dns_provider tls of
           None \<Rightarrow> (None, st)
         | Some _ \<Rightarrow> (case request_acme_cert_dns01 ca domains (as_records st) of (res, recs) \<Rightarrow> (res, st\<lparr>as_records := recs\<rparr>)))
      else (case request_acme_cert ca domains (as_tokens st) of (res, tk) \<Rightarrow> (res, st\<lparr>as_tokens := tk\<rparr>)))"

definition install ::
  "('c, 'd, 'k) acme_env \<Rightarrow> site_config \<Rightarrow> string \<Rightarrow> string \<Rightarrow> string \<times> string \<Rightarrow> 'k acme_state \<Rightarrow> bool \<times> 'k acme_state" where
  "install env site cert_path key_path pem st =
     (case save_cert_files env cert_path key_path pem (as_files st) of
        (False, files) \<Rightarrow> (False, st\<lparr>as_files := files\<rparr>)
      | (True, files) \<Rightarrow>
          (True, reload_acme_cert_in_resolvers env cert_path key_path (server_name site)
             (st\<lparr>as_files := files, as_ready := List.insert (site_name site) (as_ready st)\<rparr>)))"

definition BACKOFF :: "nat list" where "BACKOFF = [60, 300, 1800, 7200]"

text \<open>The retries of the loop with the seconds slept; a \<^verbatim>\<open>dns01\<close> site without a provider gives up after the first wait.\<close>

fun retry_acme ::
  "('c, 'd, 'k) acme_env \<Rightarrow> site_config \<Rightarrow> tls_config \<Rightarrow> string list \<Rightarrow> string \<Rightarrow> string \<Rightarrow> nat \<Rightarrow> nat list
     \<Rightarrow> 'k acme_state \<Rightarrow> nat \<times> 'k acme_state" where
  "retry_acme env site tls domains cert_path key_path i [] st = (0, st)"
| "retry_acme env site tls domains cert_path key_path i (w # ws) st =
     (if acme_challenge tls = ''dns01'' \<and> dns_provider tls = None then (w, st)
      else (case request_once (ae_session env (site_name site) i) tls domains st of
              (Some pem, st') \<Rightarrow> (w, snd (install env site cert_path key_path pem st'))
            | (None, st') \<Rightarrow>
                (case retry_acme env site tls domains cert_path key_path (Suc i) ws st' of (t, st'') \<Rightarrow> (w + t, st''))))"

text \<open>The body of the loop for one site: the seconds it sleeps and the new state.\<close>

definition renew_site :: "('c, 'd, 'k) acme_env \<Rightarrow> site_config \<Rightarrow> 'k acme_state \<Rightarrow> nat \<times> 'k acme_state" where
  "renew_site env site st =
     (case site_tls site of
        None \<Rightarrow> (0, st)
      | Some tls \<Rightarrow>
          if \<not> acme tls then (0, st)
          else (let domains = usable_domains tls (server_name site);
                    primary = primary_domain domains;
                    cert_path = acme_cert_path (ae_tls env) primary; key_path = acme_key_path (ae_tls env) primary
                in if domains = [] then (0, st)
                   else if as_files st cert_path \<noteq> None \<and>
                     \<not> cert_needs_renewal env (as_files st) cert_path (acme_renew_days_before tls)
                   then (0, st\<lparr>as_ready := List.insert (site_name site) (as_ready st)\<rparr>)
                   else (case request_once (ae_session env (site_name site) 0) tls domains st of
                           (Some pem, st') \<Rightarrow> (0, snd (install env site cert_path key_path pem st'))
                         | (None, st') \<Rightarrow> retry_acme env site tls domains cert_path key_path 1 BACKOFF st')))"

definition acme_round :: "('c, 'd, 'k) acme_env \<Rightarrow> site_config list \<Rightarrow> 'k acme_state \<Rightarrow> nat \<times> 'k acme_state" where
  "acme_round env sites st =
     fold (\<lambda>s (t, st). case renew_site env s st of (t', st') \<Rightarrow> (t + t', st')) sites (0, st)"

text \<open>Renewal on request: (triggered, skipped, errors).\<close>

definition renew_now_site ::
  "('c, 'd, 'k) acme_env \<Rightarrow> string option \<Rightarrow> site_config \<Rightarrow> (nat \<times> nat \<times> nat) \<times> 'k acme_state \<Rightarrow> (nat \<times> nat \<times> nat) \<times> 'k acme_state" where
  "renew_now_site env site_filter site acc =
     (case acc of ((triggered, skipped, errors), st) \<Rightarrow>
        if site_filter \<noteq> None \<and> site_filter \<noteq> Some (site_name site) then acc
        else (case site_tls site of
           None \<Rightarrow> ((triggered, skipped + 1, errors), st)
         | Some tls \<Rightarrow>
             if \<not> acme tls then ((triggered, skipped + 1, errors), st)
             else if tls_acme_email tls = None then ((triggered, skipped, errors + 1), st)
             else (let domains = usable_domains tls (server_name site);
                       primary = primary_domain domains;
                       cert_path = acme_cert_path (ae_tls env) primary; key_path = acme_key_path (ae_tls env) primary
                   in if domains = [] then ((triggered, skipped, errors + 1), st)
                      else (case request_once (ae_session env (site_name site) 0) tls domains st of
                              (None, st') \<Rightarrow> ((triggered, skipped, errors + 1), st')
                            | (Some pem, st') \<Rightarrow>
                                (case save_cert_files env cert_path key_path pem (as_files st') of
                                   (False, files) \<Rightarrow> ((triggered, skipped, errors + 1), st'\<lparr>as_files := files\<rparr>)
                                 | (True, files) \<Rightarrow>
                                     ((triggered + 1, skipped, errors),
                                      reload_acme_cert_in_resolvers env cert_path key_path (server_name site)
                                        (st'\<lparr>as_files := files\<rparr>)))))))"

definition acme_renew_now ::
  "('c, 'd, 'k) acme_env \<Rightarrow> site_config list \<Rightarrow> string option \<Rightarrow> 'k acme_state \<Rightarrow> (nat \<times> nat \<times> nat) \<times> 'k acme_state" where
  "acme_renew_now env sites site_filter st = fold (renew_now_site env site_filter) sites ((0, 0, 0), st)"

section \<open>The dialogue ends and cleans up\<close>

lemma poll_order_ends:
  "fuel + i = POLL_FUEL \<Longrightarrow> 0 < fuel \<Longrightarrow> (\<And>j. 3 * (j + 1) \<le> pl_time (polls j)) \<Longrightarrow> poll_order fuel i polls \<noteq> None"
proof (induction fuel arbitrary: i)
  case (Suc fuel)
  have "poll_order fuel (Suc i) polls \<noteq> None" if "pl_time (polls i) \<le> 300"
  proof (rule Suc.IH)
    show "0 < fuel" using Suc.prems(1) Suc.prems(3) [of i] that by (simp add: POLL_FUEL_def)
  qed (use Suc.prems in simp_all)
  then show ?case by (auto split: option.splits order_status.splits)
qed simp



lemma http01_authz_frame:
  "http01_authz azs tk cleanup = (ok, tk', cleanup') \<Longrightarrow>
     set cleanup \<subseteq> set cleanup' \<and> (\<forall>x. x \<notin> set cleanup' \<longrightarrow> map_of tk' x = map_of tk x)"
proof (induction azs tk cleanup rule: http01_authz.induct)
  case (3 az azs tk cleanup)
  then show ?case
    by (auto simp: Let_def update_conv' split: authz_status.splits option.splits prod.splits if_splits)
qed auto

lemma http01_authz_tokens:
  "http01_authz azs tk cleanup = (True, tk', cleanup') \<Longrightarrow> Some az \<in> set azs \<Longrightarrow> az_status az = AuthPending \<Longrightarrow>
     az_challenge az = Some (token, ka) \<Longrightarrow> token \<noteq> [] \<Longrightarrow> token \<in> set cleanup'"
proof (induction azs tk cleanup rule: http01_authz.induct)
  case (3 a azs tk cleanup)
  show ?case
  proof (cases "a = az")
    case True
    then have "http01_authz azs (AList.update token ka tk) (cleanup @ [token]) = (True, tk', cleanup')"
      using "3.prems" by (auto simp: Let_def split: if_splits)
    from http01_authz_frame [OF this] show ?thesis by auto
  next
    case False
    then show ?thesis using "3.prems" "3.IH"
      by (auto simp: Let_def split: authz_status.splits option.splits prod.splits if_splits)
  qed
qed auto

lemma clean_tokens_lookup: "map_of (clean_tokens c tk) x = (if x \<in> set c then None else map_of tk x)"
  by (induction c arbitrary: tk) (auto simp: clean_tokens_def delete_conv')

text \<open>
  An order that yields a certificate leaves no token of its own behind, and never touches another order's.
\<close>

lemma tokens_cleaned:
  assumes "request_acme_cert ca domains tk = (Some pem, tk')"
  shows "\<exists>own. (\<forall>x. map_of tk' x = (if x \<in> set own then None else map_of tk x)) \<and>
    (\<forall>az token ka. Some az \<in> set (ca_authz ca) \<and> az_status az = AuthPending \<and> az_challenge az = Some (token, ka) \<and> token \<noteq> []
       \<longrightarrow> token \<in> set own)"
proof -
  obtain tk1 own where a: "http01_authz (ca_authz ca) tk [] = (True, tk1, own)" and tk': "tk' = clean_tokens own tk1"
    using assms by (auto simp: request_acme_cert_def split: if_splits prod.splits bool.splits option.splits poll_end.splits)
  have "\<forall>x. map_of tk' x = (if x \<in> set own then None else map_of tk x)"
    using http01_authz_frame [OF a] by (auto simp: tk' clean_tokens_lookup)
  with http01_authz_tokens [OF a] show ?thesis by blast
qed

text \<open>When reporting a challenge fails, the order is given up and its token stays published.\<close>

lemma token_left_behind:
  "request_acme_cert \<lparr>ca_account = True, ca_order = True,
       ca_authz = [Some \<lparr>az_status = AuthPending, az_domain = ''a.org'', az_challenge = Some (''tok'', ''auth''), az_ready = False\<rparr>],
       ca_polls = polls, ca_poll_ready = None, ca_dns_set = ds, ca_dns_delete = dd, ca_finalize = None, ca_certificate = None\<rparr>
     [''a.org''] [] = (None, [(''tok'', ''auth'')])"
  by (simp add: request_acme_cert_def)

text \<open>An order whose authorisations are all still valid publishes no token and is given up for that reason.\<close>

lemma valid_authorisations_refused:
  assumes "\<forall>a\<in>set (ca_authz ca). \<exists>az. a = Some az \<and> az_status az = AuthValid"
  shows "request_acme_cert ca domains tk = (None, tk)"
proof -
  have "http01_authz azs tk [] = (True, tk, [])" if "\<forall>a\<in>set azs. \<exists>az. a = Some az \<and> az_status az = AuthValid" for azs
    using that by (induction azs) auto
  from this [OF assms] show ?thesis by (simp add: request_acme_cert_def)
qed

section \<open>A renewed certificate is used\<close>

lemma find_filter_same: "find P (filter P xs) = find P xs"
  by (induction xs) auto

lemma primary_domain_usable:
  "usable_domains t names \<noteq> [] \<Longrightarrow> primary_domain (usable_domains t names) = primary_domain names"
proof (cases "acme_challenge t = ''dns01''")
  case False
  assume ne: "usable_domains t names \<noteq> []"
  with False have eq: "usable_domains t names = filter (\<lambda>d. \<not> starts_with d ''*.'') names" by (simp add: usable_domains_def)
  have "find (\<lambda>d. \<not> starts_with d ''*.'') names \<noteq> None" using ne by (auto simp: eq find_None_all filter_empty_conv)
  then show ?thesis by (auto simp: primary_domain_def eq find_filter_same)
qed (simp add: usable_domains_def)

lemma paths_differ: "acme_cert_path env d \<noteq> acme_key_path env d'"
proof
  assume "acme_cert_path env d = acme_key_path env d'"
  then have "last (acme_cert_path env d) = last (acme_key_path env d')" by simp
  then show False by (simp add: acme_cert_path_def acme_key_path_def path_join_def split: if_splits)
qed

lemma load_saved:
  assumes "files c = Some cert" "files k = Some key" "te_certs env cert = Some cs" "cs \<noteq> []"
    "load_private_key (te_items env key) = Some pk" "te_certified env cs pk = Some ck"
  shows "load_certified_key_from_path (with_files env files) c k = Some ck"
  using assms by (simp add: load_certified_key_from_path_def with_files_def)

lemma with_files_sel [simp]:
  "te_lower (with_files env files) = te_lower env" "acme_cert_path (with_files env files) d = acme_cert_path env d"
  "acme_key_path (with_files env files) d = acme_key_path env d" "te_exists (with_files env files) p = (files p \<noteq> None)"
  by (simp_all add: with_files_def acme_cert_path_def acme_key_path_def)


section \<open>A renewal that fails\<close>

definition same_service :: "'k acme_state \<Rightarrow> 'k acme_state \<Rightarrow> bool" where
  "same_service a b \<longleftrightarrow> as_files a = as_files b \<and> as_ready a = as_ready b \<and> as_resolvers a = as_resolvers b \<and> as_quic a = as_quic b"

lemma same_service_trans: "same_service a b \<Longrightarrow> same_service b c \<Longrightarrow> same_service a c"
  by (simp add: same_service_def)

lemma request_once_same: "same_service (snd (request_once ca t ds st)) st"
  by (auto simp: request_once_def same_service_def split: option.splits prod.splits)

lemma retry_fails:
  fixes st :: "'k acme_state"
  assumes "\<And>j (x :: 'k acme_state). j < i + length ws \<Longrightarrow> fst (request_once (ae_session env (site_name s) j) t ds x) = None"
    and "acme_challenge t = ''dns01'' \<longrightarrow> dns_provider t \<noteq> None"
  shows "fst (retry_acme env s t ds c k i ws st) = sum_list ws \<and> same_service (snd (retry_acme env s t ds c k i ws st)) st"
  using assms(1)
proof (induction ws arbitrary: i st)
  case Nil
  then show ?case by (simp add: same_service_def)
next
  case (Cons w ws)
  obtain st1 where r: "request_once (ae_session env (site_name s) i) t ds st = (None, st1)"
    using Cons.prems [of i st] by (cases "request_once (ae_session env (site_name s) i) t ds st") auto
  have "same_service st1 st" using request_once_same [of "ae_session env (site_name s) i" t ds st] r by simp
  moreover have "fst (retry_acme env s t ds c k (Suc i) ws st1) = sum_list ws \<and>
      same_service (snd (retry_acme env s t ds c k (Suc i) ws st1)) st1"
    by (rule Cons.IH) (use Cons.prems in simp)
  ultimately show ?case using r assms(2) by (auto simp: split_def dest: same_service_trans)
qed


section \<open>Oddities\<close>

text \<open>
  Clients without a server name keep getting the certificate that came first, for example the self-signed
  placeholder: an update never replaces a fallback that is not empty.
\<close>

lemma fallback_not_renewed: "sni_fallback r \<noteq> [] \<Longrightarrow> sni_fallback (sni_upsert lower names ks r) = sni_fallback r"
  by (simp add: sni_upsert_def)

text \<open>A certificate whose key cannot be written is left on disk beside the old key.\<close>

lemma half_saved_pair:
  "ae_write_ok env c \<Longrightarrow> \<not> ae_write_ok env k \<Longrightarrow> save_cert_files env c k (cert, key) files = (False, files(c \<mapsto> cert))"
  by (simp add: save_cert_files_def)

text \<open>A certificate without its key counts as ready, although the server can only show a placeholder.\<close>

lemma ready_without_key:
  assumes "site_tls s = Some t" "acme t" "usable_domains t (server_name s) \<noteq> []"
    and "c = acme_cert_path (ae_tls env) (primary_domain (server_name s))"
    and "as_files st c = Some cert" "\<not> cert_needs_renewal env (as_files st) c (acme_renew_days_before t)"
    and "as_files st (acme_key_path (ae_tls env) (primary_domain (server_name s))) = None"
    and "te_self_signed (ae_tls env) (primary_domain (server_name s)) = Some placeholder" "primary_domain (server_name s) \<noteq> []"
  shows "site_name s \<in> set (as_ready (snd (renew_site env s st))) \<and>
    build_certified_keys (with_files (ae_tls env) (as_files (snd (renew_site env s st)))) t (server_name s) = [placeholder]"
  using assms
  by (simp add: renew_site_def primary_domain_usable Let_def build_certified_keys_def generate_self_signed_key_def with_files_def
      acme_cert_path_def acme_key_path_def)

text \<open>
  After a renewal every HTTP/3 port shows the renewed certificate, whatever site it belongs to, and runs with
  the library's transport settings and without early data instead of those configured.
\<close>

lemma quic_settings_lost_on_renewal:
  assumes "build_quinn_config_from_pem (with_files (ae_tls env) (as_files st)) (ae_transport env) cert_path key_path False = Some q"
    and "(e, c) \<in> set (as_quic (reload_acme_cert_in_resolvers env cert_path key_path names st))"
  shows "c = q" "qc_transport c = ae_transport env" "qc_early_data c = 0"
proof -
  show c: "c = q" using assms by (auto simp: reload_acme_cert_in_resolvers_def Let_def)
  show "qc_transport c = ae_transport env" "qc_early_data c = 0"
    using assms(1) unfolding c by (auto simp: build_quinn_config_from_pem_def split: option.splits)
qed

section \<open>Witnesses\<close>

definition demo_quic_transport :: quic_transport where
  "demo_quic_transport = \<lparr>qt_bidi_streams = 100, qt_uni_streams = 100, qt_idle_timeout = Some 30000, qt_keep_alive = None,
     qt_receive_window = 0, qt_stream_receive_window = 1250000, qt_send_window = 10000000, qt_mtu_discovery = True,
     qt_initial_rtt = 333, qt_max_ack_delay = None, qt_congestion = DefaultController\<rparr>"

definition demo_ca :: "bool \<Rightarrow> ca_session" where
  "demo_ca ok = \<lparr>ca_account = ok, ca_order = True,
     ca_authz = [Some \<lparr>az_status = AuthPending, az_domain = ''a.org'', az_challenge = Some (''tok'', ''auth''), az_ready = True\<rparr>],
     ca_polls = (\<lambda>i. \<lparr>pl_time = 3 * i + 3, pl_state = Some (if i = 0 then OrderOther else OrderReady, False)\<rparr>),
     ca_poll_ready = None, ca_dns_set = (\<lambda>_ _. True), ca_dns_delete = (\<lambda>_ _. True),
     ca_finalize = Some ''KEY'', ca_certificate = Some ''CERT''\<rparr>"

definition demo_acme_env :: "bool \<Rightarrow> (string, string, string) acme_env" where
  "demo_acme_env ok = \<lparr>ae_tls = demo_tls_env, ae_not_after = (\<lambda>_. None), ae_now = 0, ae_write_ok = (\<lambda>_. True),
     ae_transport = demo_quic_transport, ae_session = (\<lambda>_ _. demo_ca ok)\<rparr>"

definition demo_acme_site :: site_config where
  "demo_acme_site = (demo_tls_site ''a'' [''*.a.org'', ''a.org''] [])\<lparr>site_tls := Some (serde_tls_config\<lparr>acme := True\<rparr>)\<rparr>"

definition demo_acme_state :: "string acme_state" where
  "demo_acme_state = \<lparr>as_files = Map.empty, as_ready = [], as_tokens = [], as_records = [], as_resolvers = [(443, sni_default)], as_quic = []\<rparr>"

lemma demo_acme_site_simps [simp]:
  "site_name demo_acme_site = ''a''" "server_name demo_acme_site = [''*.a.org'', ''a.org'']"
  "site_tls demo_acme_site = Some (serde_tls_config\<lparr>acme := True\<rparr>)"
  by (simp_all add: demo_acme_site_def)

lemma demo_usable [simp]: "usable_domains (serde_tls_config\<lparr>acme := True\<rparr>) [''*.a.org'', ''a.org''] = [''a.org'']"
  by (simp add: usable_domains_def serde_tls_config_def)

lemma demo_request:
  "fst (request_once (demo_ca ok) (serde_tls_config\<lparr>acme := True\<rparr>) [''a.org''] st) = (if ok then Some (''CERT'', ''KEY'') else None)"
  by (auto simp: request_once_def serde_tls_config_def request_acme_cert_def demo_ca_def POLL_FUEL_def numeral_eq_Suc finish_order_def
      split: prod.splits)



end
