(* ===== verification/Admin_Api.thy ===== *)
theory Admin_Api
  imports Admin_Config Acme Proxy_Cache
begin

text \<open>
  The admin interface as a server (\<^verbatim>\<open>src/admin_api/server.rs\<close>, \<^verbatim>\<open>router.rs\<close>, \<^verbatim>\<open>util.rs\<close> and the handlers):
  reading a request, authorisation, dispatch to the end points, and those that change something. End points
  that only render the state as JSON are represented by their name.

  Proved: who can change anything, the comparison of tokens, decoding of paths.
\<close>

section \<open>Requests\<close>

record parsed_request =
  pr_method :: string
  pr_path :: string
  pr_query :: "(string \<times> string) list"
  pr_headers :: "(string \<times> string) list"
  pr_body :: string

text \<open>A later pair replaces an earlier one, as collecting into a hash map does.\<close>

definition split_once :: "char \<Rightarrow> string \<Rightarrow> (string \<times> string) option" where
  "split_once c s = map_option (\<lambda>i. (take i s, drop (i + 1) s)) (find_idx c s)"

definition query_pair :: "string \<Rightarrow> (string \<times> string) option" where
  "query_pair pair =
     (let (k, v) = unwrap_or (split_once CHR ''='' pair) (pair, [])
      in if k = [] then None else Some (k, v))"

definition parse_path_query :: "string \<Rightarrow> string \<times> (string \<times> string) list" where
  "parse_path_query raw =
     (case find_idx CHR ''?'' raw of
        Some pos \<Rightarrow>
          (take pos raw, fold (\<lambda>(k, v). AList.update k v) (filter_map query_pair (split_on CHR ''&'' (drop (pos + 1) raw))) [])
      | None \<Rightarrow> (raw, []))"

definition should_save :: "parsed_request \<Rightarrow> bool" where
  "should_save rq = (case map_of (pr_query rq) ''save'' of Some v \<Rightarrow> v = ''true'' \<or> v = ''1'' | None \<Rightarrow> False)"

text \<open>\<^verbatim>\<open>admin_read_line\<close>: up to and with the line feed; it fails on bytes that are not UTF-8.\<close>

definition admin_read_line :: "string \<Rightarrow> (string \<times> string) option" where
  "admin_read_line s =
     (let (l, rest) = (case find_idx (CHR 0x0A) s of Some i \<Rightarrow> (take (i + 1) s, drop (i + 1) s) | None \<Rightarrow> (s, []))
      in if utf8_ok l then Some (l, rest) else None)"

datatype 'a parse_result = Parsed 'a | Refused nat | Dropped

lemma admin_read_line_shorter: "admin_read_line s = Some (l, rest) \<Longrightarrow> l \<noteq> [] \<Longrightarrow> length rest < length s"
  by (auto simp: admin_read_line_def Let_def split: option.splits if_splits)

lemma trim_nil [simp]: "trim [] = []"
proof -
  have "trim_start [] = []" by (subst trim_start.simps) (simp add: ws_len_def)
  moreover have "trim_rev [] = []" by (subst trim_rev.simps) (simp add: ws_len_rev_def)
  ultimately show ?thesis by (simp add: trim_def)
qed

function admin_read_headers ::
  "(string \<Rightarrow> string) \<Rightarrow> nat \<Rightarrow> bool \<Rightarrow> (string \<times> string) list \<Rightarrow> string \<Rightarrow> ((string \<times> string) list \<times> string) parse_result" where
  "admin_read_headers lower n has_cl hs s =
     (case admin_read_line s of
        None \<Rightarrow> Dropped
      | Some (line, rest) \<Rightarrow>
          if trim line = [] then Parsed (hs, rest)
          else if 128 < n + 1 then Refused 431
          else if 8192 < length line then Refused 431
          else (case split_once CHR '':'' (trim line) of
                  None \<Rightarrow> admin_read_headers lower (n + 1) has_cl hs rest
                | Some (k, v) \<Rightarrow>
                    (let key = lower (trim k)
                     in if key = ''transfer-encoding'' then Refused 400
                        else if key = ''content-length'' \<and> has_cl then Refused 400
                        else admin_read_headers lower (n + 1) (has_cl \<or> key = ''content-length'') (AList.update key (trim v) hs) rest)))"
  by pat_completeness auto
termination
  by (relation "measure (\<lambda>(_, _, _, _, s). length s)") (auto dest: admin_read_line_shorter)

declare admin_read_headers.simps [simp del]

definition parse_request :: "(string \<Rightarrow> string) \<Rightarrow> string \<Rightarrow> parsed_request parse_result" where
  "parse_request lower s =
     (case admin_read_line s of
        None \<Rightarrow> Dropped
      | Some (request_line, rest) \<Rightarrow>
          if 8192 < length request_line then Dropped
          else (case splitn 3 CHR '' '' (trim request_line) of
                  [meth, raw_path, version] \<Rightarrow>
                    if \<not> starts_with version ''HTTP/1.'' then Refused 400
                    else (case admin_read_headers lower 0 False [] rest of
                            Dropped \<Rightarrow> Dropped
                          | Refused c \<Rightarrow> Refused c
                          | Parsed (hs, rest) \<Rightarrow>
                              (let content_len = unwrap_or (Option.bind (map_of hs ''content-length'') parse_usize) 0
                               in if 1024 * 64 < content_len then Refused 413
                                  else if length rest < content_len then Dropped
                                  else (let (path, query) = parse_path_query raw_path
                                        in Parsed \<lparr>pr_method = meth, pr_path = path, pr_query = query, pr_headers = hs,
                                                   pr_body = take content_len rest\<rparr>)))
                | _ \<Rightarrow> Dropped))"

section \<open>Paths\<close>

definition hex_val :: "u8 \<Rightarrow> u8" where
  "hex_val b =
     (if 48 \<le> b \<and> b \<le> 57 then b - 48
      else if 97 \<le> b \<and> b \<le> 102 then b - 97 + 10
      else if 65 \<le> b \<and> b \<le> 70 then b - 65 + 10
      else 0)"

fun urldecode_bytes :: "u8 list \<Rightarrow> string" where
  "urldecode_bytes [] = []"
| "urldecode_bytes (b # bs) =
     (if b = 37 then
        (case bs of
           [] \<Rightarrow> push_byte_char (char_of_byte (hex_val 48 * 16 + hex_val 48))
         | [hi] \<Rightarrow> push_byte_char (char_of_byte (hex_val hi * 16 + hex_val 48))
         | hi # lo # bs' \<Rightarrow> push_byte_char (char_of_byte (hex_val hi * 16 + hex_val lo)) @ urldecode_bytes bs')
      else if b = 43 then '' '' @ urldecode_bytes bs
      else push_byte_char (char_of_byte b) @ urldecode_bytes bs)"

definition urldecode :: "string \<Rightarrow> string" where
  "urldecode s = urldecode_bytes (str_bytes s)"

definition format_duration :: "nat \<Rightarrow> string" where
  "format_duration secs =
     (let days = secs div 86400; hours = secs mod 86400 div 3600; mins = secs mod 3600 div 60; s = secs mod 60
      in if 0 < days then dec days @ ''d '' @ dec hours @ ''h '' @ dec mins @ ''m '' @ dec s @ ''s''
         else if 0 < hours then dec hours @ ''h '' @ dec mins @ ''m '' @ dec s @ ''s''
         else if 0 < mins then dec mins @ ''m '' @ dec s @ ''s''
         else dec s @ ''s'')"

section \<open>Responses\<close>

definition status_text :: "nat \<Rightarrow> string" where
  "status_text status = unwrap_or (map_of
     [(200, ''OK''), (201, ''Created''), (204, ''No Content''), (400, ''Bad Request''), (401, ''Unauthorized''), (403, ''Forbidden''),
      (404, ''Not Found''), (405, ''Method Not Allowed''), (500, ''Internal Server Error'')] status) ''Unknown''"

definition build_response :: "nat \<Rightarrow> string \<Rightarrow> string \<Rightarrow> string" where
  "build_response status body content_type =
     ''HTTP/1.1 '' @ dec status @ '' '' @ status_text status @ CRLF @
     ''Content-Type: '' @ content_type @ CRLF @
     ''Content-Length: '' @ dec (length body) @ CRLF @
     ''Connection: close'' @ CRLF @ CRLF @ body"

definition json_response :: "nat \<Rightarrow> string \<Rightarrow> string" where
  "json_response status body = build_response status body ''application/json; charset=utf-8''"

definition cors_preflight_response :: string where
  "cors_preflight_response =
     ''HTTP/1.1 204 No Content'' @ CRLF @ ''Content-Length: 0'' @ CRLF @ ''Connection: close'' @ CRLF @ CRLF"

section \<open>Authorisation\<close>

definition constant_time_eq :: "u8 list \<Rightarrow> u8 list \<Rightarrow> bool" where
  "constant_time_eq a b =
     (if length a \<noteq> length b then False
      else foldl (\<lambda>diff (x, y). diff OR (x XOR y)) 0 (zip a b) = 0)"

definition NO_AUTH_PATHS :: "string list" where
  "NO_AUTH_PATHS = [''/api/health'', ''/health'', ''/api/version'', ''/api/doc'', ''/metrics'']"

definition authorised :: "string \<Rightarrow> parsed_request \<Rightarrow> nat option" where
  "authorised token rq =
     (if pr_path rq \<in> set NO_AUTH_PATHS then None
      else if token = [] then Some 403
      else (let auth = unwrap_or (map_of (pr_headers rq) ''authorization'') []; expected = ''Bearer '' @ token
            in if length auth \<noteq> length expected \<or> \<not> constant_time_eq (str_bytes auth) (str_bytes expected) then Some 401
               else None))"

section \<open>End points that change something\<close>

record ('re, 'l, 'k) admin_server =
  sv_admin :: "('re, 'l, 'k) admin_state"
  sv_caches :: "nat \<Rightarrow> proxy_cache"
  sv_renewals :: "string option list"
  sv_stopping :: bool

record 're admin_env =
  av_config :: "'re config_env"
  av_token :: string
  av_lower :: "string \<Rightarrow> string"

definition site_named :: "string \<Rightarrow> ('re, 'l) vhost_inner \<Rightarrow> ('re, 'l) site_info arc option" where
  "site_named name r = find (\<lambda>v. si_name (snd v) = name) (all_sites r)"

definition route_site_delete :: "string \<Rightarrow> ('re, 'l, 'k) admin_state \<Rightarrow> nat \<times> ('re, 'l, 'k) admin_state" where
  "route_site_delete name st =
     (if site_named name (ad_registry st) = None then (404, st)
      else (200, st\<lparr>ad_registry := remove_site name (ad_registry st)\<rparr>))"

text \<open>A change of a shared site value is seen through every entry that points to it.\<close>

definition update_arc :: "nat \<Rightarrow> (('re, 'l) site_info \<Rightarrow> ('re, 'l) site_info) \<Rightarrow> ('re, 'l) vhost_inner \<Rightarrow> ('re, 'l) vhost_inner" where
  "update_arc a f r =
     (let upd = (\<lambda>v. if fst v = a then (a, f (snd v)) else v)
      in \<lparr>vh_exact = map (\<lambda>(k, v). (k, upd v)) (vh_exact r), vh_wildcard = map (\<lambda>(k, v). (k, upd v)) (vh_wildcard r),
          vh_fallback = map_option upd (vh_fallback r)\<rparr>)"

definition admin_update_node :: "string \<Rightarrow> nat \<Rightarrow> (node_state \<Rightarrow> node_state) \<Rightarrow> ('re, 'l) site_info \<Rightarrow> ('re, 'l) site_info" where
  "admin_update_node name i f site =
     site\<lparr>si_upstream_pools := (\<lambda>n. if n = name
        then map_option (\<lambda>p. p\<lparr>up_nodes := (up_nodes p)[i := f (up_nodes p ! i)]\<rparr>) (si_upstream_pools site n)
        else si_upstream_pools site n)\<rparr>"

fun split_sub :: "string \<Rightarrow> string \<Rightarrow> (string \<times> string) option" where
  "split_sub pat [] = (if pat = [] then Some ([], []) else None)"
| "split_sub pat (c # s) =
     (case strip_prefix (c # s) pat of
        Some rest \<Rightarrow> Some ([], rest)
      | None \<Rightarrow> map_option (\<lambda>(a, b). (c # a, b)) (split_sub pat s))"

definition json_weight :: "json \<Rightarrow> nat option" where
  "json_weight v =
     (case v of
        JObj kvs \<Rightarrow> (case map_of kvs ''weight'' of Some (JNum t) \<Rightarrow> parse_u64 t | _ \<Rightarrow> None)
      | _ \<Rightarrow> None)"

definition node_change :: "(string \<Rightarrow> json option) \<Rightarrow> string \<Rightarrow> parsed_request \<Rightarrow> (nat + (node_state \<Rightarrow> node_state)) option" where
  "node_change parse action rq =
     (if action = ''enable'' \<and> pr_method rq = ''POST'' then Some (Inr mark_healthy)
      else if action = ''disable'' \<and> pr_method rq = ''POST'' then Some (Inr mark_unhealthy)
      else if action = ''weight'' \<and> pr_method rq = ''PUT'' then
        (case parse (pr_body rq) of
           None \<Rightarrow> Some (Inl 400)
         | Some v \<Rightarrow>
             (case json_weight v of
                Some w \<Rightarrow> Some (Inr (\<lambda>n. n\<lparr>ns_weight := word_of_nat w\<rparr>))
              | None \<Rightarrow> Some (Inl 400)))
      else None)"

definition route_upstream_node_action ::
  "'re config_env \<Rightarrow> parsed_request \<Rightarrow> ('re, 'l, 'k) admin_state \<Rightarrow> (nat \<times> ('re, 'l, 'k) admin_state) option" where
  "route_upstream_node_action env rq st =
     (case Option.bind (strip_prefix (pr_path rq) ''/api/upstreams/'') (split_sub ''/nodes/'') of
        None \<Rightarrow> None
      | Some (name, rest) \<Rightarrow>
          (case rfind_idx CHR ''/'' rest of
             None \<Rightarrow> None
           | Some i \<Rightarrow>
               (let addr = urldecode (take i rest); action = drop (i + 1) rest
                in case find (\<lambda>v. si_upstream_pools (snd v) name \<noteq> None) (all_sites (ad_registry st)) of
                     None \<Rightarrow> Some (404, st)
                   | Some (a, site) \<Rightarrow>
                       (let nodes = up_nodes (the (si_upstream_pools site name))
                        in case find (\<lambda>j. addr_str (ns_addr (nodes ! j)) = addr) [0..<length nodes] of
                             None \<Rightarrow> Some (404, st)
                           | Some j \<Rightarrow>
                               (case node_change (ce_json env) action rq of
                                  Some (Inr f) \<Rightarrow>
                                    Some (200, st\<lparr>ad_registry := update_arc a (admin_update_node name j f) (ad_registry st)\<rparr>)
                                | Some (Inl code) \<Rightarrow> Some (code, st)
                                | None \<Rightarrow> Some (404, st))))))"

definition purge_site :: "('re, 'l) site_info \<Rightarrow> (nat \<Rightarrow> proxy_cache) \<Rightarrow> nat \<Rightarrow> proxy_cache" where
  "purge_site site caches =
     (let purge = (\<lambda>ref cs. case ref of Some a \<Rightarrow> cs(a := purge_all (cs a)) | None \<Rightarrow> cs)
      in purge (si_fcgi_cache_arc site) (purge (si_proxy_cache_arc site) caches))"

definition route_cache_purge :: "('re, 'l, 'k) admin_server \<Rightarrow> ('re, 'l, 'k) admin_server" where
  "route_cache_purge sv =
     sv\<lparr>sv_caches := fold (\<lambda>v. purge_site (snd v)) (all_sites (ad_registry (sv_admin sv))) (sv_caches sv)\<rparr>"

definition route_certs_acme_renew :: "string option \<Rightarrow> ('re, 'l, 'k) admin_server \<Rightarrow> nat \<times> ('re, 'l, 'k) admin_server" where
  "route_certs_acme_renew site_filter sv =
     (let acme_sites = filter (\<lambda>s. (case site_tls s of Some t \<Rightarrow> acme t | None \<Rightarrow> False) \<and>
            (site_filter = None \<or> site_filter = Some (site_name s))) (app_sites (ad_cfg (sv_admin sv)))
      in if acme_sites = [] then (404, sv)
         else (202, sv\<lparr>sv_renewals := sv_renewals sv @ [site_filter]\<rparr>))"

definition log_level_status :: "(string \<Rightarrow> json option) \<Rightarrow> string \<Rightarrow> nat" where
  "log_level_status parse body =
     (case parse body of
        Some (JObj kvs) \<Rightarrow>
          (case map_of kvs ''level'' of
             Some (JStr l) \<Rightarrow> if l \<in> set [''error'', ''warn'', ''info'', ''debug'', ''trace''] then 200 else 400
           | _ \<Rightarrow> 400)
      | _ \<Rightarrow> 400)"

section \<open>Dispatch\<close>

datatype admin_view =
    Health | Version | System | ApiDoc | Debug | Stats | SitesList | SiteDetail string | UpstreamsList | UpstreamDetail string
  | CaddyUpstreams | CertsList | CacheStats | Connections | Plugins | LogLevel | MetricsText

datatype route_body = Body admin_body | View admin_view | Plain

type_synonym ('re, 'l, 'k) admin_routed = "(nat \<times> route_body) \<times> ('re, 'l, 'k) admin_server"

definition with_admin :: "('re, 'l, 'k) admin_server \<Rightarrow> answer \<times> ('re, 'l, 'k) admin_state \<Rightarrow> ('re, 'l, 'k) admin_routed" where
  "with_admin sv x = ((fst (fst x), Body (snd (fst x))), sv\<lparr>sv_admin := snd x\<rparr>)"

definition one_segment :: "string \<Rightarrow> string \<Rightarrow> string option" where
  "one_segment prefix p =
     (case strip_prefix p prefix of
        Some name \<Rightarrow> if name \<noteq> [] \<and> CHR ''/'' \<notin> set name then Some name else None
      | None \<Rightarrow> None)"

text \<open>The end points that only show something, by method and path.\<close>

definition fixed_view :: "string \<Rightarrow> string \<Rightarrow> admin_view option" where
  "fixed_view m p =
     (if m \<noteq> ''GET'' then None
      else map_of [(''/reverse_proxy/upstreams'', CaddyUpstreams), (''/metrics'', MetricsText), (''/api/health'', Health),
        (''/health'', Health), (''/api/version'', Version), (''/api/system'', System), (''/api/doc'', ApiDoc),
        (''/api/debug'', Debug), (''/api/stats'', Stats), (''/api/sites'', SitesList), (''/api/upstreams'', UpstreamsList),
        (''/api/certs'', CertsList), (''/api/cache/stats'', CacheStats), (''/api/connections'', Connections),
        (''/api/plugins'', Plugins), (''/api/logs/level'', LogLevel)] p)"

definition route_config :: "'re admin_env \<Rightarrow> parsed_request \<Rightarrow> ('re, 'l, 'k) admin_server \<Rightarrow> ('re, 'l, 'k) admin_routed option" where
  "route_config env rq sv =
     (let m = pr_method rq; p = pr_path rq; st = sv_admin sv; cenv = av_config env
      in if (m, p) = (''POST'', ''/load'') then Some (with_admin sv (route_load cenv (pr_body rq) (should_save rq) st))
         else if (m, p) = (''POST'', ''/config/save'') then Some (with_admin sv (route_config_save cenv st))
         else if (m, p) = (''POST'', ''/config/reload'') then Some (with_admin sv (route_config_reload cenv st))
         else if (m, p) = (''POST'', ''/config/test'') then Some (with_admin sv (route_config_test cenv st, st))
         else if p = ''/config'' \<or> p = ''/config/'' \<or> starts_with p ''/config/'' then
           Some (with_admin sv (route_config_tree cenv m p (pr_body rq) (should_save rq) st))
         else if starts_with p ''/id/'' then Some (with_admin sv (route_id_lookup cenv m p st, st))
         else if (m, p) = (''POST'', ''/adapt'') then Some (with_admin sv (route_adapt cenv (pr_body rq), st))
         else None)"

definition found_view :: "bool \<Rightarrow> admin_view \<Rightarrow> ('re, 'l, 'k) admin_server \<Rightarrow> ('re, 'l, 'k) admin_routed" where
  "found_view found v sv = (if found then ((200, View v), sv) else ((404, Plain), sv))"

definition route_sites :: "parsed_request \<Rightarrow> ('re, 'l, 'k) admin_server \<Rightarrow> ('re, 'l, 'k) admin_routed option" where
  "route_sites rq sv =
     (case one_segment ''/api/sites/'' (pr_path rq) of
        None \<Rightarrow> None
      | Some name \<Rightarrow>
          if pr_method rq = ''GET'' then
            Some (found_view (site_named name (ad_registry (sv_admin sv)) \<noteq> None) (SiteDetail name) sv)
          else if pr_method rq = ''DELETE'' then
            Some (case route_site_delete name (sv_admin sv) of (code, st) \<Rightarrow> ((code, Plain), sv\<lparr>sv_admin := st\<rparr>))
          else None)"

definition route_upstreams :: "'re admin_env \<Rightarrow> parsed_request \<Rightarrow> ('re, 'l, 'k) admin_server \<Rightarrow> ('re, 'l, 'k) admin_routed option" where
  "route_upstreams env rq sv =
     (case (pr_method rq = ''GET'', one_segment ''/api/upstreams/'' (pr_path rq)) of
        (True, Some name) \<Rightarrow>
          Some (found_view (list_ex (\<lambda>v. si_upstream_pools (snd v) name \<noteq> None) (all_sites (ad_registry (sv_admin sv))))
            (UpstreamDetail name) sv)
      | _ \<Rightarrow>
          if pr_method rq = ''POST'' \<or> pr_method rq = ''PUT'' then
            map_option (\<lambda>(code, st). ((code, Plain), sv\<lparr>sv_admin := st\<rparr>))
              (route_upstream_node_action (av_config env) rq (sv_admin sv))
          else None)"

definition route_actions :: "'re admin_env \<Rightarrow> parsed_request \<Rightarrow> ('re, 'l, 'k) admin_server \<Rightarrow> ('re, 'l, 'k) admin_routed option" where
  "route_actions env rq sv =
     (let m = pr_method rq; p = pr_path rq
      in if (m, p) = (''POST'', ''/api/certs/reload'') then Some (with_admin sv (route_certs_reload (av_config env) (sv_admin sv)))
         else if m = ''POST'' \<and> (p = ''/api/certs/acme/renew'' \<or> starts_with p ''/api/certs/acme/renew?'') then
           Some (case route_certs_acme_renew (map_of (pr_query rq) ''site'') sv of (code, sv') \<Rightarrow> ((code, Plain), sv'))
         else if (m, p) = (''POST'', ''/api/cache/purge'') then Some ((200, Plain), route_cache_purge sv)
         else if (m, p) = (''PUT'', ''/api/logs/level'') then
           Some ((log_level_status (ce_json (av_config env)) (pr_body rq), Plain), sv)
         else None)"

definition or_else :: "'a option \<Rightarrow> 'a option \<Rightarrow> 'a option" where
  "or_else a b = (case a of Some x \<Rightarrow> Some x | None \<Rightarrow> b)"

definition admin_route :: "'re admin_env \<Rightarrow> parsed_request \<Rightarrow> ('re, 'l, 'k) admin_server \<Rightarrow> ('re, 'l, 'k) admin_routed" where
  "admin_route env rq sv =
     (case or_else (route_config env rq sv)
        (or_else (map_option (\<lambda>v. ((200, View v), sv)) (fixed_view (pr_method rq) (pr_path rq)))
          (or_else (if (pr_method rq, pr_path rq) = (''POST'', ''/api/stop'') then Some ((200, Plain), sv\<lparr>sv_stopping := True\<rparr>) else None)
            (or_else (route_sites rq sv) (or_else (route_upstreams env rq sv) (route_actions env rq sv))))) of
        Some r \<Rightarrow> r
      | None \<Rightarrow> ((404, Plain), sv))"

section \<open>A connection\<close>

datatype admin_reply = NoReply | Preflight | Reply nat route_body

definition handle_request :: "'re admin_env \<Rightarrow> string \<Rightarrow> ('re, 'l, 'k) admin_server \<Rightarrow> admin_reply \<times> ('re, 'l, 'k) admin_server" where
  "handle_request env input sv =
     (case parse_request (av_lower env) input of
        Dropped \<Rightarrow> (NoReply, sv)
      | Refused code \<Rightarrow> (Reply code Plain, sv)
      | Parsed rq \<Rightarrow>
          if pr_method rq = ''OPTIONS'' then (Preflight, sv)
          else (case authorised (av_token env) rq of
                  Some code \<Rightarrow> (Reply code Plain, sv)
                | None \<Rightarrow> (case admin_route env rq sv of ((code, body), sv') \<Rightarrow> (Reply code body, sv'))))"

section \<open>Who can change anything\<close>

lemma or_xor_eq_0: "d OR (x XOR y) = 0 \<longleftrightarrow> d = 0 \<and> x = (y :: u8)"
proof -
  have "x XOR y = 0 \<longleftrightarrow> x = y" by (auto simp: bit_eq_iff bit_xor_iff)
  moreover have "d OR z = 0 \<longleftrightarrow> d = 0 \<and> z = 0" for z :: u8 by (auto simp: bit_eq_iff bit_or_iff)
  ultimately show ?thesis by simp
qed

lemma constant_time_fold:
  "length a = length b \<Longrightarrow> foldl (\<lambda>diff (x, y). diff OR (x XOR y)) d (zip a b) = 0 \<longleftrightarrow> d = 0 \<and> a = (b :: u8 list)"
  by (induction a b arbitrary: d rule: list_induct2) (auto simp: or_xor_eq_0)

text \<open>The comparison that looks at every byte decides equality.\<close>

lemma constant_time_eq_iff: "constant_time_eq a b \<longleftrightarrow> a = b"
  by (auto simp: constant_time_eq_def constant_time_fold)

lemma authorised_None:
  "authorised token rq = None \<longleftrightarrow>
     pr_path rq \<in> set NO_AUTH_PATHS \<or>
     token \<noteq> [] \<and> map_of (pr_headers rq) ''authorization'' = Some (''Bearer '' @ token)"
proof -
  have "str_bytes a = str_bytes b \<longleftrightarrow> a = b" for a b by (metis bytes_str_str_bytes)
  then show ?thesis
    by (cases "map_of (pr_headers rq) ''authorization''") (auto simp: authorised_def Let_def constant_time_eq_iff unwrap_or_def)
qed

lemmas route_defs = admin_route_def or_else_def route_config_def route_sites_def route_upstreams_def one_segment_def
  route_upstream_node_action_def route_actions_def Let_def

lemma open_path_routes:
  assumes "pr_path rq \<in> set NO_AUTH_PATHS"
  shows "route_config env rq sv = None" "route_sites rq sv = None" "route_actions env rq sv = None"
    "route_upstreams env rq sv = None" "pr_path rq \<noteq> ''/api/stop''"
proof -
  from assms consider "pr_path rq = ''/api/health''" | "pr_path rq = ''/health''" | "pr_path rq = ''/api/version''"
    | "pr_path rq = ''/api/doc''" | "pr_path rq = ''/metrics''"
    by (auto simp: NO_AUTH_PATHS_def)
  note paths = this
  show "route_config env rq sv = None" by (rule paths) (simp_all add: route_config_def Let_def)
  show "route_sites rq sv = None" by (rule paths) (simp_all add: route_sites_def one_segment_def)
  show "route_actions env rq sv = None" by (rule paths) (simp_all add: route_actions_def Let_def)
  show "route_upstreams env rq sv = None"
    by (rule paths) (simp_all add: route_upstreams_def one_segment_def route_upstream_node_action_def split: bool.split)
  show "pr_path rq \<noteq> ''/api/stop''" by (rule paths) simp_all
qed

lemma open_paths_read_only:
  assumes "pr_path rq \<in> set NO_AUTH_PATHS"
  shows "snd (admin_route env rq sv) = sv"
  by (simp add: admin_route_def or_else_def open_path_routes [OF assms] split: option.split)


definition demo_server :: "(string, unit, string) admin_server" where
  "demo_server = \<lparr>sv_admin = demo_admin_state, sv_caches = (\<lambda>_. cache_from_config id id Map.empty serde_proxy_cache_config), sv_renewals = [], sv_stopping = False\<rparr>"

definition demo_admin_env :: "string admin_env" where
  "demo_admin_env = \<lparr>av_config = demo_config_env, av_token = ''t0'', av_lower = ascii_lower\<rparr>"

definition demo_stop :: string where
  "demo_stop = ''POST /api/stop HTTP/1.1'' @ CRLF @ ''Authorization: Bearer t0'' @ CRLF @ CRLF"

lemma demo_stop_parsed:
  "parse_request ascii_lower demo_stop =
     Parsed \<lparr>pr_method = ''POST'', pr_path = ''/api/stop'', pr_query = [], pr_headers = [(''authorization'', ''Bearer t0'')], pr_body = []\<rparr>"
proof -
  have 1: "admin_read_line demo_stop = Some (''POST /api/stop HTTP/1.1'' @ CRLF, ''Authorization: Bearer t0'' @ CRLF @ CRLF)" by code_simp
  have 2: "admin_read_line (''Authorization: Bearer t0'' @ CRLF @ CRLF) = Some (''Authorization: Bearer t0'' @ CRLF, CRLF)" by code_simp
  have 3: "admin_read_line CRLF = Some (CRLF, [])" by code_simp
  have 4: "trim (''POST /api/stop HTTP/1.1'' @ CRLF) = ''POST /api/stop HTTP/1.1''" by code_simp
  have 5: "trim (''Authorization: Bearer t0'' @ CRLF) = ''Authorization: Bearer t0''" by code_simp
  have 6: "trim CRLF = []" by code_simp
  have 7: "split_once CHR '':'' ''Authorization: Bearer t0'' = Some (''Authorization'', '' Bearer t0'')" by code_simp
  have 8: "ascii_lower (trim ''Authorization'') = ''authorization''" "trim '' Bearer t0'' = ''Bearer t0''" by code_simp+
  have 9: "splitn 3 CHR '' '' ''POST /api/stop HTTP/1.1'' = [''POST'', ''/api/stop'', ''HTTP/1.1'']" by code_simp
  have 10: "parse_path_query ''/api/stop'' = (''/api/stop'', [])" by code_simp
  have 11: "length CRLF = 2" by code_simp
  have "admin_read_headers ascii_lower (Suc 0) False [(''authorization'', ''Bearer t0'')] CRLF = Parsed ([(''authorization'', ''Bearer t0'')], [])"
    by (subst admin_read_headers.simps) (simp add: 3 6)
  then have "admin_read_headers ascii_lower 0 False [] (''Authorization: Bearer t0'' @ CRLF @ CRLF) = Parsed ([(''authorization'', ''Bearer t0'')], [])"
    by (subst admin_read_headers.simps) (simp only: 2 5 7 8 11 option.case prod.case Let_def, simp add: 11)
  then show ?thesis
    unfolding parse_request_def 1 option.case prod.case 4 9 by (simp add: 11 10 unwrap_or_def)
qed


section \<open>Paths and effects\<close>

lemma reload_command_not_found:
  "pr_method rq = ''POST'' \<Longrightarrow> pr_path rq = ''/api/config/reload'' \<Longrightarrow> admin_route env rq sv = ((404, Plain), sv)"
  by (simp add: route_defs fixed_view_def)

lemma log_level_ignored:
  "pr_method rq = ''PUT'' \<Longrightarrow> pr_path rq = ''/api/logs/level'' \<Longrightarrow> snd (admin_route env rq sv) = sv"
  by (simp add: route_defs fixed_view_def)

lemma weight_truncated:
  assumes "pr_method rq = ''PUT''" "parse (pr_body rq) = Some (JObj [(''weight'', JNum t)])" "parse_u64 t = Some (2 ^ 32)"
  shows "\<exists>f. node_change parse ''weight'' rq = Some (Inr f) \<and> ns_weight (f n) = 0"
proof -
  have "node_change parse ''weight'' rq = Some (Inr (\<lambda>n. n\<lparr>ns_weight := word_of_nat (2 ^ 32)\<rparr>))"
    using assms by (simp add: node_change_def json_weight_def)
  moreover have "(word_of_nat (2 ^ 32) :: u32) = 0" by (simp add: of_nat_eq_0_iff)
  ultimately show ?thesis by auto
qed

section \<open>The reload command\<close>

text \<open>\<^verbatim>\<open>sweety reload\<close> (\<^verbatim>\<open>src/cmd/reload.rs\<close>): the request it sends to the address and with the token of the configuration.\<close>

definition http_post :: "string \<Rightarrow> string \<Rightarrow> string" where
  "http_post url token =
     (let url = unwrap_or (strip_prefix url ''http://'') url;
          (host_port, path) = unwrap_or (split_once CHR ''/'' url) (url, ''api/v1/reload'');
          auth = (if token = [] then [] else ''Authorization: Bearer '' @ token @ CRLF)
      in ''POST /'' @ path @ '' HTTP/1.0'' @ CRLF @ ''Host: '' @ host_port @ CRLF @ ''Content-Length: 0'' @ CRLF @ auth @ CRLF)"

definition cmd_reload :: "global_config \<Rightarrow> string option" where
  "cmd_reload g =
     (if admin_listen g = [] then None
      else Some (http_post (''http://'' @ admin_listen g @ ''/api/config/reload'') (admin_token g)))"

lemma find_idx_skip: "c \<notin> set a \<Longrightarrow> find_idx c (a @ c # b) = Some (length a)"
  by (induction a) auto

text \<open>The command asks for a path that the interface does not know, so that nothing is reloaded.\<close>

lemma reload_command_path:
  assumes "CHR ''/'' \<notin> set (admin_listen g)" and "admin_listen g \<noteq> []"
  shows "\<exists>rest. cmd_reload g = Some (''POST /api/config/reload HTTP/1.0'' @ CRLF @ rest)"
proof -
  have "split_once CHR ''/'' (admin_listen g @ ''/api/config/reload'') = Some (admin_listen g, ''api/config/reload'')"
    using find_idx_skip [OF assms(1), of "''api/config/reload''"] by (simp add: split_once_def)
  moreover have "strip_prefix (''http://'' @ admin_listen g @ ''/api/config/reload'') ''http://'' = Some (admin_listen g @ ''/api/config/reload'')"
    by (rule strip_prefix_append)
  ultimately show ?thesis using assms(2) by (simp add: cmd_reload_def http_post_def unwrap_or_def)
qed

end
