(* ===== verification/Access_Log.thy ===== *)
theory Access_Log
  imports Router Admin_Config
begin

text \<open>
  The access log (\<^verbatim>\<open>src/middleware/access_log.rs\<close>): its formats, the escaping of what a client controls, the
  bounded queue requests put their entries on, and the thread that writes them.

  The text of the local time and the rendering of JSON are parameters; writing to the file is taken to succeed.

  Proved: an entry is one line with the quotes where the format puts them; entries are written in the order
  they were accepted and none that was accepted is lost.
\<close>

section \<open>Formats\<close>

datatype log_format = LogJson | LogCombined | LogCustom string

definition log_format_from_str :: "string \<Rightarrow> log_format" where
  "log_format_from_str s =
     (let t = ascii_lower (trim s)
      in if t = ''combined'' then LogCombined else if t = ''json'' then LogJson else LogCustom t)"

abbreviation DQ :: char where "DQ \<equiv> CHR 0x22"

definition sanitize_log_field :: "string \<Rightarrow> string" where
  "sanitize_log_field s =
     (if \<not> list_ex (\<lambda>b. b = LF \<or> b = CR \<or> b = DQ) s then s
      else concat (map (\<lambda>b. if b = LF then [CHR 0x5C, CHR ''n''] else if b = CR then [CHR 0x5C, CHR ''r'']
                            else if b = DQ then [CHR 0x5C, DQ] else push_byte_char b) s))"

record log_env =
  lg_iso :: string
  lg_local :: string
  lg_json :: "json \<Rightarrow> string"

definition log_json_entry :: "log_env \<Rightarrow> access_log_entry \<Rightarrow> json" where
  "log_json_entry env e =
     JObj (fold (\<lambda>(k, v). obj_insert k v)
       [(''time'', JStr (lg_iso env)), (''site'', JStr (al_site e)), (''client'', JStr (al_client_ip e)),
        (''method'', JStr (al_method e)), (''uri'', JStr (al_uri e)), (''proto'', JStr (al_http_version e)),
        (''status'', JNum (dec (al_status e))), (''bytes'', JNum (dec (al_bytes_sent e))),
        (''referer'', JStr (al_referer e)), (''ua'', JStr (al_user_agent e)), (''duration_ms'', JNum (dec (al_duration_ms e)))] [])"

definition combined_entry :: "log_env \<Rightarrow> access_log_entry \<Rightarrow> string" where
  "combined_entry env e =
     al_client_ip e @ '' - - ['' @ lg_local env @ ''] '' @ [DQ] @ al_method e @ '' '' @ sanitize_log_field (al_uri e) @ '' '' @
     al_http_version e @ [DQ] @ '' '' @ dec (al_status e) @ '' '' @ dec (al_bytes_sent e) @ '' '' @
     [DQ] @ sanitize_log_field (al_referer e) @ [DQ] @ '' '' @ [DQ] @ sanitize_log_field (al_user_agent e) @ [DQ] @ '' '' @
     dec (al_duration_ms e) @ ''ms''"

text \<open>The replacements run one after the other over the whole text.\<close>

definition custom_entry :: "log_env \<Rightarrow> string \<Rightarrow> access_log_entry \<Rightarrow> string" where
  "custom_entry env tmpl e =
     fold (\<lambda>(var, val) s. str_replace var val s)
       [(''$remote_addr'', al_client_ip e), (''$method'', al_method e), (''$uri'', sanitize_log_field (al_uri e)),
        (''$http_version'', al_http_version e), (''$status'', dec (al_status e)), (''$bytes_sent'', dec (al_bytes_sent e)),
        (''$http_referer'', sanitize_log_field (al_referer e)), (''$http_user_agent'', sanitize_log_field (al_user_agent e)),
        (''$duration_ms'', dec (al_duration_ms e)), (''$time_local'', lg_local env), (''$site'', al_site e)] tmpl"

definition format_entry :: "log_env \<Rightarrow> log_format \<Rightarrow> access_log_entry \<Rightarrow> string" where
  "format_entry env fmt e =
     (case fmt of
        LogJson \<Rightarrow> lg_json env (log_json_entry env e)
      | LogCombined \<Rightarrow> combined_entry env e
      | LogCustom tmpl \<Rightarrow> custom_entry env tmpl e)"

section \<open>The queue and the writer\<close>

text \<open>
  \<open>lw_accepted\<close> is what \<^verbatim>\<open>send\<close> could put on the queue so far, for the statement of what is written; the buffer
  is written out before it would exceed its capacity, and a text longer than the capacity goes past it.
\<close>

record log_writer =
  lw_queue :: "access_log_entry list"
  lw_buf :: string
  lw_file :: string
  lw_pending :: nat
  lw_done :: bool

definition QUEUE_CAP :: nat where "QUEUE_CAP = 4096"
definition BUF_CAP :: nat where "BUF_CAP = 256 * 1024"

definition new_writer :: "string \<Rightarrow> log_writer" where
  "new_writer content = \<lparr>lw_queue = [], lw_buf = [], lw_file = content, lw_pending = 0, lw_done = False\<rparr>"

definition flush_log :: "log_writer \<Rightarrow> log_writer" where
  "flush_log w = w\<lparr>lw_file := lw_file w @ lw_buf w, lw_buf := []\<rparr>"

definition buf_write :: "string \<Rightarrow> log_writer \<Rightarrow> log_writer" where
  "buf_write s w =
     (let w = (if BUF_CAP < length (lw_buf w) + length s then flush_log w else w)
      in if BUF_CAP \<le> length s then w\<lparr>lw_file := lw_file w @ s\<rparr> else w\<lparr>lw_buf := lw_buf w @ s\<rparr>)"

definition log_send :: "access_log_entry \<Rightarrow> log_writer \<Rightarrow> bool \<times> log_writer" where
  "log_send e w =
     (if lw_done w \<or> QUEUE_CAP \<le> length (lw_queue w) then (False, w) else (True, w\<lparr>lw_queue := lw_queue w @ [e]\<rparr>))"

definition on_entry :: "string \<Rightarrow> log_writer \<Rightarrow> log_writer" where
  "on_entry line w =
     (let w = buf_write [LF] (buf_write line w);
          w = w\<lparr>lw_pending := lw_pending w + 1\<rparr>
      in if 1024 \<le> lw_pending w then (flush_log w)\<lparr>lw_pending := 0\<rparr> else w)"

definition on_timeout :: "log_writer \<Rightarrow> log_writer" where
  "on_timeout w = (if 0 < lw_pending w then (flush_log w)\<lparr>lw_pending := 0\<rparr> else w)"

definition on_disconnect :: "log_writer \<Rightarrow> log_writer" where
  "on_disconnect w = (flush_log w)\<lparr>lw_done := True\<rparr>"

text \<open>
  Sending and writing interleave freely. The receiver hands out what is queued before it reports a time-out or
  that all senders are gone. The first component lists the accepted entries with the line each becomes.
\<close>

inductive log_step :: "(access_log_entry \<Rightarrow> string) \<Rightarrow> access_log_entry list \<times> log_writer \<Rightarrow> access_log_entry list \<times> log_writer \<Rightarrow> bool"
  for line where
  send_ok: "log_send e w = (True, w') \<Longrightarrow> log_step line (acc, w) (acc @ [e], w')"
| send_dropped: "log_send e w = (False, w') \<Longrightarrow> log_step line (acc, w) (acc, w')"
| receive: "\<not> lw_done w \<Longrightarrow> lw_queue w = e # es \<Longrightarrow> log_step line (acc, w) (acc, on_entry (line e) (w\<lparr>lw_queue := es\<rparr>))"
| timeout: "\<not> lw_done w \<Longrightarrow> lw_queue w = [] \<Longrightarrow> log_step line (acc, w) (acc, on_timeout w)"
| disconnect: "\<not> lw_done w \<Longrightarrow> lw_queue w = [] \<Longrightarrow> log_step line (acc, w) (acc, on_disconnect w)"

inductive log_reach :: "(access_log_entry \<Rightarrow> string) \<Rightarrow> string \<Rightarrow> access_log_entry list \<times> log_writer \<Rightarrow> bool"
  for line content where
  start: "log_reach line content ([], new_writer content)"
| step: "log_reach line content s \<Longrightarrow> log_step line s s' \<Longrightarrow> log_reach line content s'"

section \<open>What is written\<close>

lemma buf_write_simps [simp]:
  "lw_queue (buf_write s w) = lw_queue w" "lw_pending (buf_write s w) = lw_pending w" "lw_done (buf_write s w) = lw_done w"
  "lw_file (buf_write s w) @ lw_buf (buf_write s w) = lw_file w @ lw_buf w @ s"
proof -
  have "lw_buf w = []" if "\<not> BUF_CAP < length (lw_buf w) + length s" "BUF_CAP \<le> length s"
    using that by (cases "lw_buf w") simp_all
  then show "lw_file (buf_write s w) @ lw_buf (buf_write s w) = lw_file w @ lw_buf w @ s"
    by (auto simp: buf_write_def flush_log_def Let_def)
qed (simp_all add: buf_write_def flush_log_def Let_def)

lemma flush_log_simps [simp]:
  "lw_queue (flush_log w) = lw_queue w" "lw_pending (flush_log w) = lw_pending w" "lw_done (flush_log w) = lw_done w"
  "lw_buf (flush_log w) = []" "lw_file (flush_log w) = lw_file w @ lw_buf w"
  by (auto simp: flush_log_def)

lemma on_entry_simps:
  "lw_queue (on_entry l w) = lw_queue w" "lw_done (on_entry l w) = lw_done w"
  "lw_file (on_entry l w) @ lw_buf (on_entry l w) = lw_file w @ lw_buf w @ l @ [LF]"
  "lw_pending (on_entry l w) = (if 1024 \<le> Suc (lw_pending w) then 0 else Suc (lw_pending w))"
  by (auto simp: on_entry_def Let_def)

definition written :: "(access_log_entry \<Rightarrow> string) \<Rightarrow> access_log_entry list \<Rightarrow> string" where
  "written line es = concat (map (\<lambda>e. line e @ [LF]) es)"

lemma written_simps [simp]:
  "written line [] = []" "written line (e # es) = line e @ [LF] @ written line es"
  "written line (es @ fs) = written line es @ written line fs"
  by (simp_all add: written_def)

definition log_inv :: "(access_log_entry \<Rightarrow> string) \<Rightarrow> string \<Rightarrow> access_log_entry list \<times> log_writer \<Rightarrow> bool" where
  "log_inv line content s \<longleftrightarrow>
     lw_file (snd s) @ lw_buf (snd s) @ written line (lw_queue (snd s)) = content @ written line (fst s) \<and>
     length (lw_queue (snd s)) \<le> QUEUE_CAP \<and> lw_pending (snd s) < 1024 \<and>
     (lw_done (snd s) \<longrightarrow> lw_queue (snd s) = [] \<and> lw_buf (snd s) = [])"

lemma log_step_inv: "log_step line s s' \<Longrightarrow> log_inv line content s \<Longrightarrow> log_inv line content s'"
proof (induction rule: log_step.induct)
  case (receive w e es acc)
  let ?w = "on_entry (line e) (w\<lparr>lw_queue := es\<rparr>)"
  have "(lw_file ?w @ lw_buf ?w) @ written line es = lw_file w @ lw_buf w @ written line (e # es)"
    unfolding on_entry_simps by simp
  also have "\<dots> = content @ written line acc" using receive by (simp add: log_inv_def)
  finally have "lw_file ?w @ lw_buf ?w @ written line es = content @ written line acc" unfolding append_assoc .
  then show ?case using receive by (simp add: log_inv_def on_entry_simps)
qed (auto simp: log_inv_def log_send_def on_timeout_def on_disconnect_def split: if_splits)

lemma log_reach_inv: "log_reach line content s \<Longrightarrow> log_inv line content s"
proof (induction rule: log_reach.induct)
  case start
  then show ?case by (simp add: log_inv_def new_writer_def QUEUE_CAP_def)
qed (rule log_step_inv)

text \<open>
  C36: the log is the accepted entries in order. At every moment the file, the buffer and the queue together
  hold what the file held before and then one line for every accepted entry, in the order of acceptance; the
  queue never exceeds 4096 entries and fewer than 1024 lines wait for a flush. Once the writer has ended the
  file itself holds them all.
\<close>

theorem log_in_order:
  assumes "log_reach (format_entry env fmt) content (accepted, w)"
  shows "lw_file w @ lw_buf w @ written (format_entry env fmt) (lw_queue w) = content @ written (format_entry env fmt) accepted \<and>
    length (lw_queue w) \<le> 4096 \<and> lw_pending w < 1024 \<and>
    (lw_done w \<longrightarrow> lw_file w = content @ written (format_entry env fmt) accepted)"
  using log_reach_inv [OF assms] by (auto simp: log_inv_def QUEUE_CAP_def)

definition demo_log_entry :: "string \<Rightarrow> access_log_entry" where
  "demo_log_entry uri = \<lparr>al_client_ip = ''10.0.0.1'', al_method = ''GET'', al_uri = uri, al_http_version = ''HTTP/1.1'', al_status = 200,
     al_bytes_sent = 5, al_referer = ''-'', al_user_agent = ''curl'', al_duration_ms = 3, al_site = ''a''\<rparr>"

definition demo_log_env :: log_env where
  "demo_log_env = \<lparr>lg_iso = [], lg_local = ''now'', lg_json = (\<lambda>_. [])\<rparr>"

lemma single_entry_reach:
  "log_reach f content ([e], on_disconnect (on_entry (f e) (new_writer content)))"
proof -
  let ?w1 = "(new_writer content)\<lparr>lw_queue := [e]\<rparr>" and ?w2 = "on_entry (f e) (new_writer content)"
  have "log_reach f content ([], new_writer content)" by (rule log_reach.start)
  moreover have "log_step f ([], new_writer content) ([e], ?w1)"
    using log_step.send_ok [of e "new_writer content" ?w1 f "[]"] by (simp add: log_send_def new_writer_def QUEUE_CAP_def)
  ultimately have "log_reach f content ([e], ?w1)" by (rule log_reach.step)
  moreover have "log_step f ([e], ?w1) ([e], ?w2)"
    using log_step.receive [of ?w1 e "[]" f "[e]"] by (simp add: new_writer_def)
  ultimately have "log_reach f content ([e], ?w2)" by (rule log_reach.step)
  moreover have "log_step f ([e], ?w2) ([e], on_disconnect ?w2)"
    by (rule log_step.disconnect) (simp_all add: on_entry_simps new_writer_def)
  ultimately show ?thesis by (rule log_reach.step)
qed

theorem log_in_order_witness:
  "lw_file (on_disconnect (on_entry (format_entry demo_log_env LogCombined (demo_log_entry ''/''))
       (new_writer ''old''))) =
     ''old'' @ written (format_entry demo_log_env LogCombined) [demo_log_entry ''/'']"
  using log_in_order [OF single_entry_reach [of "format_entry demo_log_env LogCombined" "''old''" "demo_log_entry ''/''"]]
  by (simp add: on_disconnect_def)

section \<open>One line per entry\<close>

lemma sanitize_log_no_crlf: "no_crlf (sanitize_log_field s)"
  using push_byte_char_no_crlf by (auto simp: sanitize_log_field_def list_ex_iff no_crlf_def)

lemma dec_no_crlf: "no_crlf (dec n)"
  using dec_notin [of CR n] dec_notin [of LF n] by (auto simp: no_crlf_def is_digit_def)

lemma replace_ne_set: "set (replace_ne p r s) \<subseteq> set r \<union> set s"
proof (induction p r s rule: replace_ne.induct)
  case (2 p r c s)
  show ?case
  proof (cases "strip_prefix (c # s) p")
    case None
    then show ?thesis using 2(1) [OF None] None by (subst replace_ne.simps) auto
  next
    case (Some t)
    then have "set t \<subseteq> set (c # s)" by (metis Un_upper2 set_append strip_prefix_eq_Some)
    then show ?thesis using Some 2(2,3) by (subst replace_ne.simps) auto
  qed
qed simp

lemma str_replace_no_crlf:
  "p \<noteq> [] \<Longrightarrow> no_crlf r \<Longrightarrow> no_crlf s \<Longrightarrow> no_crlf (str_replace p r s)"
  using replace_ne_set [of p r s] by (auto simp: no_crlf_def str_replace_def)

text \<open>What the server itself puts into an entry, the template and the rendering of JSON have no line breaks.\<close>

definition log_env_ok :: "log_env \<Rightarrow> log_format \<Rightarrow> bool" where
  "log_env_ok env fmt \<longleftrightarrow> no_crlf (lg_local env) \<and> (\<forall>j. no_crlf (lg_json env j)) \<and> (case fmt of LogCustom t \<Rightarrow> no_crlf t | _ \<Rightarrow> True)"

definition entry_ok :: "access_log_entry \<Rightarrow> bool" where
  "entry_ok e \<longleftrightarrow> no_crlf (al_client_ip e) \<and> no_crlf (al_method e) \<and> no_crlf (al_http_version e) \<and> no_crlf (al_site e)"

lemma no_crlf_append [simp]: "no_crlf (s @ t) \<longleftrightarrow> no_crlf s \<and> no_crlf t" "no_crlf []"
  by (auto simp: no_crlf_def)

lemma combined_no_crlf: "entry_ok e \<Longrightarrow> no_crlf (lg_local env) \<Longrightarrow> no_crlf (combined_entry env e)"
  unfolding combined_entry_def no_crlf_append entry_ok_def by (simp add: sanitize_log_no_crlf dec_no_crlf) (simp add: no_crlf_def)

lemma custom_no_crlf: "entry_ok e \<Longrightarrow> no_crlf (lg_local env) \<Longrightarrow> no_crlf t \<Longrightarrow> no_crlf (custom_entry env t e)"
  by (simp add: custom_entry_def entry_ok_def str_replace_no_crlf sanitize_log_no_crlf dec_no_crlf)

lemma format_no_crlf: "log_env_ok env fmt \<Longrightarrow> entry_ok e \<Longrightarrow> no_crlf (format_entry env fmt e)"
  by (cases fmt) (simp_all add: format_entry_def log_env_ok_def combined_no_crlf custom_no_crlf)

lemma written_lines:
  "(\<And>e. e \<in> set es \<Longrightarrow> no_crlf (line e)) \<Longrightarrow> count_list (written line es) LF = length es \<and> CR \<notin> set (written line es)"
  by (induction es) (auto simp: no_crlf_def)

text \<open>
  C37: a client cannot forge log lines. Whatever the request path, the referrer and the user agent contain,
  and whichever format is configured, the finished log has exactly one more line per accepted entry, and no
  carriage return, as long as the address, method, version and site name, which the server supplies, are
  single lines.
\<close>

theorem log_lines_not_forged:
  assumes "log_reach (format_entry env fmt) content (accepted, w)" and "lw_done w"
    and "log_env_ok env fmt" and "list_all entry_ok accepted"
  shows "count_list (lw_file w) LF = count_list content LF + length accepted \<and>
    (CR \<in> set (lw_file w) \<longleftrightarrow> CR \<in> set content)"
proof -
  have "lw_file w = content @ written (format_entry env fmt) accepted"
    using log_reach_inv [OF assms(1)] assms(2) by (auto simp: log_inv_def)
  moreover have "count_list (written (format_entry env fmt) accepted) LF = length accepted \<and>
      CR \<notin> set (written (format_entry env fmt) accepted)"
    using assms(3,4) by (intro written_lines format_no_crlf) (auto simp: list_all_iff)
  ultimately show ?thesis by (auto simp: count_list_append)
qed

theorem log_lines_not_forged_witness:
  "count_list (lw_file (on_disconnect (on_entry (format_entry demo_log_env (LogCustom ''$uri $status'') (demo_log_entry [LF, CR, DQ]))
      (new_writer ''old'')))) LF = 1"
proof -
  have "entry_ok (demo_log_entry [LF, CR, DQ])" by (simp add: entry_ok_def demo_log_entry_def no_crlf_def)
  moreover have "log_env_ok demo_log_env (LogCustom ''$uri $status'')" by (simp add: log_env_ok_def demo_log_env_def no_crlf_def)
  ultimately show ?thesis
    using log_lines_not_forged [OF single_entry_reach [of "format_entry demo_log_env (LogCustom ''$uri $status'')" "''old''"
          "demo_log_entry [LF, CR, DQ]"]]
    by (simp add: on_disconnect_def)
qed

section \<open>Oddities\<close>

text \<open>The template of a custom format is put into lower case with everything in it.\<close>

lemma custom_format_lowered: "log_format_from_str ''ID=$status'' = LogCustom ''id=$status''"
  by code_simp

text \<open>A backslash is not escaped: an escaped quote after a backslash reads as an escaped backslash and the end of the field.\<close>

lemma backslash_unescapes: "sanitize_log_field [CHR 0x5C, DQ] = [CHR 0x5C, CHR 0x5C, DQ]"
  by code_simp

text \<open>A field with a quote has its other bytes encoded again, one character each.\<close>

lemma sanitize_doubles_utf8: "sanitize_log_field [DQ, CHR 0xC3, CHR 0xA9] = [CHR 0x5C, DQ, CHR 0xC3, CHR 0x83, CHR 0xC2, CHR 0xA9]"
  by code_simp

text \<open>A path can contain a variable of the format, which is then replaced too.\<close>

lemma uri_expands_variables:
  "custom_entry demo_log_env ''$uri'' (demo_log_entry ''/$status'') = ''/200''"
  by code_simp

end
