(* ===== verification/Server_Start.thy ===== *)
theory Server_Start
  imports Access_Log Acme Static_File Proxy_Cache
begin

text \<open>
  Starting the server (\<^verbatim>\<open>src/server/http.rs\<close>, \<^verbatim>\<open>SweetyServer::run\<close>): every component is built from the
  configuration and handed to the others, the ports are bound, and the background tasks are started.

  Binding a port, opening a log file, the number of processors and whether the caller is inside an
  asynchronous runtime are parameters. A hash map is an association list in some order.

  Proved: what a running server serves on which port, and when it does not start.
\<close>

section \<open>What a site needs\<close>

record ('re, 'c, 'd, 'k) start_env =
  sn_site :: "'re site_env"
  sn_tls :: "('c, 'd, 'k) tls_env"
  sn_transport :: quic_transport
  sn_open_log :: "string \<Rightarrow> bool"
  sn_upper :: "string \<Rightarrow> string"
  sn_cache_dir :: "string option \<Rightarrow> (string \<rightharpoonup> string)"
  sn_exists :: "string \<Rightarrow> bool"
  sn_cpus :: "nat option"
  sn_in_runtime :: bool

type_synonym logger = "string \<times> log_format"

definition site_logger :: "('re, 'c, 'd, 'k) start_env \<Rightarrow> site_config \<Rightarrow> logger option" where
  "site_logger env site =
     (case access_log site of
        None \<Rightarrow> None
      | Some path \<Rightarrow>
          (let fmt = (case access_log_format site of Some f \<Rightarrow> log_format_from_str f | None \<Rightarrow> LogCombined)
           in if sn_open_log env path then Some (path, fmt) else None))"

definition fcgi_proxy_config :: "fastcgi_cache_config \<Rightarrow> proxy_cache_config" where
  "fcgi_proxy_config c =
     \<lparr>pcc_path = fcc_path c, pcc_max_entries = fcc_max_entries c, pcc_ttl = fcc_ttl c,
      pcc_cacheable_statuses = fcc_cacheable_statuses c, pcc_cacheable_methods = fcc_cacheable_methods c,
      pcc_bypass_headers = fcc_bypass_headers c, pcc_ignore_headers = fcc_ignore_headers c\<rparr>"

definition site_fcgi_config :: "site_config \<Rightarrow> proxy_cache_config option" where
  "site_fcgi_config site = map_option fcgi_proxy_config (Option.bind (site_fastcgi site) fc_cache)"

text \<open>The caches get consecutive addresses: site \<open>i\<close> has its proxy cache at \<open>2 * i\<close> and its FastCGI cache behind it.\<close>

definition site_caches :: "('re, 'c, 'd, 'k) start_env \<Rightarrow> nat \<times> site_config \<Rightarrow> (nat \<times> proxy_cache) list" where
  "site_caches env x =
     (case x of (i, site) \<Rightarrow>
        (let mk = (\<lambda>a c. (a, cache_from_config (sn_upper env) (te_lower (sn_tls env)) (sn_cache_dir env (pcc_path c)) c))
         in (case site_proxy_cache site of Some c \<Rightarrow> [mk (2 * i) c] | None \<Rightarrow> []) @
            (case site_fcgi_config site of Some c \<Rightarrow> [mk (2 * i + 1) c] | None \<Rightarrow> [])))"

definition inject_resources :: "('re, 'c, 'd, 'k) start_env \<Rightarrow> nat \<Rightarrow> nat \<times> site_config \<Rightarrow> ('re, logger) vhost_inner \<Rightarrow> ('re, logger) vhost_inner" where
  "inject_resources env base x =
     (case x of (i, site) \<Rightarrow>
        inject_site_resources (base + i) (site_name site) (site_logger env site)
          (map_option (\<lambda>_. 2 * i) (site_proxy_cache site)) (map_option (\<lambda>_. 2 * i + 1) (site_fcgi_config site)))"

definition start_registry :: "('re, 'c, 'd, 'k) start_env \<Rightarrow> site_config list \<Rightarrow> ('re, logger) vhost_inner" where
  "start_registry env sites =
     fold (inject_resources env (length sites)) (enumerate 0 sites) (registry_from_config (sn_site env) 0 sites)"

section \<open>Settings derived from the configuration\<close>

definition pool_idle :: "global_config \<Rightarrow> nat" where
  "pool_idle g = min (max (worker_connections g div 128) 8) 256"

definition max_body_of :: "global_config \<Rightarrow> u64" where
  "max_body_of g = word_of_nat (client_max_body_size g) * 1024 * 1024"

definition workers_of :: "nat option \<Rightarrow> global_config \<Rightarrow> nat" where
  "workers_of cpus g = (if worker_threads g = 0 then unwrap_or cpus 4 else worker_threads g)"

definition keep_alive_of :: "global_config \<Rightarrow> u64" where
  "keep_alive_of g = (if keepalive_timeout g = 0 then 60 else keepalive_timeout g)"

definition pp_ports :: "site_config list \<Rightarrow> u16 list" where
  "pp_ports sites = remdups (concat (map (\<lambda>s. listen s @ listen_tls s) (filter proxy_protocol sites)))"

definition collect_port_sites :: "site_config list \<Rightarrow> (u16 \<times> string list) list" where
  "collect_port_sites sites = map (\<lambda>(p, ss). (p, map site_name ss)) (collect_tls_ports_grouped sites)"

definition watch_roots :: "(string \<Rightarrow> bool) \<Rightarrow> site_config list \<Rightarrow> string list" where
  "watch_roots ex sites = filter ex (remdups (filter_map site_root sites))"

definition tls_bindings :: "('c, 'd, 'k) tls_env \<Rightarrow> site_config list \<Rightarrow> (u16 \<times> 'k server_tls) list" where
  "tls_bindings env sites =
     filter_map (\<lambda>(port, ss). map_option (Pair port) (build_sni_server_config env ss)) (collect_tls_ports_grouped sites)"

text \<open>A health check: the site value its pool belongs to, the name of the pool, the path and the interval.\<close>

definition health_pool :: "('re, logger) vhost_inner \<Rightarrow> site_config \<Rightarrow> upstream_config \<Rightarrow> nat option" where
  "health_pool r site u =
     (case filter_map (lookup_host r) (server_name site) of
        [] \<Rightarrow> None
      | (a, si) # _ \<Rightarrow> if si_upstream_pools si (uc_name u) \<noteq> None then Some a else None)"

definition health_tasks :: "('re, logger) vhost_inner \<Rightarrow> site_config list \<Rightarrow> (nat \<times> string \<times> string \<times> u64) list" where
  "health_tasks r sites =
     concat (map (\<lambda>site. filter_map (\<lambda>u.
       (case uc_health_check u of
          Some hc \<Rightarrow>
            if \<not> hc_enabled hc \<or> uc_nodes u = [] then None
            else map_option (\<lambda>a. (a, uc_name u, health_check_config.hc_path hc, hc_interval hc)) (health_pool r site u)
        | None \<Rightarrow> None)) (upstreams site)) sites)"

section \<open>Binding\<close>

datatype listener = TcpPort u16 | UdpPort u16

fun bind_all :: "(listener list \<Rightarrow> listener \<Rightarrow> bool) \<Rightarrow> listener list \<Rightarrow> listener list \<Rightarrow> listener + listener list" where
  "bind_all ok bound [] = Inr bound"
| "bind_all ok bound (l # ls) = (if ok bound l then bind_all ok (bound @ [l]) ls else Inl l)"

section \<open>The start\<close>

record ('re, 'k) server_run =
  ru_registry :: "('re, logger) vhost_inner"
  ru_caches :: "(nat \<times> proxy_cache) list"
  ru_resolvers :: "'k resolvers"
  ru_http :: "u16 list"
  ru_tls :: "(u16 \<times> 'k server_tls) list"
  ru_quic :: "(u16 \<times> 'k quic_config) list"
  ru_bound :: "listener list"
  ru_h3_ports :: "u16 list"
  ru_h3_max :: nat
  ru_pp_ports :: "u16 list"
  ru_pool_idle :: nat
  ru_max_connections :: nat
  ru_max_body :: u64
  ru_workers :: nat
  ru_keep_alive :: u64
  ru_any_access_log :: bool
  ru_health :: "(nat \<times> string \<times> string \<times> u64) list"
  ru_acme :: bool
  ru_cache_limits :: cache_limits
  ru_watched :: "string list"
  ru_hot_reload :: "(u16 \<times> string list) list option"
  ru_admin :: "(string \<times> string) option"

datatype start_error = BindFailed listener | SpawnOutsideRuntime

definition uses_acme :: "site_config list \<Rightarrow> bool" where
  "uses_acme sites = list_ex (\<lambda>s. case site_tls s of Some t \<Rightarrow> acme t | None \<Rightarrow> False) sites"

definition start_server ::
  "('re, 'c, 'd, 'k) start_env \<Rightarrow> (listener list \<Rightarrow> listener \<Rightarrow> bool) \<Rightarrow> bool \<Rightarrow> app_config \<Rightarrow> start_error + ('re, 'k) server_run" where
  "start_server env bind_ok has_path cfg =
     (let g = app_global cfg; sites = app_sites cfg;
          tls = tls_bindings (sn_tls env) sites;
          registry = start_registry env sites;
          http = collect_http_ports sites;
          quic = h3_bindings (sn_tls env) (sn_transport env) sites;
          health = health_tasks registry sites
      in case bind_all bind_ok [] (map TcpPort http @ map (\<lambda>(p, _). TcpPort p) tls @ map (\<lambda>(p, _). UdpPort p) quic) of
           Inl l \<Rightarrow> Inl (BindFailed l)
         | Inr bound \<Rightarrow>
             if health \<noteq> [] \<and> \<not> sn_in_runtime env then Inl SpawnOutsideRuntime
             else Inr \<lparr>ru_registry = registry, ru_caches = concat (map (site_caches env) (enumerate 0 sites)),
                       ru_resolvers = map (\<lambda>(p, c). (p, st_resolver c)) tls,
                       ru_http = http, ru_tls = tls, ru_quic = quic, ru_bound = bound,
                       ru_h3_ports = map fst (collect_h3_ports sites), ru_h3_max = h3_max_handlers sites,
                       ru_pp_ports = pp_ports sites, ru_pool_idle = pool_idle g,
                       ru_max_connections = gc_max_connections g, ru_max_body = max_body_of g,
                       ru_workers = workers_of (sn_cpus env) g, ru_keep_alive = keep_alive_of g,
                       ru_any_access_log = list_ex (\<lambda>s. access_log s \<noteq> None) sites,
                       ru_health = health, ru_acme = uses_acme sites,
                       ru_cache_limits = init_cache_limits (open_file_cache_max g) (open_file_cache_total_mb g),
                       ru_watched = watch_roots (sn_exists env) sites,
                       ru_hot_reload = (if has_path then Some (collect_port_sites sites) else None),
                       ru_admin = (if admin_listen g = [] then None else Some (admin_listen g, admin_token g))\<rparr>)"

section \<open>Ports\<close>

lemma bind_all_Inr: "bind_all ok bound ls = Inr b \<Longrightarrow> b = bound @ ls"
  by (induction ok bound ls rule: bind_all.induct) (auto split: if_splits)

lemma bind_all_distinct:
  "bind_all ok bound ls = Inr b \<Longrightarrow> (\<And>xs l. ok xs l \<Longrightarrow> l \<notin> set xs) \<Longrightarrow> distinct bound \<Longrightarrow> distinct b"
  by (induction ok bound ls rule: bind_all.induct) (auto split: if_splits)

lemma start_server_bound:
  assumes "start_server env bind_ok has_path cfg = Inr ru"
  shows "ru_bound ru = map TcpPort (ru_http ru) @ map (\<lambda>(p, _). TcpPort p) (ru_tls ru) @ map (\<lambda>(p, _). UdpPort p) (ru_quic ru)"
    "ru_http ru = collect_http_ports (app_sites cfg)" "ru_tls ru = tls_bindings (sn_tls env) (app_sites cfg)"
    "ru_resolvers ru = map (\<lambda>(p, c). (p, st_resolver c)) (ru_tls ru)" "ru_registry ru = start_registry env (app_sites cfg)"
    "ru_quic ru = h3_bindings (sn_tls env) (sn_transport env) (app_sites cfg)"
    "ru_caches ru = concat (map (site_caches env) (enumerate 0 (app_sites cfg)))"
  using assms by (auto simp: start_server_def Let_def dest!: bind_all_Inr split: sum.splits if_splits)

lemma tls_bindings_port:
  assumes "s \<in> set sites" "site_tls s = Some t" "port \<in> set (listen_tls s)" "build_certified_keys env t (server_name s) \<noteq> []"
  shows "\<exists>c. (port, c) \<in> set (tls_bindings env sites) \<and> build_sni_server_config env (tls_port_sites port sites) = Some c"
proof -
  have "s \<in> set (tls_port_sites port sites)" using assms(1-3) by (auto simp: tls_port_sites_def)
  then have "(server_name s, build_certified_keys env t (server_name s)) \<in> set (filter_map (site_certs env) (tls_port_sites port sites))"
    using assms(2) by (force simp: filter_map_set site_certs_def)
  then obtain c where c: "build_sni_server_config env (tls_port_sites port sites) = Some c"
    using assms(4) by (fastforce simp: build_sni_server_config_def Let_def filter_empty_conv)
  moreover have "(port, tls_port_sites port sites) \<in> set (collect_tls_ports_grouped sites)"
    using assms(1-3) by (force simp: collect_tls_ports_grouped_def)
  ultimately show ?thesis by (force simp: tls_bindings_def filter_map_set)
qed


text \<open>A port given both as a plain and as a TLS port, which the validation accepts, keeps the server from starting.\<close>

lemma port_used_twice:
  assumes "\<And>xs l. bind_ok xs l \<Longrightarrow> l \<notin> set xs"
    and "s \<in> set (app_sites cfg)" "p \<in> set (listen s)"
    and "s' \<in> set (app_sites cfg)" "site_tls s' = Some t" "p \<in> set (listen_tls s')"
    and "build_certified_keys (sn_tls env) t (server_name s') \<noteq> []"
  shows "start_server env bind_ok has_path cfg \<noteq> Inr ru"
proof
  assume st: "start_server env bind_ok has_path cfg = Inr ru"
  note run = start_server_bound [OF st]
  have "distinct (ru_bound ru)"
    using st assms(1) by (auto simp: start_server_def Let_def split: sum.splits if_splits dest!: bind_all_distinct)
  moreover have "TcpPort p \<in> set (map TcpPort (ru_http ru))" using assms(2,3) by (auto simp: run collect_http_ports_def)
  moreover obtain c where "(p, c) \<in> set (ru_tls ru)" using tls_bindings_port [OF assms(4-7)] by (auto simp: run)
  then have "TcpPort p \<in> set (map (\<lambda>(p, _). TcpPort p) (ru_tls ru))" by force
  ultimately show False unfolding run(1) by auto
qed

section \<open>Sites and their resources\<close>

text \<open>Injecting the resources of one site gives its entries these resources and leaves the entries of other sites alone.\<close>

lemma inject_exact_entry:
  assumes "(k, v) \<in> set (vh_exact (inject_site_resources addr name logger pc fc r))"
  shows "if si_name (snd v) = name
    then si_access_logger (snd v) = logger \<and> si_proxy_cache_arc (snd v) = pc \<and> si_fcgi_cache_arc (snd v) = fc
    else (k, v) \<in> set (vh_exact r)"
proof (cases "find (\<lambda>v. si_name (snd v) = name) (map snd (vh_exact r))")
  case None
  then have "\<forall>v\<in>snd ` set (vh_exact r). si_name (snd v) \<noteq> name" by (auto simp: find_None_iff)
  then show ?thesis using assms None by (force simp: inject_site_resources_def)
next
  case (Some v0)
  then show ?thesis using assms by (auto simp: inject_site_resources_def Let_def split: if_splits dest!: find_SomeD)
qed

definition has_resources :: "('re, 'c, 'd, 'k) start_env \<Rightarrow> nat \<times> site_config \<Rightarrow> ('re, logger) site_info arc \<Rightarrow> bool" where
  "has_resources env x v \<longleftrightarrow>
     si_access_logger (snd v) = site_logger env (snd x) \<and>
     si_proxy_cache_arc (snd v) = map_option (\<lambda>_. 2 * fst x) (site_proxy_cache (snd x)) \<and>
     si_fcgi_cache_arc (snd v) = map_option (\<lambda>_. 2 * fst x + 1) (site_fcgi_config (snd x))"

lemma inject_one_entry:
  "(k, v) \<in> set (vh_exact (inject_resources env base y r)) \<Longrightarrow>
     if si_name (snd v) = site_name (snd y) then has_resources env y v else (k, v) \<in> set (vh_exact r)"
  by (cases y) (auto simp: inject_resources_def has_resources_def dest!: inject_exact_entry split: if_splits)

lemma inject_all_entry:
  assumes "distinct (map (site_name \<circ> snd) es)" and "x \<in> set es"
    and "(k, v) \<in> set (vh_exact (fold (inject_resources env base) es r))" and "si_name (snd v) = site_name (snd x)"
  shows "has_resources env x v"
  using assms
proof (induction es arbitrary: r rule: rev_induct)
  case (snoc y es)
  have entry: "if si_name (snd v) = site_name (snd y) then has_resources env y v
      else (k, v) \<in> set (vh_exact (fold (inject_resources env base) es r))"
    by (rule inject_one_entry [where base = base]) (use snoc.prems(3) in simp)
  show ?case
  proof (cases "x = y")
    case True
    then show ?thesis using entry snoc.prems(4) by simp
  next
    case False
    then have "x \<in> set es" using snoc.prems(2) by simp
    moreover have "site_name (snd y) \<notin> (\<lambda>z. site_name (snd z)) ` set es" using snoc.prems(1) by (simp add: comp_def)
    then have "site_name (snd x) \<noteq> site_name (snd y)" using \<open>x \<in> set es\<close> by (metis image_eqI)
    ultimately show ?thesis using snoc.IH [of r] snoc.prems(1,4) entry by simp
  qed
qed simp

lemma start_registry_running:
  assumes "hosts_ok (se_to_lowercase (sn_site env)) sites"
  shows "running (sn_site env) sites (start_registry env sites)"
proof -
  have "running (sn_site env) sites (fold (inject_resources env base) es r)" if "running (sn_site env) sites r" for base es r
    using that by (induction es arbitrary: r) (auto simp: inject_resources_def intro: running.inject split: prod.splits)
  from this [OF running.start [OF assms]] show ?thesis by (simp add: start_registry_def)
qed


definition demo_start_env :: "(string, string, string, string) start_env" where
  "demo_start_env = \<lparr>sn_site = demo_site_env, sn_tls = demo_tls_env, sn_transport = demo_quic_transport, sn_open_log = (\<lambda>_. True),
     sn_upper = id, sn_cache_dir = (\<lambda>_. Map.empty), sn_exists = (\<lambda>_. True), sn_cpus = Some 4, sn_in_runtime = False\<rparr>"

definition demo_start_site :: site_config where
  "demo_start_site = (demo_tls_site ''a'' [''a.org''] ''a.crt'')\<lparr>listen := [80], access_log := Some ''/log/a'',
     site_proxy_cache := Some serde_proxy_cache_config\<rparr>"

definition demo_start_config :: app_config where
  "demo_start_config = \<lparr>app_global = default_global_config, app_sites = [demo_start_site]\<rparr>"

definition demo_bind :: "listener list \<Rightarrow> listener \<Rightarrow> bool" where
  "demo_bind bound l \<longleftrightarrow> l \<notin> set bound"

lemma demo_start_site_simps [simp]:
  "site_name demo_start_site = ''a''" "server_name demo_start_site = [''a.org'']" "listen demo_start_site = [80]"
  "listen_tls demo_start_site = [443]" "upstreams demo_start_site = []" "site_proxy_cache demo_start_site = Some serde_proxy_cache_config"
  "site_tls demo_start_site = Some (serde_tls_config\<lparr>tls_cert := Some ''a.crt'', tls_key := Some ''k''\<rparr>)"
  "access_log demo_start_site = Some ''/log/a''" "access_log_format demo_start_site = None"
  by (simp_all add: demo_start_site_def demo_tls_site_def demo_site_def serde_site_config_def)

lemma demo_bind_all: "distinct (bound @ ls) \<Longrightarrow> bind_all demo_bind bound ls = Inr (bound @ ls)"
  by (induction demo_bind bound ls rule: bind_all.induct) (auto simp: demo_bind_def)

lemma demo_starts: "\<exists>ru. start_server demo_start_env demo_bind True demo_start_config = Inr ru"
proof -
  let ?sites = "[demo_start_site]"
  have "collect_tls_ports_grouped ?sites = [(443, [demo_start_site])]"
    by (simp add: collect_tls_ports_grouped_def tls_port_sites_def)
  then have tls: "map fst (tls_bindings demo_tls_env ?sites) = [] \<or> map fst (tls_bindings demo_tls_env ?sites) = [443]"
    by (auto simp: tls_bindings_def split: option.split)
  have "distinct (map fst (h3_bindings demo_tls_env demo_quic_transport ?sites))"
    by (simp add: h3_bindings_def collect_h3_ports_def split: option.split)
  moreover have pairs: "map (\<lambda>(p, _). g p) xs = map g (map fst xs)" for g :: "u16 \<Rightarrow> listener" and xs :: "(u16 \<times> 'z) list"
    by (simp add: split_beta)
  ultimately have "distinct (map TcpPort (collect_http_ports ?sites) @ map (\<lambda>(p, _). TcpPort p) (tls_bindings demo_tls_env ?sites) @
      map (\<lambda>(p, _). UdpPort p) (h3_bindings demo_tls_env demo_quic_transport ?sites))"
    using tls by (auto simp: collect_http_ports_def pairs distinct_map inj_on_def)
  moreover have "health_tasks (start_registry demo_start_env ?sites) ?sites = []" by (simp add: health_tasks_def)
  ultimately show ?thesis
    by (simp add: start_server_def demo_start_config_def Let_def demo_start_env_def demo_bind_all)
qed



section \<open>A start that fails\<close>

text \<open>A server started from the command line is not inside a runtime: a configuration with an active health check stops it.\<close>

lemma health_check_prevents_start:
  "\<not> sn_in_runtime env \<Longrightarrow> health_tasks (start_registry env (app_sites cfg)) (app_sites cfg) \<noteq> [] \<Longrightarrow>
   start_server env bind_ok has_path cfg \<noteq> Inr ru"
  by (auto simp: start_server_def Let_def split: sum.splits)

definition demo_checked_site :: site_config where
  "demo_checked_site = (serde_site_config ''a'' [''a.org''])\<lparr>upstreams := [(serde_upstream_config ''u'' [serde_upstream_node (Tcp ''b:80'')])
     \<lparr>uc_health_check := Some serde_health_check_config\<rparr>]\<rparr>"

lemma demo_checked_site_simps [simp]:
  "server_name demo_checked_site = [''a.org'']"
  "upstreams demo_checked_site = [(serde_upstream_config ''u'' [serde_upstream_node (Tcp ''b:80'')])\<lparr>uc_health_check := Some serde_health_check_config\<rparr>]"
  by (simp_all add: demo_checked_site_def serde_site_config_def)

lemma checked_site_never_starts:
  "start_server demo_start_env bind_ok has_path \<lparr>app_global = default_global_config, app_sites = [demo_checked_site]\<rparr> \<noteq> Inr ru"
proof (rule health_check_prevents_start)
  let ?r = "start_registry demo_start_env [demo_checked_site]"
  have env: "sn_site demo_start_env = demo_site_env" by (simp add: demo_start_env_def)
  have "running demo_site_env [demo_checked_site] ?r"
    using start_registry_running [of demo_start_env "[demo_checked_site]"] by (simp add: env hosts_ok_def disjoint_keys_def)
  from running_serves [OF this] have "table_serves demo_site_env (exact_keys ascii_lower) [demo_checked_site] (map_of (vh_exact ?r)) ''a.org''"
    by (simp add: registry_serves_def)
  then obtain v where "map_of (vh_exact ?r) ''a.org'' = Some v" "runs_config demo_site_env demo_checked_site v"
    by (auto simp: table_serves_def exact_keys_def case_eval split: if_splits)
  moreover from this(2) obtain a where "strip_resources (snd v) = site_from_config demo_site_env a demo_checked_site"
    by (auto simp: runs_config_def)
  from arg_cong [OF this, of si_upstream_pools] have "si_upstream_pools (snd v) ''u'' \<noteq> None"
    by (simp add: strip_resources_def site_from_config_def serde_upstream_config_def)
  moreover have "ascii_lower (strip_port ''a.org'') = ''a.org''" by code_simp
  ultimately have "lookup_host ?r ''a.org'' = Some v" "si_upstream_pools (snd v) ''u'' \<noteq> None"
    by (simp_all add: lookup_host_def lookup_inner_lower)
  then show "health_tasks (start_registry demo_start_env (app_sites \<lparr>app_global = default_global_config, app_sites = [demo_checked_site]\<rparr>))
      (app_sites \<lparr>app_global = default_global_config, app_sites = [demo_checked_site]\<rparr>) \<noteq> []"
    by (cases v) (simp add: health_tasks_def health_pool_def serde_upstream_config_def serde_health_check_config_def)
qed (simp add: demo_start_env_def)

end
