(* ===== verification/Spec2Isabelle.thy ===== *)
theory Spec2Isabelle
  imports
    Access_Control
    Real_Ip
    Config_Load
    Circuit_Breaker
    Retry
    Vhost
    Load_Balancer
    Proxy_Response
    Http1_Conn
    Proxy_Flow
    Proxy_Protocol
    Conn_Pool
    Proxy_Handler
    Auth_Request
    Router
    Conn_Gate
    Fastcgi
    Admin_Api
    Server_Start
begin

text \<open>
  A verification library for Sweety, a web server and reverse proxy written in Rust (the sources are under
  \<^verbatim>\<open>src/\<close> of the repository). The definitions are translations of the sources; names follow the code.

  \<^bold>\<open>The program.\<close> A configuration file is parsed, expanded and validated (\<^verbatim>\<open>config/\<close>). At the start
  (\<^verbatim>\<open>server/http.rs\<close>) it becomes a registry of runtime sites (\<^verbatim>\<open>dispatcher/vhost.rs\<close>), resolvers of
  certificates (\<^verbatim>\<open>server/tls.rs\<close>), caches and logs, and the ports are bound. A request enters the router
  (\<^verbatim>\<open>server/router.rs\<close>), which finds the site by host, applies limits, redirects, rewrite rules
  (\<^verbatim>\<open>dispatcher/rewrite.rs\<close>), the location table (\<^verbatim>\<open>dispatcher/location.rs\<close>), access rules
  (\<^verbatim>\<open>middleware/access_control.rs\<close>), the authorisation sub-request (\<^verbatim>\<open>handler/auth_request.rs\<close>) and plugins, and
  calls a handler: static files, FastCGI or the reverse proxy with its upstream groups, circuit breakers,
  connection pools and response cache. Meanwhile a watcher reloads the configuration (\<^verbatim>\<open>config/hot_reload.rs\<close>), a
  task renews certificates (\<^verbatim>\<open>server/acme.rs\<close>) and an admin interface (\<^verbatim>\<open>admin_api/\<close>) shows and changes the state.

  \<^bold>\<open>Shared theories.\<close>
  \<^item> \<^verbatim>\<open>Rust_Prelude\<close>: machine integers as words, strings as byte lists, the outcome of code that may panic, the
    operations of \<^verbatim>\<open>str\<close>, number parsing and printing, \<^verbatim>\<open>filter_map\<close>, stable sorting, with the simplification
    rules and collections the other theories use.
  \<^item> \<^verbatim>\<open>Codec\<close>: a locale for wire formats, an encoder with a decoder that reads a value off the front of a buffer;
    interpreted for PROXY headers, FastCGI records and name-value pairs.
  \<^item> \<^verbatim>\<open>Header_Map\<close>: the header map of a response with the laws of its operations.
  \<^item> \<^verbatim>\<open>Ip_Addr\<close>: addresses, their text and prefixes, and the locale of a block matcher, interpreted for the two
    implementations the program has (access rules and trusted proxies).

  \<^bold>\<open>Configuration.\<close>
  \<^item> \<^verbatim>\<open>Config\<close> (\<^verbatim>\<open>config/model/\<close>): a record per struct, a datatype per enum, all defaults.
  \<^item> \<^verbatim>\<open>Config_Load\<close> (\<^verbatim>\<open>config/expand.rs\<close>, \<^verbatim>\<open>preset.rs\<close>, \<^verbatim>\<open>loader.rs\<close>): expansion and validation; a loaded
    configuration is valid and expansion is idempotent.
  \<^item> \<^verbatim>\<open>Hot_Reload\<close> (\<^verbatim>\<open>config/hot_reload.rs\<close>): one round of the watcher; it is all or nothing and installs the
    certificates of changed sites; what it forgets is proved too.

  \<^bold>\<open>Requests.\<close>
  \<^item> \<^verbatim>\<open>Vhost\<close>: registry and lookup; the table laws are a locale interpreted for exact and wildcard names; routing
    by host survives any sequence of injections and reloads.
  \<^item> \<^verbatim>\<open>Location_Match\<close>, \<^verbatim>\<open>Rewrite\<close>, \<^verbatim>\<open>Access_Control\<close>, \<^verbatim>\<open>Real_Ip\<close>, \<^verbatim>\<open>Auth_Request\<close>: each with the reference
    semantics it implements.
  \<^item> \<^verbatim>\<open>Router\<close> (\<^verbatim>\<open>server/router.rs\<close>, \<^verbatim>\<open>server/state.rs\<close>, metrics, plugins): the whole entry handler as a state
    passing function; a handler runs only behind every guard, counters are restored on every path.
  \<^item> \<^verbatim>\<open>Conn_Gate\<close>: the connection limits as interleaved atomic steps; the limit holds and the gate drains.
  \<^item> \<^verbatim>\<open>Access_Log\<close>: formats, queue and writer thread as interleaved steps; entries are written in order, one line
    each.

  \<^bold>\<open>Content.\<close>
  \<^item> \<^verbatim>\<open>Static_Path\<close>, \<^verbatim>\<open>Static_File\<close> (\<^verbatim>\<open>handler/static_file*\<close>, \<^verbatim>\<open>middleware/cache.rs\<close>): safe paths, ranges, validators,
    the memory cache, which answers as the disk would.
  \<^item> \<^verbatim>\<open>Compress\<close>: choice of an encoding and the compressed response.
  \<^item> \<^verbatim>\<open>Fastcgi_Proto\<close>, \<^verbatim>\<open>Fastcgi\<close>: records at the byte level, the variables of a script, the response.

  \<^bold>\<open>Reverse proxy\<close> (\<^verbatim>\<open>handler/reverse_proxy/\<close>).
  \<^item> \<^verbatim>\<open>Circuit_Breaker\<close>: the breaker refines its diagram; one probe per opening under all interleavings.
  \<^item> \<^verbatim>\<open>Load_Balancer\<close>: node health and the four strategies; \<^verbatim>\<open>Retry\<close>: when another node may be tried.
  \<^item> \<^verbatim>\<open>Http1_Conn\<close>: request head, chunked bodies, response reader with its limits.
  \<^item> \<^verbatim>\<open>Proxy_Response\<close>, \<^verbatim>\<open>Proxy_Flow\<close>, \<^verbatim>\<open>Proxy_Handler\<close>: headers, attempts and accounting, the response cache around them.
  \<^item> \<^verbatim>\<open>Proxy_Cache\<close>: a memory hit is the latest response stored; \<^verbatim>\<open>Conn_Pool\<close>: no connection has two users;
    \<^verbatim>\<open>Proxy_Protocol\<close>: round trips of both versions.

  \<^bold>\<open>Certificates, start and administration.\<close>
  \<^item> \<^verbatim>\<open>Tls_Certs\<close>, \<^verbatim>\<open>Quic_Config\<close> (\<^verbatim>\<open>server/tls.rs\<close>): keys of a site, the resolver, versions, HTTP/3 settings.
  \<^item> \<^verbatim>\<open>Acme\<close> (\<^verbatim>\<open>server/acme.rs\<close>): orders and renewal; polling ends, a granted certificate is in use everywhere, a
    refused one costs only time.
  \<^item> \<^verbatim>\<open>Admin_Config\<close>, \<^verbatim>\<open>Admin_Api\<close>: changes of the configuration tree, request parsing, authorisation, dispatch.
  \<^item> \<^verbatim>\<open>Server_Start\<close> (\<^verbatim>\<open>server/http.rs\<close>): how all parts are built from one configuration and handed to each other.
  \<^item> this theory: the property that spans start, certificates and routing.

  \<^bold>\<open>State and errors.\<close> Shared mutable state is a record passed through; atomics whose interleaving matters
  (circuit breaker, connection limits, access log) are step relations with invariants by rule induction. An
  \<^verbatim>\<open>Arc\<close> is a pair of an address and a value where sharing matters. Errors are values of a sum or option type;
  code that can panic returns an outcome with a panic value. Hash maps are association lists whose order stands
  for the unspecified order of iteration, and the theorems hold for every order.

  \<^bold>\<open>Parameters and hypotheses.\<close> The regular-expression engine, the file system, the clock, the network, the JSON,
  TOML and compression libraries, the cryptography and QUIC libraries, Unicode case conversion and the ACME
  authority are arguments of the definitions. What is assumed of them is stated in each theorem, for example that
  a reload's serialisation tells changed sites apart, that iteration permutes a hash map, or that each look at an
  order comes at least three seconds after the one before.

  \<^bold>\<open>Bounds and fuel.\<close> Loops are structural or have a measure, with three exceptions: polling an order has fuel for
  101 looks, which is enough because the code sleeps at least three seconds before each and gives up after 300;
  a FastCGI request is tried at most twice, and a proxied request at most as often as its configuration allows,
  which the recursion counts down. Limits of the code (headers, bodies, queue and buffer sizes) are kept as they are.

  \<^bold>\<open>Not modelled.\<close> The asynchronous runtime and the vendored web framework; WebSocket relaying and HTTP/2 to
  upstreams, which copy bytes between library streams; \<^verbatim>\<open>sendfile\<close> and other system calls; the DNS providers; the
  rendering of statistics; command-line handling; the rate limiter and the monitor, which the server does not use.
  They are listed as components with the reason.
\<close>

section \<open>From the handshake to the site\<close>

lemma start_resolvers_bindings:
  "start_resolvers env sites = map (\<lambda>(p, c). (p, st_resolver c)) (tls_bindings env sites)"
proof -
  have "filter_map (\<lambda>(port, ss). map_option (\<lambda>c. (port, st_resolver c)) (f ss)) xs =
      map (\<lambda>(p, c). (p, st_resolver c)) (filter_map (\<lambda>(port, ss). map_option (Pair port) (f ss)) xs)"
    for f :: "site_config list \<Rightarrow> 'z server_tls option" and xs :: "(u16 \<times> site_config list) list"
    by (induction xs) (auto split: option.split)
  then show ?thesis by (simp add: start_resolvers_def tls_bindings_def)
qed

text \<open>
  C9: the handshake and the request meet the same site. On a server that has started, a client that connects to
  a TLS port of a site and names one of its hosts, exactly or by wildcard, finds the port bound, is shown a
  certificate loaded for this very site, and its request is answered by the runtime form of the same site,
  provided no two sites claim the same host.
\<close>

theorem handshake_and_request_agree:
  assumes "start_server env bind_ok has_path cfg = Inr ru"
    and "hosts_ok (te_lower (sn_tls env)) (app_sites cfg)" and "se_to_lowercase (sn_site env) = te_lower (sn_tls env)"
    and "pick_site (te_lower (sn_tls env)) id (app_sites cfg) host = Some s" and "site_tls s = Some t"
    and "port \<in> set (listen_tls s)" and "build_certified_keys (sn_tls env) t (server_name s) \<noteq> []"
  shows "TcpPort port \<in> set (ru_bound ru) \<and>
    (\<exists>c ck. (port, c) \<in> set (ru_tls ru) \<and> sni_resolve (st_resolver c) supports (Some host) = Some ck \<and>
       ck \<in> set (build_certified_keys (sn_tls env) t (server_name s))) \<and>
    (\<exists>v. lookup_inner (ru_registry ru) host = Some v \<and> runs_config (sn_site env) s v)"
proof -
  note run = start_server_bound [OF assms(1)]
  have "running (sn_site env) (app_sites cfg) (ru_registry ru)"
    using start_registry_running [of env "app_sites cfg"] assms(2,3) by (simp add: run)
  from certificate_matches_site [OF this assms(3-7), of supports]
  obtain c ck where c: "(port, c) \<in> set (ru_tls ru)" "sni_resolve (st_resolver c) supports (Some host) = Some ck"
      "ck \<in> set (build_certified_keys (sn_tls env) t (server_name s))"
    and v: "\<exists>v. lookup_inner (ru_registry ru) host = Some v \<and> runs_config (sn_site env) s v"
    by (auto simp: start_resolvers_bindings run)
  moreover have "TcpPort port \<in> set (ru_bound ru)" unfolding run(1) using c(1) by force
  ultimately show ?thesis by blast
qed

theorem handshake_and_request_agree_witness:
  "\<exists>ru. start_server demo_start_env demo_bind True demo_start_config = Inr ru \<and>
     (\<exists>c. (443, c) \<in> set (ru_tls ru) \<and> sni_resolve (st_resolver c) (\<lambda>_. True) (Some ''A.org'') = Some ''a.crt'')"
proof -
  obtain ru where ru: "start_server demo_start_env demo_bind True demo_start_config = Inr ru" using demo_starts by blast
  have "hosts_ok (te_lower (sn_tls demo_start_env)) (app_sites demo_start_config)"
    by (simp add: hosts_ok_def disjoint_keys_def demo_start_config_def)
  moreover have "pick_site (te_lower (sn_tls demo_start_env)) id (app_sites demo_start_config) ''A.org'' = Some demo_start_site"
    by (simp add: demo_start_config_def demo_start_env_def vhost_eval)
  ultimately show ?thesis
    using handshake_and_request_agree [OF ru, of "''A.org''" demo_start_site "serde_tls_config\<lparr>tls_cert := Some ''a.crt'', tls_key := Some ''k''\<rparr>"
        443 "\<lambda>_. True"] ru
    by (auto simp: demo_start_env_def)
qed

end
